(* ===== verification/Hps_Prelude.thy ===== *)
theory Hps_Prelude
  imports Main "HOL-Library.Word"
begin

text \<open>
  Shared vocabulary of the development: the machine integer types, the results a C++
  operation can have (a value, or one of the ways the program can go wrong), the sequencing
  of such operations, and the two generic interfaces (a transition system with an invariant,
  and the container interface) that the component theories interpret on their own models.
\<close>

section \<open>Machine integers\<close>

type_synonym u64 = "64 word"
type_synonym u32 = "32 word"

text \<open>The value \<open>~0ull\<close> that the timer code uses for ``no timer''.\<close>

definition u64_max :: u64 where
  "u64_max = - 1"

text \<open>A \<open>uint64_t\<close> or \<open>size_t\<close> converted to \<open>int\<close>: the low 32 bits, read as signed.\<close>

definition to_int32 :: "u64 \<Rightarrow> int" where
  "to_int32 w = sint (ucast w :: u32)"

text \<open>An \<open>int\<close> converted to \<open>size_t\<close> or \<open>uint64_t\<close>: reduction modulo \<open>2 ^ 64\<close>.\<close>

definition of_int32 :: "int \<Rightarrow> u64" where
  "of_int32 i = word_of_int i"

section \<open>Results\<close>

text \<open>
  Ways an operation can fail to deliver a value: a failed \<open>HPS_ASSERT\<close> (the process
  aborts), a null pointer dereference, an index out of range, any other undefined behaviour
  (with its reason), a C++ exception.
\<close>

datatype cpp_error =
    AssertFail string
  | NullDeref string
  | OutOfRange string
  | Undefined string
  | Thrown string

type_synonym 'a outcome = "cpp_error + 'a"

named_theorems outcome_simps \<open>rewriting of sequenced outcomes\<close>

definition obind :: "'a outcome \<Rightarrow> ('a \<Rightarrow> 'b outcome) \<Rightarrow> 'b outcome" where
  "obind m f = (case m of Inl e \<Rightarrow> Inl e | Inr x \<Rightarrow> f x)"

lemma obind_simps [simp, outcome_simps]:
  "obind (Inl e) f = Inl e"
  "obind (Inr x) f = f x"
  by (simp_all add: obind_def)

lemma obind_eq_Inr [outcome_simps]:
  "obind m f = Inr y \<longleftrightarrow> (\<exists>x. m = Inr x \<and> f x = Inr y)"
  by (cases m) simp_all

lemma obind_cong [fundef_cong]:
  "m = m' \<Longrightarrow> (\<And>x. m' = Inr x \<Longrightarrow> f x = f' x) \<Longrightarrow> obind m f = obind m' f'"
  by (cases m') simp_all

lemma obind_InrE:
  assumes "obind m f = Inr y"
  obtains x where "m = Inr x" and "f x = Inr y"
  using assms by (auto simp: obind_eq_Inr)

text \<open>
  \<open>HPS_ASSERT(x)\<close> and \<open>HPS_ASSERT2(x, w)\<close> of macro.h: log, then \<open>assert(x)\<close>, which
  aborts (the build never defines \<open>NDEBUG\<close>).
\<close>

definition HPS_ASSERT :: "bool \<Rightarrow> string \<Rightarrow> 'a outcome \<Rightarrow> 'a outcome" where
  "HPS_ASSERT b msg k = (if b then k else Inl (AssertFail msg))"

lemma HPS_ASSERT_simps [simp]:
  "HPS_ASSERT True msg k = k"
  "HPS_ASSERT False msg k = Inl (AssertFail msg)"
  by (simp_all add: HPS_ASSERT_def)

lemma HPS_ASSERT_eq_Inr [outcome_simps]:
  "HPS_ASSERT b msg k = Inr y \<longleftrightarrow> b \<and> k = Inr y"
  by (simp add: HPS_ASSERT_def)

text \<open>Dereferencing a pointer that may be null.\<close>

definition deref :: "'a option \<Rightarrow> string \<Rightarrow> 'a outcome" where
  "deref p msg = (case p of None \<Rightarrow> Inl (NullDeref msg) | Some x \<Rightarrow> Inr x)"

lemma deref_simps [simp]:
  "deref None msg = Inl (NullDeref msg)"
  "deref (Some x) msg = Inr x"
  by (simp_all add: deref_def)

lemma deref_eq_Inr [outcome_simps]: "deref p msg = Inr x \<longleftrightarrow> p = Some x"
  by (cases p) simp_all

definition is_ok :: "'a outcome \<Rightarrow> bool" where
  "is_ok r = (case r of Inl _ \<Rightarrow> False | Inr _ \<Rightarrow> True)"

lemma is_ok_simps [simp]: "is_ok (Inr x)" "\<not> is_ok (Inl e)"
  by (simp_all add: is_ok_def)

lemma is_ok_iff: "is_ok r \<longleftrightarrow> (\<exists>x. r = Inr x)"
  by (cases r) simp_all

text \<open>A loop over a list that stops at the first failure.\<close>

fun ofold :: "('a \<Rightarrow> 's \<Rightarrow> 's outcome) \<Rightarrow> 'a list \<Rightarrow> 's \<Rightarrow> 's outcome" where
  "ofold f [] s = Inr s"
| "ofold f (x # xs) s = obind (f x s) (\<lambda>s'. ofold f xs s')"

lemma ofold_append: "ofold f (xs @ ys) s = obind (ofold f xs s) (ofold f ys)"
proof (induction xs arbitrary: s)
  case Nil
  then show ?case by simp
next
  case (Cons x xs)
  then show ?case by (cases "f x s") simp_all
qed

lemma ofold_invariant:
  assumes "ofold f xs s = Inr t" and "P s"
    and "\<And>x s s'. x \<in> set xs \<Longrightarrow> P s \<Longrightarrow> f x s = Inr s' \<Longrightarrow> P s'"
  shows "P t"
  using assms
proof (induction xs arbitrary: s)
  case Nil
  then show ?case by simp
next
  case (Cons x xs)
  then obtain s' where "f x s = Inr s'" and "ofold f xs s' = Inr t"
    by (auto simp: obind_eq_Inr)
  with Cons show ?case by (metis list.set_intros)
qed

section \<open>Transition systems with an invariant\<close>

text \<open>
  The pattern every concurrent component uses: start states, a step relation, a property
  that the start states have and every step keeps. Inside: it holds of every state a run
  reaches.
\<close>

locale invariant_system =
  fixes start :: "'s \<Rightarrow> bool"
    and step :: "'s \<Rightarrow> 's \<Rightarrow> bool"
    and inv :: "'s \<Rightarrow> bool"
  assumes start_inv: "start s \<Longrightarrow> inv s"
    and step_inv: "inv s \<Longrightarrow> step s t \<Longrightarrow> inv t"
begin

lemma steps_inv: "step\<^sup>*\<^sup>* s t \<Longrightarrow> inv s \<Longrightarrow> inv t"
  by (induction rule: rtranclp_induct) (auto intro: step_inv)

lemma reachable_inv: "start s \<Longrightarrow> step\<^sup>*\<^sup>* s t \<Longrightarrow> inv t"
  using start_inv steps_inv by blast

end

section \<open>Lists\<close>

lemma sorted_wrt_take_drop:
  "sorted_wrt P xs \<Longrightarrow> x \<in> set (take n xs) \<Longrightarrow> y \<in> set (drop n xs) \<Longrightarrow> P x y"
  by (metis append_take_drop_id sorted_wrt_append)

lemma set_take_drop_insert: "set (take n xs @ x # drop n xs) = insert x (set xs)"
  by (metis Un_insert_right append_take_drop_id list.simps(15) set_append)

lemma distinct_take_drop_insert:
  "distinct (take n xs @ x # drop n xs) \<longleftrightarrow> x \<notin> set xs \<and> distinct xs"
proof -
  have "distinct (take n xs @ x # drop n xs) \<longleftrightarrow>
      x \<notin> set (take n xs @ drop n xs) \<and> distinct (take n xs @ drop n xs)"
    by (auto simp del: append_take_drop_id)
  then show ?thesis by simp
qed

lemma distinct_remove_nth:
  assumes "distinct xs" and "n < length xs"
  shows "set (take n xs @ drop (Suc n) xs) = set xs - {xs ! n}"
    and "distinct (take n xs @ drop (Suc n) xs)"
proof -
  have "xs = take n xs @ xs ! n # drop (Suc n) xs"
    by (rule id_take_nth_drop [OF assms(2)])
  then have d: "distinct (take n xs @ xs ! n # drop (Suc n) xs)"
    and s: "set xs = set (take n xs) \<union> insert (xs ! n) (set (drop (Suc n) xs))"
    using assms(1) by (simp, metis list.simps(15) set_append)
  show "set (take n xs @ drop (Suc n) xs) = set xs - {xs ! n}"
    using d s by auto
  show "distinct (take n xs @ drop (Suc n) xs)"
    using d by auto
qed

lemma sorted_wrt_remove_nth:
  assumes "sorted_wrt P xs"
  shows "sorted_wrt P (take n xs @ drop (Suc n) xs)"
proof -
  have 1: "sorted_wrt P (take n xs)" and 2: "sorted_wrt P (drop (Suc n) xs)"
    using assms by simp_all
  have "P x y" if "x \<in> set (take n xs)" "y \<in> set (drop (Suc n) xs)" for x y
  proof -
    have "y \<in> set (drop n xs)"
      using that(2) set_drop_subset_set_drop [of n "Suc n" xs] by auto
    with assms that(1) show ?thesis by (blast intro: sorted_wrt_take_drop)
  qed
  with 1 2 show ?thesis by (simp add: sorted_wrt_append)
qed


lemma takeWhile_eq_filter_sorted:
  fixes f :: "'a \<Rightarrow> 'b::linorder"
  assumes "sorted_wrt (\<lambda>a b. f a \<le> f b) xs" and "\<forall>a \<in> set xs. n \<le> f a"
  shows "takeWhile (\<lambda>a. f a = n) xs = filter (\<lambda>a. f a = n) xs"
  using assms
proof (induction xs)
  case Nil
  then show ?case by simp
next
  case (Cons a xs)
  show ?case
  proof (cases "f a = n")
    case True
    with Cons show ?thesis by simp
  next
    case False
    with Cons.prems have "\<forall>b \<in> set xs. f b \<noteq> n" by force
    with False show ?thesis by (simp add: filter_empty_conv)
  qed
qed

end
