(* ===== verification/Hps_StdSet.thy ===== *)
theory Hps_StdSet
  imports Hps_Prelude
begin

text \<open>
  \<open>std::set<K, Compare>\<close> as the timer manager uses it: the elements in iteration order, with
  \<open>insert\<close>, \<open>find\<close> and \<open>erase\<close>. The standard gives these operations a meaning only when
  \<open>Compare\<close> is a strict weak ordering of the elements; where it is not, the outcome is
  \<open>Undefined\<close>. The interface locale \<open>ordered_container\<close> states what a client may rely on.
\<close>

section \<open>The comparator's contract\<close>

definition strict_weak_order :: "('k \<Rightarrow> 'k \<Rightarrow> bool) \<Rightarrow> 'k list \<Rightarrow> bool" where
  "strict_weak_order lt xs \<longleftrightarrow>
     (\<forall>x \<in> set xs. \<not> lt x x) \<and>
     (\<forall>x \<in> set xs. \<forall>y \<in> set xs. \<forall>z \<in> set xs. lt x y \<longrightarrow> lt y z \<longrightarrow> lt x z) \<and>
     (\<forall>x \<in> set xs. \<forall>y \<in> set xs. \<forall>z \<in> set xs.
        \<not> lt x y \<and> \<not> lt y x \<longrightarrow> \<not> lt y z \<and> \<not> lt z y \<longrightarrow> \<not> lt x z \<and> \<not> lt z x)"

text \<open>Equivalent elements are equal: the comparators here decide ties by address.\<close>

definition separates :: "('k \<Rightarrow> 'k \<Rightarrow> bool) \<Rightarrow> 'k list \<Rightarrow> bool" where
  "separates lt xs \<longleftrightarrow>
     (\<forall>x \<in> set xs. \<forall>y \<in> set xs. x \<noteq> y \<longrightarrow> lt x y \<or> lt y x)"

definition set_contract :: "('k \<Rightarrow> 'k \<Rightarrow> bool) \<Rightarrow> 'k \<Rightarrow> 'k list \<Rightarrow> bool" where
  "set_contract lt x xs \<longleftrightarrow> strict_weak_order lt (x # xs) \<and> sorted_wrt lt xs"

section \<open>The operations\<close>

definition lower_bound :: "('k \<Rightarrow> 'k \<Rightarrow> bool) \<Rightarrow> 'k \<Rightarrow> 'k list \<Rightarrow> nat" where
  "lower_bound lt x xs = length (takeWhile (\<lambda>y. lt y x) xs)"

text \<open>
  \<open>insert\<close> returns the position of the element (the iterator of the returned pair) and the
  set; an equivalent element already present stays and nothing is added.
\<close>

definition std_insert :: "('k \<Rightarrow> 'k \<Rightarrow> bool) \<Rightarrow> 'k \<Rightarrow> 'k list \<Rightarrow> (nat \<times> 'k list) outcome" where
  "std_insert lt x xs =
     (if set_contract lt x xs then
        let p = lower_bound lt x xs in
        if p < length xs \<and> \<not> lt x (xs ! p) then Inr (p, xs)
        else Inr (p, take p xs @ x # drop p xs)
      else Inl (Undefined ''std::set: comparator is not a strict weak ordering''))"

text \<open>\<open>find\<close>: \<open>None\<close> is \<open>end()\<close>.\<close>

definition std_find :: "('k \<Rightarrow> 'k \<Rightarrow> bool) \<Rightarrow> 'k \<Rightarrow> 'k list \<Rightarrow> nat option outcome" where
  "std_find lt x xs =
     (if set_contract lt x xs then
        let p = lower_bound lt x xs in
        if p < length xs \<and> \<not> lt x (xs ! p) then Inr (Some p) else Inr None
      else Inl (Undefined ''std::set: comparator is not a strict weak ordering''))"

text \<open>\<open>erase(it)\<close>; erasing \<open>end()\<close> is undefined.\<close>

definition std_erase :: "nat option \<Rightarrow> 'k list \<Rightarrow> 'k list outcome" where
  "std_erase it xs =
     (case it of
        None \<Rightarrow> Inl (Undefined ''std::set: erase(end())'')
      | Some p \<Rightarrow> Inr (take p xs @ drop (Suc p) xs))"

lemma lower_bound_le: "lower_bound lt x xs \<le> length xs"
  by (simp add: lower_bound_def length_takeWhile_le)

lemma lower_bound_before:
  "y \<in> set (take (lower_bound lt x xs) xs) \<Longrightarrow> lt y x"
  unfolding lower_bound_def by (metis set_takeWhileD takeWhile_eq_take)

lemma lower_bound_at:
  "lower_bound lt x xs < length xs \<Longrightarrow> \<not> lt (xs ! lower_bound lt x xs) x"
  unfolding lower_bound_def by (rule nth_length_takeWhile)

section \<open>The interface\<close>

locale ordered_container =
  fixes insert_op :: "('k \<Rightarrow> 'k \<Rightarrow> bool) \<Rightarrow> 'k \<Rightarrow> 'k list \<Rightarrow> (nat \<times> 'k list) outcome"
    and find_op :: "('k \<Rightarrow> 'k \<Rightarrow> bool) \<Rightarrow> 'k \<Rightarrow> 'k list \<Rightarrow> nat option outcome"
    and erase_op :: "nat option \<Rightarrow> 'k list \<Rightarrow> 'k list outcome"
  assumes insert_fresh:
      "set_contract lt x xs \<Longrightarrow> separates lt (x # xs) \<Longrightarrow> x \<notin> set xs \<Longrightarrow>
       \<exists>p \<le> length xs. insert_op lt x xs = Inr (p, take p xs @ x # drop p xs) \<and>
         sorted_wrt lt (take p xs @ x # drop p xs)"
    and find_member:
      "set_contract lt x xs \<Longrightarrow> x \<in> set xs \<Longrightarrow>
       \<exists>p < length xs. find_op lt x xs = Inr (Some p) \<and> xs ! p = x"
    and find_absent:
      "set_contract lt x xs \<Longrightarrow> separates lt (x # xs) \<Longrightarrow> x \<notin> set xs \<Longrightarrow>
       find_op lt x xs = Inr None"
    and erase_at: "p < length xs \<Longrightarrow> erase_op (Some p) xs = Inr (take p xs @ drop (Suc p) xs)"
    and erase_end: "\<not> is_ok (erase_op None xs)"
    and insert_contract: "is_ok (insert_op lt x xs) \<Longrightarrow> set_contract lt x xs"
    and find_contract: "is_ok (find_op lt x xs) \<Longrightarrow> set_contract lt x xs"
begin

lemma insert_elements:
  assumes "insert_op lt x xs = Inr (p, ys)" and "separates lt (x # xs)" and "x \<notin> set xs"
  shows "p \<le> length xs" and "ys = take p xs @ x # drop p xs"
    and "set ys = insert x (set xs)" and "sorted_wrt lt ys" and "ys ! p = x"
proof -
  have "set_contract lt x xs"
    using assms(1) by (intro insert_contract) simp
  from insert_fresh [OF this assms(2,3)] assms(1)
  show "p \<le> length xs" and 2: "ys = take p xs @ x # drop p xs" and "sorted_wrt lt ys"
    by auto
  then show "set ys = insert x (set xs)" and "ys ! p = x"
    by (simp_all only: set_take_drop_insert) (simp add: nth_append)
qed

lemma insert_ok_iff:
  assumes "separates lt (x # xs)" and "x \<notin> set xs"
  shows "is_ok (insert_op lt x xs) \<longleftrightarrow> set_contract lt x xs"
  using insert_fresh [OF _ assms] insert_contract by (metis is_ok_simps(1))

lemma find_erase:
  assumes "set_contract lt x xs" and "x \<in> set xs" and "distinct xs"
  shows "\<exists>ys. obind (find_op lt x xs) (\<lambda>it. erase_op it xs) = Inr ys \<and>
    set ys = set xs - {x} \<and> distinct ys \<and> sorted_wrt lt ys \<and> length xs = Suc (length ys)"
proof -
  obtain p where p: "p < length xs" "find_op lt x xs = Inr (Some p)" "xs ! p = x"
    using find_member [OF assms(1,2)] by blast
  moreover have "sorted_wrt lt xs"
    using assms(1) by (simp add: set_contract_def)
  ultimately show ?thesis
    using distinct_remove_nth [OF assms(3) p(1)] sorted_wrt_remove_nth [of lt xs p]
    by (simp add: erase_at)
qed

end

section \<open>The list model provides the interface\<close>

lemma std_insert_fresh:
  assumes "set_contract lt x xs" and "separates lt (x # xs)" and "x \<notin> set xs"
  defines "p \<equiv> lower_bound lt x xs"
  shows "std_insert lt x xs = Inr (p, take p xs @ x # drop p xs)"
    and "sorted_wrt lt (take p xs @ x # drop p xs)"
proof -
  have swo: "strict_weak_order lt (x # xs)" and sorted: "sorted_wrt lt xs"
    using assms(1) by (simp_all add: set_contract_def)
  have before: "lt y x" if "y \<in> set (take p xs)" for y
    using that unfolding p_def by (rule lower_bound_before)
  have at: "lt x (xs ! p)" if "p < length xs"
  proof -
    have "\<not> lt (xs ! p) x"
      using that lower_bound_at [of lt x xs] by (simp add: p_def)
    moreover have "xs ! p \<in> set xs" "x \<noteq> xs ! p"
      using that assms(3) by auto
    ultimately show ?thesis
      using assms(2) by (auto simp: separates_def)
  qed
  have after: "lt x y" if "y \<in> set (drop p xs)" for y
  proof -
    from that have p: "p < length xs"
      by (metis drop_all empty_iff linorder_not_less list.set(1))
    then have "drop p xs = xs ! p # drop (Suc p) xs"
      by (rule Cons_nth_drop_Suc [symmetric])
    with that consider "y = xs ! p" | "y \<in> set (drop (Suc p) xs)" by auto
    then show ?thesis
    proof cases
      case 1
      with at p show ?thesis by simp
    next
      case 2
      have "lt (xs ! p) y"
        using sorted_wrt_drop [OF sorted, of p] 2 \<open>drop p xs = _\<close> by simp
      moreover have "y \<in> set xs" "xs ! p \<in> set xs"
        using 2 p by (auto dest: in_set_dropD)
      ultimately show ?thesis
        using at [OF p] swo unfolding strict_weak_order_def
        by (meson list.set_intros)
    qed
  qed
  show "std_insert lt x xs = Inr (p, take p xs @ x # drop p xs)"
    using assms(1) at by (auto simp: std_insert_def Let_def p_def)
  have "lt y z" if "y \<in> set (take p xs)" "z \<in> set (drop p xs)" for y z
    using sorted that by (rule sorted_wrt_take_drop)
  then show "sorted_wrt lt (take p xs @ x # drop p xs)"
    using sorted before after by (auto simp: sorted_wrt_append)
qed

lemma std_find_member:
  assumes "set_contract lt x xs" and "x \<in> set xs"
  shows "\<exists>p < length xs. std_find lt x xs = Inr (Some p) \<and> xs ! p = x"
proof -
  let ?p = "lower_bound lt x xs"
  have swo: "strict_weak_order lt (x # xs)" and sorted: "sorted_wrt lt xs"
    using assms(1) by (simp_all add: set_contract_def)
  obtain i where i: "i < length xs" "xs ! i = x"
    using assms(2) by (auto simp: in_set_conv_nth)
  have irrefl: "\<not> lt x x"
    using swo by (simp add: strict_weak_order_def)
  have le: "?p \<le> i"
  proof (rule ccontr)
    assume "\<not> ?p \<le> i"
    then have "x \<in> set (take ?p xs)"
      using i by (auto simp: in_set_conv_nth intro!: exI [of _ i])
    with irrefl show False
      using lower_bound_before by metis
  qed
  have p: "?p < length xs" using le i by simp
  have "?p = i"
  proof (rule ccontr)
    assume "?p \<noteq> i"
    with le have "?p < i" by simp
    then have "lt (xs ! ?p) (xs ! i)"
      using sorted i sorted_wrt_nth_less by blast
    with lower_bound_at [OF p] i show False by simp
  qed
  then show ?thesis
    using assms(1) i p irrefl by (auto simp: std_find_def Let_def)
qed

lemma std_find_absent:
  assumes "set_contract lt x xs" and "separates lt (x # xs)" and "x \<notin> set xs"
  shows "std_find lt x xs = Inr None"
proof -
  have "lt x (xs ! lower_bound lt x xs)" if "lower_bound lt x xs < length xs"
    using lower_bound_at [OF that] assms(2,3) that
    by (auto simp: separates_def) (metis nth_mem)
  with assms(1) show ?thesis by (auto simp: std_find_def Let_def)
qed

interpretation stdset: ordered_container std_insert std_find std_erase
proof
  show "\<exists>p \<le> length xs. std_insert lt x xs = Inr (p, take p xs @ x # drop p xs) \<and>
      sorted_wrt lt (take p xs @ x # drop p xs)"
    if "set_contract lt x xs" "separates lt (x # xs)" "x \<notin> set xs"
    for lt :: "'a \<Rightarrow> 'a \<Rightarrow> bool" and x xs
    using std_insert_fresh [OF that] lower_bound_le [of lt x xs]
    by (intro exI [of _ "lower_bound lt x xs"]) simp
  show "\<exists>p < length xs. std_find lt x xs = Inr (Some p) \<and> xs ! p = x"
    if "set_contract lt x xs" "x \<in> set xs" for lt :: "'a \<Rightarrow> 'a \<Rightarrow> bool" and x xs
    using that by (rule std_find_member)
  show "std_find lt x xs = Inr None"
    if "set_contract lt x xs" "separates lt (x # xs)" "x \<notin> set xs"
    for lt :: "'a \<Rightarrow> 'a \<Rightarrow> bool" and x xs
    using that by (rule std_find_absent)
  show "set_contract lt x xs" if "is_ok (std_insert lt x xs)"
    for lt :: "'a \<Rightarrow> 'a \<Rightarrow> bool" and x xs
    using that by (simp add: std_insert_def split: if_splits)
  show "set_contract lt x xs" if "is_ok (std_find lt x xs)"
    for lt :: "'a \<Rightarrow> 'a \<Rightarrow> bool" and x xs
    using that by (simp add: std_find_def split: if_splits)
qed (simp_all add: std_erase_def)

end
