(* ===== verification/Hps_Timer.thy ===== *)
theory Hps_Timer
  imports Hps_StdSet
begin

text \<open>
  hps_sf/timer.h and hps_sf/timer.cpp: timers, their comparator, and the timer manager.
  Timer objects are shared and mutated in place, so the manager's state carries the heap of
  timer objects (\<open>tm_objs\<close>, by address); the set \<open>m_timers\<close> is a list of addresses in
  iteration order with the operations of \<^theory_text>\<open>Hps_StdSet\<close> under the code's
  comparator. Every clock reading is an argument \<open>now\<close>. An operation that may call
  \<open>onTimerInsertedAtFront\<close> returns whether it did. Each definition is one critical section
  of \<open>m_mutex\<close>.
\<close>

section \<open>Data\<close>

record 'cb hps_Timer =
  t_recurring :: bool
  t_ms :: u64
  t_next :: u64
  t_cb :: "'cb option"

record 'cb hps_TimerManager =
  tm_objs :: "nat \<Rightarrow> 'cb hps_Timer option"
  tm_timers :: "nat list"
  tm_tickled :: bool
  tm_previousTime :: u64

text \<open>The two constructors of \<open>hps_Timer\<close>.\<close>

definition Timer_new :: "u64 \<Rightarrow> u64 \<Rightarrow> 'cb option \<Rightarrow> bool \<Rightarrow> 'cb hps_Timer" where
  "Timer_new now ms cb recurring =
     \<lparr>t_recurring = recurring, t_ms = ms, t_next = now + ms, t_cb = cb\<rparr>"

definition Timer_at :: "u64 \<Rightarrow> 'cb hps_Timer" where
  "Timer_at next_ms = \<lparr>t_recurring = False, t_ms = 0, t_next = next_ms, t_cb = None\<rparr>"

definition TimerManager_new :: "u64 \<Rightarrow> 'cb hps_TimerManager" where
  "TimerManager_new now =
     \<lparr>tm_objs = Map.empty, tm_timers = [], tm_tickled = False, tm_previousTime = now\<rparr>"

section \<open>The comparator\<close>

text \<open>
  \<open>hps_Timer::Comparator\<close>, line by line: the fifth test compares \<open>rhs\<close> with itself.
  Pointers are \<open>nat option\<close>, \<open>None\<close> the null pointer; \<open>get()\<close> orders by address. The
  \<open>m_next\<close> of an address that holds no timer is read as 0: the manager never stores one.
\<close>

definition next_of :: "(nat \<Rightarrow> 'cb hps_Timer option) \<Rightarrow> nat \<Rightarrow> u64" where
  "next_of h a = (case h a of None \<Rightarrow> 0 | Some t \<Rightarrow> t_next t)"

fun Comparator :: "(nat \<Rightarrow> 'cb hps_Timer option) \<Rightarrow> nat option \<Rightarrow> nat option \<Rightarrow> bool" where
  "Comparator h None None = False"
| "Comparator h None (Some r) = True"
| "Comparator h (Some l) None = False"
| "Comparator h (Some l) (Some r) =
     (if next_of h l < next_of h r then True
      else if next_of h r < next_of h r then False
      else l < r)"

definition timer_lt :: "(nat \<Rightarrow> 'cb hps_Timer option) \<Rightarrow> nat \<Rightarrow> nat \<Rightarrow> bool" where
  "timer_lt h l r = Comparator h (Some l) (Some r)"

section \<open>Operations of the manager\<close>

definition hasTimer :: "'cb hps_TimerManager \<Rightarrow> bool" where
  "hasTimer m \<longleftrightarrow> tm_timers m \<noteq> []"

text \<open>
  \<open>addTimer(val, lock)\<close>: insert, decide \<open>at_front\<close>, release the lock, notify. The result's
  first component says whether \<open>onTimerInsertedAtFront\<close> is called.
\<close>

definition addTimer_locked ::
  "nat \<Rightarrow> 'cb hps_TimerManager \<Rightarrow> (bool \<times> 'cb hps_TimerManager) outcome" where
  "addTimer_locked a m =
     obind (std_insert (timer_lt (tm_objs m)) a (tm_timers m)) (\<lambda>(it, ts).
       let at_front = (it = 0 \<and> \<not> tm_tickled m) in
       Inr (at_front,
            m\<lparr>tm_timers := ts, tm_tickled := (if at_front then True else tm_tickled m)\<rparr>))"

text \<open>
  \<open>addTimer(ms, cb, recurring)\<close>: \<open>a\<close> is the address the allocator returned. The result is
  the pointer, whether the front was notified, and the state.
\<close>

definition addTimer ::
  "nat \<Rightarrow> u64 \<Rightarrow> u64 \<Rightarrow> 'cb option \<Rightarrow> bool \<Rightarrow> 'cb hps_TimerManager
    \<Rightarrow> (nat \<times> bool \<times> 'cb hps_TimerManager) outcome" where
  "addTimer a now ms cb recurring m =
     obind (addTimer_locked a (m\<lparr>tm_objs := (tm_objs m)(a \<mapsto> Timer_new now ms cb recurring)\<rparr>))
       (\<lambda>(front, m'). Inr (a, front, m'))"

text \<open>
  Conditional timers: the stored function is \<open>std::bind(&OnTimer, weak_cond, cb)\<close>. The
  callbacks of an application are \<open>Fn f\<close> for its functions and \<open>Bound w cb\<close> for such a
  binding to the weak pointer \<open>w\<close>; \<open>alive w\<close> says whether \<open>weak_cond.lock()\<close> succeeds when
  it runs. The result is the application function that runs, if any; calling an empty
  \<open>std::function\<close> throws.
\<close>

datatype 'f callback = Fn 'f | Bound nat "'f callback option"

function OnTimer :: "(nat \<Rightarrow> bool) \<Rightarrow> nat \<Rightarrow> 'f callback option \<Rightarrow> 'f option outcome"
  and invoke_cb :: "(nat \<Rightarrow> bool) \<Rightarrow> 'f callback option \<Rightarrow> 'f option outcome" where
  "OnTimer alive w cb = (if alive w then invoke_cb alive cb else Inr None)"
| "invoke_cb alive None = Inl (Thrown ''std::bad_function_call'')"
| "invoke_cb alive (Some (Fn f)) = Inr (Some f)"
| "invoke_cb alive (Some (Bound w cb)) = OnTimer alive w cb"
  by pat_completeness auto
termination
  by (relation "measure (\<lambda>x. case x of
        Inl (_, _, cb) \<Rightarrow> Suc (2 * size_option size cb)
      | Inr (_, cb) \<Rightarrow> 2 * size_option size cb)") auto

definition addConditionTimer ::
  "nat \<Rightarrow> u64 \<Rightarrow> u64 \<Rightarrow> 'f callback option \<Rightarrow> nat \<Rightarrow> bool \<Rightarrow> 'f callback hps_TimerManager
    \<Rightarrow> (nat \<times> bool \<times> 'f callback hps_TimerManager) outcome" where
  "addConditionTimer a now ms cb weak_cond recurring m =
     addTimer a now ms (Some (Bound weak_cond cb)) recurring m"

text \<open>\<open>getNextTimer\<close>: \<open>~0ull\<close> without timers, 0 when the first one is due, else the distance.\<close>

definition getNextTimer :: "u64 \<Rightarrow> 'cb hps_TimerManager \<Rightarrow> u64 \<times> 'cb hps_TimerManager" where
  "getNextTimer now m =
     (let m' = m\<lparr>tm_tickled := False\<rparr> in
      case tm_timers m' of
        [] \<Rightarrow> (u64_max, m')
      | a # _ \<Rightarrow>
          if next_of (tm_objs m') a \<le> now then (0, m')
          else (next_of (tm_objs m') a - now, m'))"

text \<open>
  \<open>listExpiredCb\<close>: the iterator advances while \<open>m_next == now_ms\<close>; the passed timers leave the
  set; each one's callback is appended to \<open>cbs\<close>, and it is re-armed (recurring) or emptied.
\<close>

definition expire_one ::
  "u64 \<Rightarrow> nat \<Rightarrow> 'cb option list \<times> 'cb hps_TimerManager
    \<Rightarrow> ('cb option list \<times> 'cb hps_TimerManager) outcome" where
  "expire_one now a s =
     (case s of (cbs, m) \<Rightarrow>
      obind (deref (tm_objs m a) ''timer'') (\<lambda>t.
        let cbs' = cbs @ [t_cb t] in
        if t_recurring t then
          let m' = m\<lparr>tm_objs := (tm_objs m)(a \<mapsto> t\<lparr>t_next := now + t_ms t\<rparr>)\<rparr> in
          obind (std_insert (timer_lt (tm_objs m')) a (tm_timers m')) (\<lambda>(it, ts).
            Inr (cbs', m'\<lparr>tm_timers := ts\<rparr>))
        else Inr (cbs', m\<lparr>tm_objs := (tm_objs m)(a \<mapsto> t\<lparr>t_cb := None\<rparr>)\<rparr>)))"

definition listExpiredCb ::
  "u64 \<Rightarrow> 'cb option list \<Rightarrow> 'cb hps_TimerManager
    \<Rightarrow> ('cb option list \<times> 'cb hps_TimerManager) outcome" where
  "listExpiredCb now cbs m =
     (if tm_timers m = [] then Inr (cbs, m)
      else
        let due = (\<lambda>a. next_of (tm_objs m) a = now);
            expired = takeWhile due (tm_timers m);
            m' = m\<lparr>tm_timers := dropWhile due (tm_timers m)\<rparr>
        in ofold (expire_one now) expired (cbs, m'))"

definition detectClockRollver :: "u64 \<Rightarrow> 'cb hps_TimerManager \<Rightarrow> bool \<times> 'cb hps_TimerManager"
where
  "detectClockRollver now m =
     (let rollover = (now < tm_previousTime m \<and> now < tm_previousTime m - 60 * 60 * 1000)
      in (rollover, m\<lparr>tm_previousTime := now\<rparr>))"

section \<open>Operations of a timer\<close>

definition Timer_cancel ::
  "nat \<Rightarrow> 'cb hps_TimerManager \<Rightarrow> (bool \<times> 'cb hps_TimerManager) outcome" where
  "Timer_cancel a m =
     obind (deref (tm_objs m a) ''timer'') (\<lambda>t.
       if t_cb t \<noteq> None then
         let m' = m\<lparr>tm_objs := (tm_objs m)(a \<mapsto> t\<lparr>t_cb := None\<rparr>)\<rparr> in
         obind (std_find (timer_lt (tm_objs m')) a (tm_timers m')) (\<lambda>it.
         obind (std_erase it (tm_timers m')) (\<lambda>ts.
           Inr (True, m'\<lparr>tm_timers := ts\<rparr>)))
       else Inr (False, m))"

definition Timer_refresh ::
  "nat \<Rightarrow> u64 \<Rightarrow> 'cb hps_TimerManager \<Rightarrow> (bool \<times> 'cb hps_TimerManager) outcome" where
  "Timer_refresh a now m =
     obind (deref (tm_objs m a) ''timer'') (\<lambda>t.
       if t_cb t = None then Inr (False, m)
       else
         obind (std_find (timer_lt (tm_objs m)) a (tm_timers m)) (\<lambda>it.
         if it = None then Inr (False, m)
         else
           obind (std_erase it (tm_timers m)) (\<lambda>ts.
             let m' = m\<lparr>tm_objs := (tm_objs m)(a \<mapsto> t\<lparr>t_next := now + t_ms t\<rparr>),
                        tm_timers := ts\<rparr> in
             obind (std_insert (timer_lt (tm_objs m')) a (tm_timers m')) (\<lambda>(_, ts').
               Inr (True, m'\<lparr>tm_timers := ts'\<rparr>)))))"

text \<open>\<open>reset(ms, from_now)\<close>: returned value, whether the front was notified, state.\<close>

definition Timer_reset ::
  "nat \<Rightarrow> u64 \<Rightarrow> u64 \<Rightarrow> bool \<Rightarrow> 'cb hps_TimerManager
    \<Rightarrow> (bool \<times> bool \<times> 'cb hps_TimerManager) outcome" where
  "Timer_reset a now ms from_now m =
     obind (deref (tm_objs m a) ''timer'') (\<lambda>t.
       if ms = t_ms t \<and> \<not> from_now then Inr (True, False, m)
       else if t_cb t = None then Inr (False, False, m)
       else
         obind (std_find (timer_lt (tm_objs m)) a (tm_timers m)) (\<lambda>it.
         if it = None then Inr (False, False, m)
         else
           obind (std_erase it (tm_timers m)) (\<lambda>ts.
             let start = (if from_now then now else t_next t - t_ms t);
                 m' = m\<lparr>tm_objs := (tm_objs m)(a \<mapsto> t\<lparr>t_ms := ms, t_next := start + ms\<rparr>),
                        tm_timers := ts\<rparr> in
             obind (addTimer_locked a m') (\<lambda>(front, m''). Inr (True, front, m'')))))"

end
