(* ===== verification/Hps_TimerProps.thy ===== *)
theory Hps_TimerProps
  imports Hps_Timer "HOL-Library.Product_Lexorder"
begin

text \<open>
  What is true of the timer manager. The intended order of timers is by deadline, ties by
  address (\<open>timer_key\<close>); the code's comparator realises it exactly on the sets where deadline
  order and address order agree (\<open>concordant\<close>). The invariant \<open>tm_inv\<close> is kept by every
  operation that is defined; \<open>deadlines\<close> is the abstract view (a finite map from timers to
  deadlines) that the operations refine.
\<close>

section \<open>The comparator against the intended order\<close>

datatype timer_key = Timer_key (key_next: u64) (key_addr: nat)

instantiation timer_key :: linorder
begin

definition less_timer_key :: "timer_key \<Rightarrow> timer_key \<Rightarrow> bool" where
  "less_timer_key k l \<longleftrightarrow>
     key_next k < key_next l \<or> key_next k = key_next l \<and> key_addr k < key_addr l"

definition less_eq_timer_key :: "timer_key \<Rightarrow> timer_key \<Rightarrow> bool" where
  "less_eq_timer_key k l \<longleftrightarrow>
     key_next k < key_next l \<or> key_next k = key_next l \<and> key_addr k \<le> key_addr l"

instance
  by standard
    (auto simp: less_timer_key_def less_eq_timer_key_def timer_key.expand)

end

definition key_of :: "(nat \<Rightarrow> 'cb hps_Timer option) \<Rightarrow> nat \<Rightarrow> timer_key" where
  "key_of h a = Timer_key (next_of h a) a"

text \<open>Deadline order and address order agree on the listed timers.\<close>

definition concordant :: "(nat \<Rightarrow> 'cb hps_Timer option) \<Rightarrow> nat list \<Rightarrow> bool" where
  "concordant h xs \<longleftrightarrow>
     (\<forall>a \<in> set xs. \<forall>b \<in> set xs. next_of h a < next_of h b \<longrightarrow> a < b)"

definition orders_by_deadline :: "(nat \<Rightarrow> 'cb hps_Timer option) \<Rightarrow> nat list \<Rightarrow> bool" where
  "orders_by_deadline h xs \<longleftrightarrow>
     (\<forall>a \<in> set xs. \<forall>b \<in> set xs. timer_lt h a b \<longleftrightarrow> key_of h a < key_of h b)"

lemma timer_lt_iff: "timer_lt h l r \<longleftrightarrow> next_of h l < next_of h r \<or> l < r"
  by (simp add: timer_lt_def)

lemma key_of_less [simp]:
  "key_of h a < key_of h b \<longleftrightarrow>
     next_of h a < next_of h b \<or> next_of h a = next_of h b \<and> a < b"
  by (simp add: key_of_def less_timer_key_def)

lemma timer_lt_separates [simp, intro]: "separates (timer_lt h) xs"
  by (auto simp: separates_def timer_lt_iff)

lemma concordant_subset: "concordant h xs \<Longrightarrow> set ys \<subseteq> set xs \<Longrightarrow> concordant h ys"
  by (auto simp: concordant_def)

lemma concordant_lt:
  "concordant h xs \<Longrightarrow> a \<in> set xs \<Longrightarrow> b \<in> set xs \<Longrightarrow> timer_lt h a b \<longleftrightarrow> a < b"
  by (auto simp: concordant_def timer_lt_iff)

lemma strict_weak_order_timer_lt: "strict_weak_order (timer_lt h) xs \<longleftrightarrow> concordant h xs"
proof
  assume swo: "strict_weak_order (timer_lt h) xs"
  have "a < b" if ab: "a \<in> set xs" "b \<in> set xs" "next_of h a < next_of h b" for a b
  proof (rule ccontr)
    assume "\<not> a < b"
    with ab(3) have "timer_lt h a b" "timer_lt h b a"
      by (auto simp: timer_lt_iff)
    with swo ab(1,2) have "timer_lt h a a"
      unfolding strict_weak_order_def by blast
    with swo ab(1) show False
      unfolding strict_weak_order_def by blast
  qed
  then show "concordant h xs" by (simp add: concordant_def)
next
  assume c: "concordant h xs"
  note lt = concordant_lt [OF c]
  show "strict_weak_order (timer_lt h) xs"
    unfolding strict_weak_order_def
    by (intro conjI ballI impI) (auto simp: lt)
qed

lemma concordant_sorted:
  assumes "concordant h xs"
  shows "sorted_wrt (timer_lt h) xs \<longleftrightarrow> sorted_wrt (<) xs"
  using concordant_lt [OF assms] sorted_wrt_mono_rel [of xs] by metis

lemma set_contract_timer:
  "set_contract (timer_lt h) a xs \<longleftrightarrow> concordant h (a # xs) \<and> sorted_wrt (<) xs"
proof (cases "concordant h (a # xs)")
  case True
  then have "concordant h xs" by (rule concordant_subset) auto
  with True show ?thesis
    by (simp add: set_contract_def strict_weak_order_timer_lt concordant_sorted)
qed (simp add: set_contract_def strict_weak_order_timer_lt)

section \<open>Invariant and abstraction\<close>

definition armed :: "'cb hps_TimerManager \<Rightarrow> nat \<Rightarrow> bool" where
  "armed m a \<longleftrightarrow> (case tm_objs m a of None \<Rightarrow> False | Some t \<Rightarrow> t_cb t \<noteq> None)"

lemma armed_simps [simp]:
  "armed (m\<lparr>tm_timers := ts\<rparr>) = armed m"
  "armed (m\<lparr>tm_tickled := tk\<rparr>) = armed m"
  "armed (m\<lparr>tm_objs := h(a \<mapsto> t)\<rparr>) b = (if b = a then t_cb t \<noteq> None else armed (m\<lparr>tm_objs := h\<rparr>) b)"
  "armed (m\<lparr>tm_objs := tm_objs m\<rparr>) = armed m"
  by (simp_all add: armed_def fun_eq_iff)

definition tm_inv :: "'cb hps_TimerManager \<Rightarrow> bool" where
  "tm_inv m \<longleftrightarrow>
     concordant (tm_objs m) (tm_timers m) \<and> sorted_wrt (<) (tm_timers m) \<and>
     (\<forall>a. a \<in> set (tm_timers m) \<longleftrightarrow> armed m a)"

definition deadlines :: "'cb hps_TimerManager \<Rightarrow> nat \<Rightarrow> u64 option" where
  "deadlines m a = (if a \<in> set (tm_timers m) then Some (next_of (tm_objs m) a) else None)"

lemma tm_inv_new: "tm_inv (TimerManager_new now)"
  by (simp add: tm_inv_def TimerManager_new_def concordant_def armed_def)

lemma tm_invD:
  assumes "tm_inv m"
  shows "concordant (tm_objs m) (tm_timers m)" and "sorted_wrt (<) (tm_timers m)"
    and "distinct (tm_timers m)" and "a \<in> set (tm_timers m) \<longleftrightarrow> armed m a"
  using assms by (auto simp: tm_inv_def strict_sorted_iff)

lemma next_of_upd [simp]:
  "next_of (h(a \<mapsto> t)) b = (if b = a then t_next t else next_of h b)"
  by (simp add: next_of_def)

lemma concordant_cong:
  "(\<And>a. a \<in> set xs \<Longrightarrow> next_of h a = next_of h' a) \<Longrightarrow> concordant h xs = concordant h' xs"
  by (simp add: concordant_def)

lemma concordant_Cons_upd:
  assumes "concordant h xs" and "a \<notin> set xs"
  shows "concordant (h(a \<mapsto> t)) (a # xs) \<longleftrightarrow>
    (\<forall>b \<in> set xs. (next_of h b < t_next t \<longrightarrow> b < a) \<and> (t_next t < next_of h b \<longrightarrow> a < b))"
  using assms by (auto simp: concordant_def)

text \<open>The deadlines do not decrease along the set.\<close>

lemma next_mono_along:
  assumes "concordant h xs" and "sorted_wrt (<) xs"
  shows "sorted_wrt (\<lambda>a b. next_of h a \<le> next_of h b) xs"
proof (rule sorted_wrt_mono_rel [OF _ assms(2)])
  fix a b
  assume "a \<in> set xs" "b \<in> set xs" "a < b"
  then show "next_of h a \<le> next_of h b"
    using assms(1) unfolding concordant_def by (meson not_less not_less_iff_gr_or_eq)
qed

lemma head_is_earliest:
  assumes "tm_inv m" and "tm_timers m = a # rest"
  shows "next_of (tm_objs m) a = Min (next_of (tm_objs m) ` set (tm_timers m))"
proof -
  have "sorted_wrt (\<lambda>a b. next_of (tm_objs m) a \<le> next_of (tm_objs m) b) (a # rest)"
    using next_mono_along tm_invD(1,2) assms by metis
  then show ?thesis
    using assms(2) by (intro Min_eqI [symmetric]) auto
qed

section \<open>Adding\<close>

lemma insert_timer:
  assumes ins: "std_insert (timer_lt h) a xs = Inr (p, ts)" and a: "a \<notin> set xs"
  shows "concordant h ts" and "sorted_wrt (<) ts" and "set ts = insert a (set xs)"
    and "p = 0 \<longleftrightarrow> (\<forall>b \<in> set xs. a < b)"
proof -
  have c: "set_contract (timer_lt h) a xs"
    using ins stdset.insert_contract [of "timer_lt h" a xs] by simp
  then have conc: "concordant h (a # xs)"
    by (simp add: set_contract_timer)
  note el = stdset.insert_elements [OF ins timer_lt_separates a]
  show c': "concordant h ts"
    using conc by (rule concordant_subset) (simp add: el(3))
  then show sorted: "sorted_wrt (<) ts"
    using el(4) by (simp add: concordant_sorted)
  show "set ts = insert a (set xs)" by (rule el(3))
  show "p = 0 \<longleftrightarrow> (\<forall>b \<in> set xs. a < b)"
  proof
    assume "p = 0"
    then show "\<forall>b \<in> set xs. a < b"
      using sorted el(2) by simp
  next
    assume first: "\<forall>b \<in> set xs. a < b"
    show "p = 0"
    proof (rule ccontr)
      assume "p \<noteq> 0"
      then obtain b where b: "b \<in> set (take p xs)"
        using el(1) by (cases xs; cases p) auto
      then have "b < a"
        using sorted el(2) by (auto simp: sorted_wrt_append)
      with first b show False
        by (metis in_set_takeD less_asym)
    qed
  qed
qed

lemma addTimer_locked_inv:
  assumes ok: "addTimer_locked a m = Inr (front, m')"
    and "a \<notin> set (tm_timers m)" and armed: "armed m a"
    and others: "\<And>b. b \<noteq> a \<Longrightarrow> b \<in> set (tm_timers m) \<longleftrightarrow> armed m b"
  shows "tm_inv m'" and "tm_objs m' = tm_objs m"
    and "set (tm_timers m') = insert a (set (tm_timers m))"
    and "front \<longleftrightarrow> \<not> tm_tickled m \<and> (\<forall>b \<in> set (tm_timers m). a < b)"
    and "tm_tickled m' \<longleftrightarrow> tm_tickled m \<or> front"
proof -
  obtain p ts where ins: "std_insert (timer_lt (tm_objs m)) a (tm_timers m) = Inr (p, ts)"
    and m': "m' = m\<lparr>tm_timers := ts, tm_tickled := (p = 0 \<and> \<not> tm_tickled m \<or> tm_tickled m)\<rparr>"
    and front: "front \<longleftrightarrow> p = 0 \<and> \<not> tm_tickled m"
    using ok by (auto simp: addTimer_locked_def Let_def obind_eq_Inr)
  note el = insert_timer [OF ins assms(2)]
  have "b \<in> set ts \<longleftrightarrow> armed m b" for b
    using armed others [of b] el(3) by (cases "b = a") auto
  then show "tm_inv m'"
    using el(1,2) by (simp add: tm_inv_def m')
  show "tm_objs m' = tm_objs m" "set (tm_timers m') = insert a (set (tm_timers m))"
    "tm_tickled m' \<longleftrightarrow> tm_tickled m \<or> front"
    "front \<longleftrightarrow> \<not> tm_tickled m \<and> (\<forall>b \<in> set (tm_timers m). a < b)"
    using el(3,4) by (auto simp: m' front)
qed

lemma addTimer_locked_ok_iff:
  "a \<notin> set (tm_timers m) \<Longrightarrow> is_ok (addTimer_locked a m) \<longleftrightarrow>
     concordant (tm_objs m) (a # tm_timers m) \<and> sorted_wrt (<) (tm_timers m)"
  using stdset.insert_ok_iff [of "timer_lt (tm_objs m)" a "tm_timers m"]
  by (auto simp: addTimer_locked_def set_contract_timer is_ok_iff obind_eq_Inr Let_def)


lemma addTimer_cases:
  assumes inv: "tm_inv m" and fresh: "tm_objs m a = None"
    and ok: "addTimer a now ms (Some cb) rec m = Inr (p, front, m')"
  shows "p = a" and "tm_inv m'" and "deadlines m' = (deadlines m)(a \<mapsto> now + ms)"
    and "front \<longleftrightarrow> \<not> tm_tickled m \<and> (\<forall>b \<in> set (tm_timers m). a < b)"
    and "tm_tickled m' \<longleftrightarrow> tm_tickled m \<or> front"
    and "tm_objs m' = (tm_objs m)(a \<mapsto> Timer_new now ms (Some cb) rec)"
proof -
  let ?m = "m\<lparr>tm_objs := (tm_objs m)(a \<mapsto> Timer_new now ms (Some cb) rec)\<rparr>"
  have locked: "addTimer_locked a ?m = Inr (front, m')" and p: "p = a"
    using ok by (auto simp: addTimer_def obind_eq_Inr)
  have a: "a \<notin> set (tm_timers m)"
    using tm_invD(4) [OF inv] fresh by (simp add: armed_def)
  have "armed ?m a" by (simp add: Timer_new_def)
  moreover have "b \<in> set (tm_timers ?m) \<longleftrightarrow> armed ?m b" if "b \<noteq> a" for b
    using tm_invD(4) [OF inv] that by simp
  ultimately have *: "tm_inv m'" "tm_objs m' = tm_objs ?m"
      "set (tm_timers m') = insert a (set (tm_timers m))"
      "front \<longleftrightarrow> \<not> tm_tickled m \<and> (\<forall>b \<in> set (tm_timers m). a < b)"
      "tm_tickled m' \<longleftrightarrow> tm_tickled m \<or> front"
    using addTimer_locked_inv [OF locked] a by simp_all
  show "p = a" "tm_inv m'" "tm_tickled m' \<longleftrightarrow> tm_tickled m \<or> front"
    "front \<longleftrightarrow> \<not> tm_tickled m \<and> (\<forall>b \<in> set (tm_timers m). a < b)"
    "tm_objs m' = (tm_objs m)(a \<mapsto> Timer_new now ms (Some cb) rec)"
    using p * by simp_all
  show "deadlines m' = (deadlines m)(a \<mapsto> now + ms)"
    using a by (intro ext) (simp add: deadlines_def *(2,3) Timer_new_def)
qed

lemma addTimer_ok_iff:
  assumes inv: "tm_inv m" and fresh: "tm_objs m a = None"
  shows "is_ok (addTimer a now ms (Some cb) rec m) \<longleftrightarrow>
    (\<forall>b \<in> set (tm_timers m).
       (next_of (tm_objs m) b < now + ms \<longrightarrow> b < a) \<and> (now + ms < next_of (tm_objs m) b \<longrightarrow> a < b))"
proof -
  let ?t = "Timer_new now ms (Some cb) rec"
  let ?m = "m\<lparr>tm_objs := (tm_objs m)(a \<mapsto> ?t)\<rparr>"
  have a: "a \<notin> set (tm_timers m)"
    using tm_invD(4) [OF inv] fresh by (simp add: armed_def)
  have "is_ok (addTimer a now ms (Some cb) rec m) \<longleftrightarrow> is_ok (addTimer_locked a ?m)"
    by (auto simp: addTimer_def is_ok_iff obind_eq_Inr)
  then show ?thesis
    using a tm_invD(1,2) [OF inv]
    by (simp add: addTimer_locked_ok_iff concordant_Cons_upd Timer_new_def)
qed

section \<open>Removing and moving\<close>

lemma find_erase_timer:
  assumes "concordant h xs" and "sorted_wrt (<) xs" and "a \<in> set xs"
  shows "\<exists>p ys. std_find (timer_lt h) a xs = Inr (Some p) \<and> std_erase (Some p) xs = Inr ys \<and>
    set ys = set xs - {a} \<and> sorted_wrt (<) ys \<and> concordant h ys"
proof -
  have c: "set_contract (timer_lt h) a xs"
    using assms by (auto simp: set_contract_timer intro: concordant_subset)
  obtain p where p: "p < length xs" "std_find (timer_lt h) a xs = Inr (Some p)" "xs ! p = a"
    using stdset.find_member [OF c assms(3)] by blast
  have d: "distinct xs"
    using assms(2) by (simp add: strict_sorted_iff)
  have "set (take p xs @ drop (Suc p) xs) = set xs - {a}"
    using distinct_remove_nth(1) [OF d p(1)] p(3) by simp
  moreover have "sorted_wrt (<) (take p xs @ drop (Suc p) xs)"
    using assms(2) by (rule sorted_wrt_remove_nth)
  ultimately show ?thesis
    using p stdset.erase_at [OF p(1)] concordant_subset [OF assms(1)] by force
qed

lemma Timer_cancel_armed:
  assumes inv: "tm_inv m" and t: "tm_objs m a = Some t"
  shows "\<exists>m'. Timer_cancel a m = Inr (armed m a, m') \<and> tm_inv m' \<and> \<not> armed m' a \<and>
    deadlines m' = (deadlines m)(a := None) \<and> tm_tickled m' = tm_tickled m"
proof (cases "t_cb t = None")
  case True
  then have "\<not> armed m a" using t by (simp add: armed_def)
  moreover from this have "deadlines m a = None"
    using tm_invD(4) [OF inv] by (simp add: deadlines_def)
  ultimately show ?thesis
    using True t inv by (auto simp: Timer_cancel_def fun_upd_idem)
next
  case False
  let ?m = "m\<lparr>tm_objs := (tm_objs m)(a \<mapsto> t\<lparr>t_cb := None\<rparr>)\<rparr>"
  have arm: "armed m a" using False t by (simp add: armed_def)
  then have mem: "a \<in> set (tm_timers m)" using tm_invD(4) [OF inv] by simp
  have "next_of (tm_objs m) a = t_next t" using t by (simp add: next_of_def)
  then have "concordant (tm_objs ?m) (tm_timers m)"
    using tm_invD(1) [OF inv] by (simp cong: concordant_cong add: concordant_def)
  from find_erase_timer [OF this tm_invD(2) [OF inv] mem]
  obtain p ys where *: "std_find (timer_lt (tm_objs ?m)) a (tm_timers m) = Inr (Some p)"
      "std_erase (Some p) (tm_timers m) = Inr ys" "set ys = set (tm_timers m) - {a}"
      "sorted_wrt (<) ys" "concordant (tm_objs ?m) ys"
    by blast
  let ?m' = "?m\<lparr>tm_timers := ys\<rparr>"
  have "Timer_cancel a m = Inr (True, ?m')"
    using False t *(1,2) by (simp add: Timer_cancel_def Let_def)
  moreover have "tm_inv ?m'"
    using * tm_invD(4) [OF inv] by (auto simp: tm_inv_def)
  moreover have "deadlines ?m' = (deadlines m)(a := None)"
    using *(3) by (auto simp: deadlines_def fun_eq_iff)
  ultimately show ?thesis using arm by auto
qed


lemma refresh_core:
  assumes inv: "tm_inv m" and t: "tm_objs m a = Some t" "t_cb t \<noteq> None"
  obtains p ys where "std_find (timer_lt (tm_objs m)) a (tm_timers m) = Inr (Some p)"
    and "std_erase (Some p) (tm_timers m) = Inr ys"
    and "set ys = set (tm_timers m) - {a}"
    and "\<And>t' b. t_cb t' \<noteq> None \<Longrightarrow> b \<noteq> a \<Longrightarrow>
      b \<in> set ys \<longleftrightarrow> armed (m\<lparr>tm_objs := (tm_objs m)(a \<mapsto> t'), tm_timers := ys\<rparr>) b"
proof -
  have "a \<in> set (tm_timers m)"
    using t tm_invD(4) [OF inv] by (simp add: armed_def)
  from find_erase_timer [OF tm_invD(1,2) [OF inv] this] that tm_invD(4) [OF inv]
  show thesis by force
qed

lemma Timer_refresh_cases:
  assumes inv: "tm_inv m" and t: "tm_objs m a = Some t"
    and ok: "Timer_refresh a now m = Inr (r, m')"
  shows "r \<longleftrightarrow> armed m a" and "tm_inv m'" and "tm_tickled m' = tm_tickled m"
    and "deadlines m' = (if r then (deadlines m)(a \<mapsto> now + t_ms t) else deadlines m)"
proof -
  have "(r \<longleftrightarrow> armed m a) \<and> tm_inv m' \<and> tm_tickled m' = tm_tickled m \<and>
    deadlines m' = (if r then (deadlines m)(a \<mapsto> now + t_ms t) else deadlines m)"
  proof (cases "t_cb t = None")
    case True
    with ok t inv show ?thesis by (simp add: Timer_refresh_def armed_def)
  next
    case False
    let ?h = "(tm_objs m)(a \<mapsto> t\<lparr>t_next := now + t_ms t\<rparr>)"
    from refresh_core [OF inv t False]
    obtain p ys where f: "std_find (timer_lt (tm_objs m)) a (tm_timers m) = Inr (Some p)"
        "std_erase (Some p) (tm_timers m) = Inr ys" "set ys = set (tm_timers m) - {a}"
      and arm: "\<And>t' b. t_cb t' \<noteq> None \<Longrightarrow> b \<noteq> a \<Longrightarrow>
        b \<in> set ys \<longleftrightarrow> armed (m\<lparr>tm_objs := (tm_objs m)(a \<mapsto> t'), tm_timers := ys\<rparr>) b"
      by blast
    obtain q ts where ins: "std_insert (timer_lt ?h) a ys = Inr (q, ts)"
      and m': "m' = m\<lparr>tm_objs := ?h, tm_timers := ts\<rparr>" and r: "r"
      using ok t False f by (auto simp: Timer_refresh_def Let_def obind_eq_Inr)
    have el: "concordant ?h ts" "sorted_wrt (<) ts" "set ts = insert a (set ys)"
      using insert_timer [OF ins] f(3) by simp_all
    have "b \<in> set ts \<longleftrightarrow> armed m' b" for b
      using arm [of "t\<lparr>t_next := now + t_ms t\<rparr>" b] False el(3)
      by (cases "b = a") (simp_all add: m' armed_def)
    then have "tm_inv m'" using el(1,2) by (simp add: tm_inv_def m')
    moreover have "deadlines m' = (deadlines m)(a \<mapsto> now + t_ms t)"
      using el(3) f(3) by (intro ext) (simp add: deadlines_def m')
    ultimately show ?thesis using r False t by (simp add: m' armed_def)
  qed
  then show "r \<longleftrightarrow> armed m a" "tm_inv m'" "tm_tickled m' = tm_tickled m"
    "deadlines m' = (if r then (deadlines m)(a \<mapsto> now + t_ms t) else deadlines m)"
    by blast+
qed

text \<open>\<open>reset\<close>: the new deadline counts from now, or from when the old interval began.\<close>

definition reset_deadline :: "u64 \<Rightarrow> u64 \<Rightarrow> bool \<Rightarrow> 'cb hps_Timer \<Rightarrow> u64" where
  "reset_deadline now ms from_now t = (if from_now then now else t_next t - t_ms t) + ms"

lemma Timer_reset_cases:
  assumes inv: "tm_inv m" and t: "tm_objs m a = Some t"
    and ok: "Timer_reset a now ms from_now m = Inr (r, front, m')"
  defines "moves \<equiv> (ms \<noteq> t_ms t \<or> from_now) \<and> armed m a"
  shows "r \<longleftrightarrow> armed m a \<or> ms = t_ms t \<and> \<not> from_now" and "tm_inv m'"
    and "tm_tickled m' \<longleftrightarrow> tm_tickled m \<or> front" and "front \<longrightarrow> \<not> tm_tickled m"
    and "deadlines m' =
      (if moves then (deadlines m)(a \<mapsto> reset_deadline now ms from_now t) else deadlines m)"
proof -
  have "(r \<longleftrightarrow> armed m a \<or> ms = t_ms t \<and> \<not> from_now) \<and> tm_inv m' \<and>
    (tm_tickled m' \<longleftrightarrow> tm_tickled m \<or> front) \<and> (front \<longrightarrow> \<not> tm_tickled m) \<and> deadlines m' =
      (if moves then (deadlines m)(a \<mapsto> reset_deadline now ms from_now t) else deadlines m)"
  proof (cases "(ms = t_ms t \<and> \<not> from_now) \<or> t_cb t = None")
    case True
    with ok t inv show ?thesis
      by (auto simp: Timer_reset_def armed_def moves_def split: if_splits)
  next
    case False
    define t' where "t' = t\<lparr>t_ms := ms, t_next := reset_deadline now ms from_now t\<rparr>"
    have cb: "t_cb t' \<noteq> None" "t_next t' = reset_deadline now ms from_now t"
      using False by (simp_all add: t'_def)
    from False have "t_cb t \<noteq> None" by simp
    from refresh_core [OF inv t this]
    obtain p ys where f: "std_find (timer_lt (tm_objs m)) a (tm_timers m) = Inr (Some p)"
        "std_erase (Some p) (tm_timers m) = Inr ys" "set ys = set (tm_timers m) - {a}"
      and arm: "\<And>t' b. t_cb t' \<noteq> None \<Longrightarrow> b \<noteq> a \<Longrightarrow>
        b \<in> set ys \<longleftrightarrow> armed (m\<lparr>tm_objs := (tm_objs m)(a \<mapsto> t'), tm_timers := ys\<rparr>) b"
      by blast
    let ?m = "m\<lparr>tm_objs := (tm_objs m)(a \<mapsto> t'), tm_timers := ys\<rparr>"
    have locked: "addTimer_locked a ?m = Inr (front, m')" and r: "r"
      using ok t False f(1,2) unfolding t'_def reset_deadline_def
      by (auto simp: Timer_reset_def Let_def obind_eq_Inr)
    have "a \<notin> set (tm_timers ?m)" "armed ?m a"
      using f(3) cb by (simp_all add: armed_def)
    note res = addTimer_locked_inv [OF locked this]
    have res: "tm_inv m'" "tm_objs m' = tm_objs ?m" "set (tm_timers m') = insert a (set ys)"
      "front \<longrightarrow> \<not> tm_tickled m" "tm_tickled m' \<longleftrightarrow> tm_tickled m \<or> front"
      using res arm [OF cb(1)] by simp_all
    have "deadlines m' = (deadlines m)(a \<mapsto> reset_deadline now ms from_now t)"
      using f(3) by (intro ext) (simp add: deadlines_def res(2,3) cb)
    then show ?thesis using r False t res by (auto simp: moves_def armed_def)
  qed
  then show "r \<longleftrightarrow> armed m a \<or> ms = t_ms t \<and> \<not> from_now" "tm_inv m'"
    "tm_tickled m' \<longleftrightarrow> tm_tickled m \<or> front" "front \<longrightarrow> \<not> tm_tickled m"
    "deadlines m' =
      (if moves then (deadlines m)(a \<mapsto> reset_deadline now ms from_now t) else deadlines m)"
    by blast+
qed


section \<open>Expiring\<close>

definition cb_of :: "'cb hps_TimerManager \<Rightarrow> nat \<Rightarrow> 'cb option" where
  "cb_of m a = (case tm_objs m a of None \<Rightarrow> None | Some t \<Rightarrow> t_cb t)"

definition recurs :: "'cb hps_TimerManager \<Rightarrow> nat \<Rightarrow> bool" where
  "recurs m a \<longleftrightarrow> (case tm_objs m a of None \<Rightarrow> False | Some t \<Rightarrow> t_recurring t)"

definition interval :: "'cb hps_TimerManager \<Rightarrow> nat \<Rightarrow> u64" where
  "interval m a = (case tm_objs m a of None \<Rightarrow> 0 | Some t \<Rightarrow> t_ms t)"

lemma armed_cb_of: "armed m a \<longleftrightarrow> cb_of m a \<noteq> None"
  by (simp add: armed_def cb_of_def split: option.split)

text \<open>The state inside the loop: the timers still to be processed have left the set.\<close>

definition expiring :: "nat list \<Rightarrow> 'cb hps_TimerManager \<Rightarrow> bool" where
  "expiring E m \<longleftrightarrow> concordant (tm_objs m) (tm_timers m) \<and> sorted_wrt (<) (tm_timers m) \<and>
     distinct E \<and> (\<forall>a \<in> set E. a \<notin> set (tm_timers m) \<and> armed m a) \<and>
     (\<forall>b. b \<notin> set E \<longrightarrow> (b \<in> set (tm_timers m) \<longleftrightarrow> armed m b))"

lemma expire_one_cases:
  assumes ex: "expiring (a # E) m" and ok: "expire_one now a (cbs, m) = Inr (cbs', m')"
  shows "cbs' = cbs @ [cb_of m a]" and "expiring E m'" and "tm_tickled m' = tm_tickled m"
    and "b \<noteq> a \<Longrightarrow> tm_objs m' b = tm_objs m b"
    and "set (tm_timers m') = set (tm_timers m) \<union> (if recurs m a then {a} else {})"
    and "recurs m a \<Longrightarrow> next_of (tm_objs m') a = now + interval m a"
proof -
  have a: "a \<notin> set (tm_timers m)" "armed m a" "a \<notin> set E"
    using ex by (auto simp: expiring_def)
  then obtain t where t: "tm_objs m a = Some t" "t_cb t \<noteq> None"
    by (auto simp: armed_def split: option.splits)
  have eqs: "cb_of m a = t_cb t" "recurs m a = t_recurring t" "interval m a = t_ms t"
    using t by (simp_all add: cb_of_def recurs_def interval_def)
  have "cbs' = cbs @ [cb_of m a] \<and> expiring E m' \<and> tm_tickled m' = tm_tickled m \<and>
    (\<forall>b. b \<noteq> a \<longrightarrow> tm_objs m' b = tm_objs m b) \<and>
    set (tm_timers m') = set (tm_timers m) \<union> (if recurs m a then {a} else {}) \<and>
    (recurs m a \<longrightarrow> next_of (tm_objs m') a = now + interval m a)"
  proof (cases "t_recurring t")
    case True
    let ?h = "(tm_objs m)(a \<mapsto> t\<lparr>t_next := now + t_ms t\<rparr>)"
    obtain p ts where ins: "std_insert (timer_lt ?h) a (tm_timers m) = Inr (p, ts)"
      and m': "m' = m\<lparr>tm_objs := ?h, tm_timers := ts\<rparr>" "cbs' = cbs @ [t_cb t]"
      using ok t True by (auto simp: expire_one_def Let_def obind_eq_Inr)
    note el = insert_timer [OF ins a(1)]
    have "expiring E m'"
      using el(1-3) a(3) ex t by (simp add: expiring_def m' armed_def) blast
    then show ?thesis using el(3) True by (simp add: m' eqs)
  next
    case False
    then have m': "m' = m\<lparr>tm_objs := (tm_objs m)(a \<mapsto> t\<lparr>t_cb := None\<rparr>)\<rparr>" "cbs' = cbs @ [t_cb t]"
      using ok t by (simp_all add: expire_one_def Let_def)
    have "next_of (tm_objs m') b = next_of (tm_objs m) b" for b
      using t by (simp add: m' next_of_def)
    then have "expiring E m'"
      using ex a by (simp add: expiring_def concordant_def) (auto simp: m')
    then show ?thesis using False by (simp add: m' eqs)
  qed
  then show "cbs' = cbs @ [cb_of m a]" "expiring E m'" "tm_tickled m' = tm_tickled m"
    "b \<noteq> a \<Longrightarrow> tm_objs m' b = tm_objs m b"
    "set (tm_timers m') = set (tm_timers m) \<union> (if recurs m a then {a} else {})"
    "recurs m a \<Longrightarrow> next_of (tm_objs m') a = now + interval m a"
    by blast+
qed

lemma of_objs_cong:
  "tm_objs m b = tm_objs m' b \<Longrightarrow> cb_of m b = cb_of m' b"
  "tm_objs m b = tm_objs m' b \<Longrightarrow> recurs m b = recurs m' b"
  "tm_objs m b = tm_objs m' b \<Longrightarrow> interval m b = interval m' b"
  "tm_objs m b = tm_objs m' b \<Longrightarrow> next_of (tm_objs m) b = next_of (tm_objs m') b"
  by (simp_all add: cb_of_def recurs_def interval_def next_of_def)

lemma expire_fold:
  assumes "expiring E m" and "ofold (expire_one now) E (cbs, m) = Inr (cbs', m')"
  shows "cbs' = cbs @ map (cb_of m) E \<and> tm_inv m' \<and> tm_tickled m' = tm_tickled m \<and>
    (\<forall>b. b \<notin> set E \<longrightarrow> tm_objs m' b = tm_objs m b) \<and>
    set (tm_timers m') = set (tm_timers m) \<union> {a \<in> set E. recurs m a} \<and>
    (\<forall>a \<in> set E. recurs m a \<longrightarrow> next_of (tm_objs m') a = now + interval m a)"
  using assms
proof (induction E arbitrary: cbs m)
  case Nil
  then show ?case by (simp add: expiring_def tm_inv_def)
next
  case (Cons a E)
  obtain c1 m1 where s1: "expire_one now a (cbs, m) = Inr (c1, m1)"
    and s2: "ofold (expire_one now) E (c1, m1) = Inr (cbs', m')"
    using Cons.prems(2) by (auto simp: obind_eq_Inr)
  note one = expire_one_cases [OF Cons.prems(1) s1]
  note IH = Cons.IH [OF one(2) s2]
  have a: "a \<notin> set E" using Cons.prems(1) by (simp add: expiring_def)
  have same: "tm_objs m1 b = tm_objs m b" if "b \<in> set E" for b
    using a that by (intro one(4)) auto
  note cong = of_objs_cong [of m1 _ m, OF same]
  have "map (cb_of m1) E = map (cb_of m) E"
    using cong(1) by simp
  moreover have "{x \<in> set E. recurs m1 x} = {x \<in> set E. recurs m x}"
    using cong(2) by auto
  moreover have "tm_objs m' a = tm_objs m1 a" using IH a by blast
  then have "next_of (tm_objs m') a = now + interval m a" if "recurs m a"
    using one(6) [OF that] by (simp add: next_of_def)
  ultimately show ?case
    using IH one(1,3,5) cong(2,3) by (auto simp: one(4))
qed

lemma listExpiredCb_cases:
  assumes inv: "tm_inv m" and ok: "listExpiredCb now cbs m = Inr (cbs', m')"
  defines "E \<equiv> takeWhile (\<lambda>a. next_of (tm_objs m) a = now) (tm_timers m)"
  shows "cbs' = cbs @ map (cb_of m) E" and "tm_inv m'" and "tm_tickled m' = tm_tickled m"
    and "deadlines m' = (\<lambda>a. if a \<in> set E
           then (if recurs m a then Some (now + interval m a) else None) else deadlines m a)"
proof -
  let ?due = "\<lambda>a. next_of (tm_objs m) a = now"
  let ?rest = "dropWhile ?due (tm_timers m)"
  let ?m = "m\<lparr>tm_timers := ?rest\<rparr>"
  have split: "tm_timers m = E @ ?rest" by (simp add: E_def)
  have ok': "ofold (expire_one now) E (cbs, ?m) = Inr (cbs', m')"
    using ok by (cases "tm_timers m") (auto simp: listExpiredCb_def Let_def E_def)
  have d: "distinct (E @ ?rest)" using tm_invD(3) [OF inv] by (simp add: E_def)
  have "expiring E ?m"
  proof -
    have "concordant (tm_objs m) ?rest"
      using tm_invD(1) [OF inv] by (rule concordant_subset) (auto dest: set_dropWhileD)
    moreover have "sorted_wrt (<) ?rest"
      using tm_invD(2) [OF inv] split by (metis sorted_wrt_append)
    moreover have "b \<in> set E \<or> b \<in> set ?rest \<longleftrightarrow> armed m b" for b
      using tm_invD(4) [OF inv, of b] split by (metis Un_iff set_append)
    ultimately show ?thesis
      using d by (auto simp: expiring_def)
  qed
  note res = expire_fold [OF this ok']
  have of_m: "cb_of ?m = cb_of m" "recurs ?m = recurs m" "interval ?m = interval m"
    by (simp_all add: cb_of_def recurs_def interval_def fun_eq_iff)
  show "cbs' = cbs @ map (cb_of m) E" "tm_inv m'" "tm_tickled m' = tm_tickled m"
    using res by (simp_all add: of_m)
  show "deadlines m' = (\<lambda>a. if a \<in> set E
      then (if recurs m a then Some (now + interval m a) else None) else deadlines m a)"
  proof
    fix a
    have mem: "a \<in> set (tm_timers m) \<longleftrightarrow> a \<in> set E \<or> a \<in> set ?rest"
      using split by (metis Un_iff set_append)
    show "deadlines m' a = (if a \<in> set E
      then (if recurs m a then Some (now + interval m a) else None) else deadlines m a)"
      using res d mem of_objs_cong(4) [of m' a m]
      by (cases "a \<in> set E") (auto simp: deadlines_def of_m)
  qed
qed

text \<open>Without overdue timers the due prefix is all the timers due now.\<close>

lemma due_prefix:
  assumes inv: "tm_inv m" and none_overdue: "\<forall>a \<in> set (tm_timers m). now \<le> next_of (tm_objs m) a"
  shows "takeWhile (\<lambda>a. next_of (tm_objs m) a = now) (tm_timers m) =
    filter (\<lambda>a. next_of (tm_objs m) a = now) (tm_timers m)"
  using takeWhile_eq_filter_sorted [OF next_mono_along [OF tm_invD(1,2) [OF inv]] none_overdue] .

end
