(* ===== verification/Hps_TimerClaims.thy ===== *)
theory Hps_TimerClaims
  imports Hps_TimerProps
begin

text \<open>
  The properties of the timer manager: runs of operations and their invariant, the
  refinement of the abstract map from timers to deadlines, what a poll fires, and what an
  overdue timer does to the set.
\<close>

section \<open>Runs of operations\<close>

datatype 'cb tm_op =
    OpAdd nat u64 u64 'cb bool
  | OpCancel nat
  | OpRefresh nat u64
  | OpReset nat u64 u64 bool
  | OpNext u64
  | OpExpire u64
  | OpRollover u64

text \<open>One operation; the first component says whether it notified \<open>onTimerInsertedAtFront\<close>.\<close>

fun tm_exec :: "'cb tm_op \<Rightarrow> 'cb hps_TimerManager \<Rightarrow> (bool \<times> 'cb hps_TimerManager) outcome" where
  "tm_exec (OpAdd a now ms cb rec) m =
     obind (addTimer a now ms (Some cb) rec m) (\<lambda>(p, front, m'). Inr (front, m'))"
| "tm_exec (OpCancel a) m = obind (Timer_cancel a m) (\<lambda>(r, m'). Inr (False, m'))"
| "tm_exec (OpRefresh a now) m = obind (Timer_refresh a now m) (\<lambda>(r, m'). Inr (False, m'))"
| "tm_exec (OpReset a now ms from_now) m =
     obind (Timer_reset a now ms from_now m) (\<lambda>(r, front, m'). Inr (front, m'))"
| "tm_exec (OpNext now) m = Inr (False, snd (getNextTimer now m))"
| "tm_exec (OpExpire now) m = obind (listExpiredCb now [] m) (\<lambda>(cbs, m'). Inr (False, m'))"
| "tm_exec (OpRollover now) m = Inr (False, snd (detectClockRollver now m))"

text \<open>
  What a caller can do: the allocator returns an address that holds no live timer, and the
  timer operations are called on timers that exist.
\<close>

fun tm_legal :: "'cb tm_op \<Rightarrow> 'cb hps_TimerManager \<Rightarrow> bool" where
  "tm_legal (OpAdd a now ms cb rec) m \<longleftrightarrow> tm_objs m a = None"
| "tm_legal (OpCancel a) m \<longleftrightarrow> tm_objs m a \<noteq> None"
| "tm_legal (OpRefresh a now) m \<longleftrightarrow> tm_objs m a \<noteq> None"
| "tm_legal (OpReset a now ms from_now) m \<longleftrightarrow> tm_objs m a \<noteq> None"
| "tm_legal (OpNext now) m \<longleftrightarrow> True"
| "tm_legal (OpExpire now) m \<longleftrightarrow> True"
| "tm_legal (OpRollover now) m \<longleftrightarrow> True"

inductive tm_step :: "'cb hps_TimerManager \<Rightarrow> 'cb hps_TimerManager \<Rightarrow> bool" where
  exec: "tm_legal op m \<Longrightarrow> tm_exec op m = Inr (n, m') \<Longrightarrow> tm_step m m'"

inductive_cases tm_stepE: "tm_step m m'"

lemma getNextTimer_state:
  "tm_objs (snd (getNextTimer now m)) = tm_objs m"
  "tm_timers (snd (getNextTimer now m)) = tm_timers m"
  by (simp_all add: getNextTimer_def Let_def split: list.split)

lemma tm_inv_cong:
  "tm_objs m' = tm_objs m \<Longrightarrow> tm_timers m' = tm_timers m \<Longrightarrow> tm_inv m' \<longleftrightarrow> tm_inv m"
  by (simp add: tm_inv_def armed_def)

lemma tm_exec_inv:
  assumes "tm_inv m" and "tm_legal op m" and "tm_exec op m = Inr (n, m')"
  shows "tm_inv m'"
proof (cases op)
  case (OpAdd a now ms cb rec)
  with assms show ?thesis
    by (auto simp: obind_eq_Inr dest: addTimer_cases(2))
next
  case (OpCancel a)
  with assms obtain t where "tm_objs m a = Some t" by auto
  from Timer_cancel_armed [OF assms(1) this] assms(3) OpCancel show ?thesis
    by (auto simp: obind_eq_Inr)
next
  case (OpRefresh a now)
  with assms show ?thesis
    by (auto simp: obind_eq_Inr dest: Timer_refresh_cases(2))
next
  case (OpReset a now ms from_now)
  with assms show ?thesis
    by (auto simp: obind_eq_Inr dest: Timer_reset_cases(2))
next
  case (OpNext now)
  with assms show ?thesis
    by (auto simp: getNextTimer_state cong: tm_inv_cong)
next
  case (OpExpire now)
  with assms show ?thesis
    by (auto simp: obind_eq_Inr dest: listExpiredCb_cases(2))
next
  case (OpRollover now)
  with assms have "tm_objs m' = tm_objs m" "tm_timers m' = tm_timers m"
    by (auto simp: detectClockRollver_def)
  with assms(1) show ?thesis by (simp cong: tm_inv_cong)
qed

interpretation timers: invariant_system
  "\<lambda>m. \<exists>now. m = TimerManager_new now" tm_step tm_inv
  by unfold_locales (auto simp: tm_inv_new elim!: tm_stepE dest: tm_exec_inv)

text \<open>A small manager for the witnesses: two timers, due at 10 and 20, addresses 1 and 2.\<close>

definition two_timers :: "nat hps_TimerManager" where
  "two_timers =
     \<lparr>tm_objs = [1 \<mapsto> \<lparr>t_recurring = False, t_ms = 5, t_next = 10, t_cb = Some 100\<rparr>,
                2 \<mapsto> \<lparr>t_recurring = True, t_ms = 7, t_next = 20, t_cb = Some 200\<rparr>],
      tm_timers = [1, 2], tm_tickled = False, tm_previousTime = 0\<rparr>"

lemma two_timers_inv: "tm_inv two_timers"
  by (auto simp: tm_inv_def two_timers_def concordant_def armed_def next_of_def split: if_splits)

lemma two_timers_sel [simp]:
  "tm_objs two_timers (Suc 0) =
     Some \<lparr>t_recurring = False, t_ms = 5, t_next = 10, t_cb = Some 100\<rparr>"
  "tm_objs two_timers 2 = Some \<lparr>t_recurring = True, t_ms = 7, t_next = 20, t_cb = Some 200\<rparr>"
  "a \<noteq> Suc 0 \<Longrightarrow> a \<noteq> 2 \<Longrightarrow> tm_objs two_timers a = None"
  "tm_timers two_timers = [1, 2]"
  "tm_tickled two_timers = False"
  by (simp_all add: two_timers_def)

section \<open>Properties\<close>



text \<open>
  C31: On a set of timers the comparator is the intended order (by deadline, ties by
  address) exactly when no timer with an earlier deadline has a higher address; elsewhere it
  is a different relation.
\<close>

theorem comparator_is_deadline_order_iff: "orders_by_deadline h xs \<longleftrightarrow> concordant h xs"
proof
  assume "concordant h xs"
  then show "orders_by_deadline h xs"
    unfolding orders_by_deadline_def concordant_def timer_lt_iff key_of_less
    by (meson less_asym linorder_neqE)
next
  assume o: "orders_by_deadline h xs"
  show "concordant h xs"
    unfolding concordant_def
  proof (intro ballI impI)
    fix a b
    assume ab: "a \<in> set xs" "b \<in> set xs" "next_of h a < next_of h b"
    then have "\<not> timer_lt h b a"
      using o by (auto simp: orders_by_deadline_def)
    moreover have "a \<noteq> b" using ab(3) by auto
    ultimately show "a < b" by (auto simp: timer_lt_iff)
  qed
qed

text \<open>
  The comparator holds in both directions of a pair (which no ordering allows) exactly
  when the earlier deadline belongs to the higher address.
\<close>

lemma comparator_both_ways_iff:
  "timer_lt h a b \<and> timer_lt h b a \<longleftrightarrow>
     next_of h a < next_of h b \<and> b < a \<or> next_of h b < next_of h a \<and> a < b"
  by (auto simp: timer_lt_iff)

text \<open>
  Adding a timer is defined exactly when its deadline and its address compare the same
  way with those of every timer in the set; otherwise \<open>std::set\<close> is given a comparator that
  is no ordering.
\<close>

theorem addTimer_defined_iff:
  assumes "tm_inv m" and "tm_objs m a = None"
  shows "is_ok (addTimer a now ms (Some cb) rec m) \<longleftrightarrow>
    (\<forall>b \<in> set (tm_timers m).
       (next_of (tm_objs m) b < now + ms \<longrightarrow> b < a) \<and>
       (now + ms < next_of (tm_objs m) b \<longrightarrow> a < b))"
  using assms by (rule addTimer_ok_iff)

theorem addTimer_defined_iff_witness:
  "is_ok (addTimer 3 10 15 (Some 300) False two_timers) \<and>
   \<not> is_ok (addTimer 3 10 5 (Some 300) False two_timers)"
  using addTimer_defined_iff [OF two_timers_inv, of 3 10 15 300 False]
    addTimer_defined_iff [OF two_timers_inv, of 3 10 5 300 False]
  by (simp add: next_of_def)

text \<open>
  C24: A defined \<open>addTimer\<close> returns the new timer, adds it to the deadlines at \<open>now + ms\<close>
  (modulo \<open>2 ^ 64\<close>) and changes no other, keeps the invariant, and notifies exactly when the
  timer is the new first one and no notification is pending.
\<close>

theorem addTimer_refines_map_update:
  assumes "tm_inv m" and "tm_objs m a = None"
    and "addTimer a now ms (Some cb) rec m = Inr (p, front, m')"
  shows "p = a \<and> tm_inv m' \<and> deadlines m' = (deadlines m)(a \<mapsto> now + ms) \<and>
    (front \<longleftrightarrow> \<not> tm_tickled m \<and> (\<forall>b \<in> set (tm_timers m). a < b)) \<and>
    (tm_tickled m' \<longleftrightarrow> tm_tickled m \<or> front)"
  using addTimer_cases [OF assms] by blast

theorem addTimer_refines_map_update_witness:
  "\<exists>m'. addTimer 3 10 15 (Some 300) False two_timers = Inr (3, False, m') \<and>
    deadlines m' = (deadlines two_timers)(3 \<mapsto> 25) \<and> tm_inv m'"
proof -
  have "is_ok (addTimer 3 10 15 (Some 300) False two_timers)"
    using addTimer_ok_iff [OF two_timers_inv, of 3 10 15 300 False] by (simp add: next_of_def)
  then obtain p front m' where r: "addTimer 3 10 15 (Some 300) False two_timers = Inr (p, front, m')"
    by (auto simp: is_ok_iff)
  from addTimer_refines_map_update [OF two_timers_inv _ this] r show ?thesis by simp
qed

text \<open>
  \<open>getNextTimer\<close> returns \<open>~0ull\<close> without timers, and otherwise the time from \<open>now\<close> to
  the earliest deadline of all timers, 0 when it has passed; it clears the pending
  notification and changes nothing else.
\<close>

theorem getNextTimer_is_earliest:
  assumes "tm_inv m"
  shows "getNextTimer now m =
    (if tm_timers m = [] then u64_max
     else let d = Min (next_of (tm_objs m) ` set (tm_timers m)) in if d \<le> now then 0 else d - now,
     m\<lparr>tm_tickled := False\<rparr>)"
proof (cases "tm_timers m")
  case Nil
  then show ?thesis by (simp add: getNextTimer_def Let_def)
next
  case (Cons a rest)
  with head_is_earliest [OF assms Cons] show ?thesis by (simp add: getNextTimer_def Let_def)
qed

theorem getNextTimer_is_earliest_witness:
  "getNextTimer 4 two_timers = (6, two_timers) \<and> getNextTimer 12 two_timers = (0, two_timers)"
proof -
  have "two_timers\<lparr>tm_tickled := False\<rparr> = two_timers" by (simp add: two_timers_def)
  then show ?thesis
    using getNextTimer_is_earliest [OF two_timers_inv, of 4]
      getNextTimer_is_earliest [OF two_timers_inv, of 12]
    by (simp add: next_of_def Let_def)
qed

text \<open>
  C20: When no timer is overdue, a defined \<open>listExpiredCb\<close> appends the callbacks of exactly
  the timers due at \<open>now\<close>, in set order; it re-arms the recurring ones one interval later,
  removes the others, and leaves every other deadline alone.
\<close>

theorem listExpiredCb_fires_due:
  assumes "tm_inv m" and "\<forall>a \<in> set (tm_timers m). now \<le> next_of (tm_objs m) a"
    and "listExpiredCb now cbs m = Inr (cbs', m')"
  shows "cbs' = cbs @ map (cb_of m) (filter (\<lambda>a. next_of (tm_objs m) a = now) (tm_timers m)) \<and>
    tm_inv m' \<and>
    deadlines m' = (\<lambda>a. if deadlines m a = Some now
      then (if recurs m a then Some (now + interval m a) else None) else deadlines m a)"
  using listExpiredCb_cases [OF assms(1,3)] due_prefix [OF assms(1,2)]
  by (auto simp: deadlines_def fun_eq_iff)

theorem listExpiredCb_fires_due_witness:
  "\<exists>m'. listExpiredCb 10 [] two_timers = Inr ([Some 100], m') \<and> deadlines m' = [2 \<mapsto> 20]"
proof -
  obtain cbs' m' where r: "listExpiredCb 10 [] two_timers = Inr (cbs', m')"
    by (simp add: listExpiredCb_def expire_one_def next_of_def Let_def)
  from listExpiredCb_fires_due [OF two_timers_inv _ r] r show ?thesis
    by (force simp: next_of_def cb_of_def recurs_def deadlines_def fun_eq_iff)
qed

definition poll_all :: "u64 list \<Rightarrow> 'cb option list \<times> 'cb hps_TimerManager
    \<Rightarrow> ('cb option list \<times> 'cb hps_TimerManager) outcome" where
  "poll_all = ofold (\<lambda>now (cbs, m). listExpiredCb now cbs m)"

lemma overdue_blocks:
  assumes "tm_inv m" and "a \<in> set (tm_timers m)" and "next_of (tm_objs m) a < now"
  shows "listExpiredCb now cbs m = Inr (cbs, m)" and "fst (getNextTimer now m) = 0"
proof -
  obtain b rest where ts: "tm_timers m = b # rest"
    using assms(2) by (cases "tm_timers m") auto
  have "next_of (tm_objs m) b \<le> next_of (tm_objs m) a"
    using head_is_earliest [OF assms(1) ts] assms(2) by (simp only: Min_le finite_imageI finite_set imageI)
  with assms(3) have "next_of (tm_objs m) b < now" by simp
  then show "listExpiredCb now cbs m = Inr (cbs, m)" "fst (getNextTimer now m) = 0"
    by (auto simp: listExpiredCb_def getNextTimer_def ts Let_def)
qed

text \<open>
  C32: One timer whose deadline has passed stops the whole manager: at every later clock
  reading, \<open>listExpiredCb\<close> fires nothing and changes nothing, for any number of polls, while
  \<open>getNextTimer\<close> keeps answering 0 (due).
\<close>

theorem overdue_timer_starves:
  assumes "tm_inv m" and "a \<in> set (tm_timers m)"
    and "\<forall>now \<in> set clock. next_of (tm_objs m) a < now"
  shows "poll_all clock (cbs, m) = Inr (cbs, m) \<and>
    (\<forall>now \<in> set clock. fst (getNextTimer now m) = 0)"
  using assms(3)
proof (induction clock)
  case Nil
  then show ?case by (simp add: poll_all_def)
next
  case (Cons now clock)
  then show ?case
    using overdue_blocks(1) [OF assms(1,2), of now cbs] overdue_blocks(2) [OF assms(1,2), of now]
    by (simp add: poll_all_def)
qed

theorem overdue_timer_starves_witness:
  "poll_all [11, 19, 20, 21, 1000] ([], two_timers) = Inr ([], two_timers)"
proof -
  have "1 \<in> set (tm_timers two_timers)" by simp
  from overdue_timer_starves [OF two_timers_inv this, of "[11, 19, 20, 21, 1000]" "[]"]
  show ?thesis by (simp add: next_of_def)
qed

text \<open>
  \<open>cancel\<close> on a live timer always succeeds without undefined behaviour: it returns
  whether the timer was armed, and afterwards the timer is not armed, has left the
  deadlines, and nothing else has changed.
\<close>

theorem cancel_removes_timer:
  assumes "tm_inv m" and "tm_objs m a = Some t"
  shows "\<exists>m'. Timer_cancel a m = Inr (t_cb t \<noteq> None, m') \<and> tm_inv m' \<and>
    \<not> armed m' a \<and> deadlines m' = (deadlines m)(a := None)"
  using Timer_cancel_armed [OF assms] assms(2) by (auto simp: armed_def)

theorem cancel_removes_timer_witness:
  "\<exists>m'. Timer_cancel 1 two_timers = Inr (True, m') \<and> deadlines m' = [2 \<mapsto> 20]"
proof -
  have "tm_objs two_timers 1 = Some \<lparr>t_recurring = False, t_ms = 5, t_next = 10, t_cb = Some 100\<rparr>"
    by simp
  from cancel_removes_timer [OF two_timers_inv this]
  obtain m' where "Timer_cancel 1 two_timers = Inr (True, m')"
    and "deadlines m' = (deadlines two_timers)(1 := None)" by auto
  then show ?thesis by (auto simp: deadlines_def next_of_def fun_eq_iff)
qed

text \<open>
  A defined \<open>reset\<close> of an armed timer moves its deadline to \<open>ms\<close> after now, or after the
  start of its current interval, and nothing else; with the same interval and not
  \<open>from_now\<close> it does nothing and returns true, even on a cancelled timer.
\<close>

theorem reset_moves_deadline:
  assumes "tm_inv m" and "tm_objs m a = Some t"
    and "Timer_reset a now ms from_now m = Inr (r, front, m')"
  shows "tm_inv m' \<and>
    (if ms = t_ms t \<and> \<not> from_now then r \<and> m' = m
     else r = armed m a \<and>
       deadlines m' = (if armed m a
         then (deadlines m)(a \<mapsto> (if from_now then now else t_next t - t_ms t) + ms)
         else deadlines m))"
  using Timer_reset_cases [OF assms] assms(2,3)
  by (auto simp: reset_deadline_def Timer_reset_def)

theorem reset_moves_deadline_witness:
  "\<exists>m'. Timer_reset 2 12 30 True two_timers = Inr (True, False, m') \<and>
    deadlines m' = [1 \<mapsto> 10, 2 \<mapsto> 42]"
proof -
  note unfold = Timer_reset_def addTimer_locked_def std_find_def std_insert_def std_erase_def
    set_contract_timer concordant_def lower_bound_def timer_lt_iff next_of_def Let_def
  have "\<exists>m'. Timer_reset 2 12 30 True two_timers = Inr (True, False, m')"
    by (simp add: unfold)
  then obtain m' where r: "Timer_reset 2 12 30 True two_timers = Inr (True, False, m')" ..
  from reset_moves_deadline [OF two_timers_inv _ r]
  have "deadlines m' = (deadlines two_timers)(2 \<mapsto> 42)"
    by (simp add: armed_def)
  with r show ?thesis
    by (auto simp: deadlines_def next_of_def fun_eq_iff)
qed

fun is_next :: "'cb tm_op \<Rightarrow> bool" where
  "is_next (OpNext now) = True"
| "is_next _ = False"

fun tm_run :: "'cb tm_op list \<Rightarrow> 'cb hps_TimerManager \<Rightarrow> (nat \<times> 'cb hps_TimerManager) outcome" where
  "tm_run [] m = Inr (0, m)"
| "tm_run (op # ops) m =
     obind (tm_exec op m) (\<lambda>(n, m1).
     obind (tm_run ops m1) (\<lambda>(k, m2). Inr (k + (if n then 1 else 0), m2)))"

lemma addTimer_locked_tickled:
  "addTimer_locked a m = Inr (front, m') \<Longrightarrow>
     (front \<longrightarrow> \<not> tm_tickled m) \<and> (tm_tickled m' \<longleftrightarrow> tm_tickled m \<or> front)"
  by (auto simp: addTimer_locked_def Let_def obind_eq_Inr)

lemma listExpiredCb_tickled:
  assumes "listExpiredCb now cbs m = Inr (cbs', m')"
  shows "tm_tickled m' = tm_tickled m"
proof (cases "tm_timers m = []")
  case True
  with assms show ?thesis by (simp add: listExpiredCb_def)
next
  case False
  have one: "tm_tickled (snd s') = tm_tickled m"
    if "tm_tickled (snd s) = tm_tickled m" "expire_one now a s = Inr s'" for a s s'
    using that by (cases s) (auto simp: expire_one_def Let_def obind_eq_Inr split: if_splits)
  from assms False show ?thesis
    using ofold_invariant [where P = "\<lambda>s. tm_tickled (snd s) = tm_tickled m" and f = "expire_one now",
        OF _ _ one]
    by (fastforce simp: listExpiredCb_def Let_def)
qed

lemma tm_exec_tickled:
  assumes "tm_exec op m = Inr (n, m')" and "\<not> is_next op"
  shows "(n \<longrightarrow> \<not> tm_tickled m) \<and> (tm_tickled m' \<longleftrightarrow> tm_tickled m \<or> n)"
  using assms
  by (cases op)
    (auto simp: obind_eq_Inr addTimer_def Timer_cancel_def Timer_refresh_def Timer_reset_def
      detectClockRollver_def Let_def dest!: addTimer_locked_tickled listExpiredCb_tickled
      split: if_splits)

text \<open>
  Between two calls of \<open>getNextTimer\<close> the manager notifies
  \<open>onTimerInsertedAtFront\<close> at most once, and not at all while a notification is pending.
\<close>

theorem notified_at_most_once:
  assumes "tm_run ops m = Inr (k, m')" and "\<not> list_ex is_next ops"
  shows "k \<le> (if tm_tickled m then 0 else 1)"
proof -
  have "k \<le> (if tm_tickled m then 0 else 1) \<and> (tm_tickled m' \<longleftrightarrow> tm_tickled m \<or> k = 1)"
    using assms
  proof (induction ops arbitrary: m k)
    case Nil
    then show ?case by simp
  next
    case (Cons op ops)
    then obtain n m1 k' where 1: "tm_exec op m = Inr (n, m1)" "tm_run ops m1 = Inr (k', m')"
        "k = k' + (if n then 1 else 0)"
      by (auto simp: obind_eq_Inr)
    from Cons.prems(2) have "\<not> is_next op" "\<not> list_ex is_next ops" by simp_all
    from tm_exec_tickled [OF 1(1) this(1)] Cons.IH [OF 1(2) this(2)] 1(3)
    show ?case by (auto split: if_splits)
  qed
  then show ?thesis by simp
qed

theorem notified_at_most_once_witness:
  "\<exists>k m'. tm_run [OpAdd 1 0 10 1 False, OpCancel 1, OpAdd 2 0 5 2 False] (TimerManager_new 0)
      = Inr (k, m' :: nat hps_TimerManager) \<and> k \<le> 1"
proof -
  have "\<exists>k m'. tm_run [OpAdd 1 0 10 1 False, OpCancel 1, OpAdd 2 0 5 2 False]
      (TimerManager_new 0) = Inr (k, m' :: nat hps_TimerManager)"
    by (simp add: TimerManager_new_def addTimer_def addTimer_locked_def Timer_cancel_def
        std_insert_def std_find_def std_erase_def set_contract_timer concordant_def
        lower_bound_def timer_lt_iff Timer_new_def next_of_def Let_def)
  then obtain k m' where r: "tm_run [OpAdd 1 0 10 1 False, OpCancel 1, OpAdd 2 0 5 2 False]
      (TimerManager_new 0) = Inr (k, m' :: nat hps_TimerManager)"
    by blast
  from notified_at_most_once [OF r] r show ?thesis
    by (auto simp: TimerManager_new_def)
qed

text \<open>
  \<open>detectClockRollver\<close> reports a rollover exactly when the clock went back by more than
  an hour, provided the previous reading was at least an hour; below that the subtraction
  wraps around and any step back is reported.
\<close>

theorem detectClockRollver_iff:
  "fst (detectClockRollver now m) \<longleftrightarrow>
     (if 3600000 \<le> tm_previousTime m then unat now + 3600000 < unat (tm_previousTime m)
      else now < tm_previousTime m)"
proof (cases "3600000 \<le> tm_previousTime m")
  case True
  then have "unat (tm_previousTime m - 3600000) = unat (tm_previousTime m) - 3600000"
    by (simp add: unat_sub)
  moreover have "3600000 \<le> unat (tm_previousTime m)"
    using True by (simp add: word_le_nat_alt)
  ultimately show ?thesis
    using True by (auto simp: detectClockRollver_def word_less_nat_alt)
next
  case False
  then have "unat (tm_previousTime m - 3600000) = unat (tm_previousTime m) + 2 ^ 64 - 3600000"
    by (simp add: unat_sub_if' word_le_nat_alt)
  then have "now < tm_previousTime m \<Longrightarrow> now < tm_previousTime m - 3600000"
    by (simp add: word_less_nat_alt)
  with False show ?thesis by (auto simp: detectClockRollver_def)
qed

end
