(* ===== verification/Hps_Mutex.thy ===== *)
theory Hps_Mutex
  imports Hps_Prelude
begin

text \<open>
  hps_sf/mutex.h: the lock types and the scoped locks over them. A lock type is its state
  with an acquire operation (\<open>None\<close>: the caller would block) and a release operation; the
  pthread primitives behind them are modelled by their documented effect on that state. The
  scoped-lock templates are written once for any such pair, as the code's templates are, and
  the locale \<open>lockable\<close> is what they need from the lock type.
\<close>

section \<open>Lock types\<close>

text \<open>\<open>hps_Mutex\<close> and \<open>hps_Spinlock\<close>: held or not.\<close>

definition Mutex_lock :: "bool \<Rightarrow> bool option" where
  "Mutex_lock held = (if held then None else Some True)"

definition Mutex_unlock :: "bool \<Rightarrow> bool" where
  "Mutex_unlock held = False"

definition Spinlock_lock :: "bool \<Rightarrow> bool option" where
  "Spinlock_lock held = (if held then None else Some True)"

definition Spinlock_unlock :: "bool \<Rightarrow> bool" where
  "Spinlock_unlock held = False"

text \<open>\<open>hps_NullMutex\<close>: no effect.\<close>

definition NullMutex_lock :: "unit \<Rightarrow> unit option" where
  "NullMutex_lock u = Some u"

definition NullMutex_unlock :: "unit \<Rightarrow> unit" where
  "NullMutex_unlock u = u"

text \<open>\<open>hps_RWMutex\<close>: the number of readers and whether a writer holds it.\<close>

record rwlock =
  rw_readers :: nat
  rw_writer :: bool

definition RWMutex_rdlock :: "rwlock \<Rightarrow> rwlock option" where
  "RWMutex_rdlock l = (if rw_writer l then None else Some (l\<lparr>rw_readers := Suc (rw_readers l)\<rparr>))"

definition RWMutex_wrlock :: "rwlock \<Rightarrow> rwlock option" where
  "RWMutex_wrlock l =
     (if rw_writer l \<or> 0 < rw_readers l then None else Some (l\<lparr>rw_writer := True\<rparr>))"

definition RWMutex_unlock :: "rwlock \<Rightarrow> rwlock" where
  "RWMutex_unlock l =
     (if rw_writer l then l\<lparr>rw_writer := False\<rparr> else l\<lparr>rw_readers := rw_readers l - 1\<rparr>)"

text \<open>
  \<open>hps_CASLock\<close>: one round of \<open>while (test_and_set(flag));\<close> returns the old flag and sets it;
  the lock is taken by the round that reads \<open>false\<close>.
\<close>

definition test_and_set :: "bool \<Rightarrow> bool \<times> bool" where
  "test_and_set flag = (flag, True)"

definition CASLock_lock :: "bool \<Rightarrow> bool option" where
  "CASLock_lock flag = (case test_and_set flag of (old, new) \<Rightarrow> if old then None else Some new)"

definition CASLock_unlock :: "bool \<Rightarrow> bool" where
  "CASLock_unlock flag = False"

section \<open>Scoped locks\<close>

text \<open>
  The members of \<open>hps_ScopedLockImpl<T>\<close> over a mutex in state \<open>m\<close>: the first component of
  the state is \<open>m_locked\<close>. The constructor, \<open>lock()\<close> and \<open>unlock()\<close> in the order of the code;
  the destructor unlocks and clears the flag.
\<close>

definition ScopedLock_new :: "('m \<Rightarrow> 'm option) \<Rightarrow> 'm \<Rightarrow> (bool \<times> 'm) option" where
  "ScopedLock_new acq m = (case acq m of None \<Rightarrow> None | Some m' \<Rightarrow> Some (True, m'))"

definition ScopedLock_lock :: "('m \<Rightarrow> 'm option) \<Rightarrow> bool \<times> 'm \<Rightarrow> (bool \<times> 'm) option" where
  "ScopedLock_lock acq s = (case s of (locked, m) \<Rightarrow>
     if \<not> locked then (case acq m of None \<Rightarrow> None | Some m' \<Rightarrow> Some (True, m')) else Some (locked, m))"

definition ScopedLock_unlock :: "('m \<Rightarrow> 'm) \<Rightarrow> bool \<times> 'm \<Rightarrow> bool \<times> 'm" where
  "ScopedLock_unlock rel s = (case s of (locked, m) \<Rightarrow>
     if locked then (False, rel m) else (locked, m))"

definition ScopedLock_delete :: "('m \<Rightarrow> 'm) \<Rightarrow> bool \<times> 'm \<Rightarrow> bool \<times> 'm" where
  "ScopedLock_delete rel s = (case ScopedLock_unlock rel s of (locked, m) \<Rightarrow> (False, m))"

text \<open>The read and write variants call \<open>rdlock\<close> and \<open>wrlock\<close>.\<close>

definition ReadScopedLock_new :: "rwlock \<Rightarrow> (bool \<times> rwlock) option" where
  "ReadScopedLock_new = ScopedLock_new RWMutex_rdlock"

definition WriteScopedLock_new :: "rwlock \<Rightarrow> (bool \<times> rwlock) option" where
  "WriteScopedLock_new = ScopedLock_new RWMutex_wrlock"

text \<open>What the owner of a scoped lock does with it between construction and destruction.\<close>

datatype scoped_op = SLock | SUnlock

fun scoped_run ::
  "('m \<Rightarrow> 'm option) \<Rightarrow> ('m \<Rightarrow> 'm) \<Rightarrow> scoped_op list \<Rightarrow> bool \<times> 'm \<Rightarrow> (bool \<times> 'm) option" where
  "scoped_run acq rel [] s = Some s"
| "scoped_run acq rel (SLock # ops) s =
     (case ScopedLock_lock acq s of None \<Rightarrow> None | Some s' \<Rightarrow> scoped_run acq rel ops s')"
| "scoped_run acq rel (SUnlock # ops) s = scoped_run acq rel ops (ScopedLock_unlock rel s)"

definition scoped_life ::
  "('m \<Rightarrow> 'm option) \<Rightarrow> ('m \<Rightarrow> 'm) \<Rightarrow> scoped_op list \<Rightarrow> 'm \<Rightarrow> 'm option" where
  "scoped_life acq rel ops m =
     (case ScopedLock_new acq m of
        None \<Rightarrow> None
      | Some s \<Rightarrow> (case scoped_run acq rel ops s of
                    None \<Rightarrow> None
                  | Some s' \<Rightarrow> Some (snd (ScopedLock_delete rel s'))))"

section \<open>The interface\<close>

locale lockable =
  fixes acq :: "'m \<Rightarrow> 'm option" and rel :: "'m \<Rightarrow> 'm"
  assumes release_acquired: "acq m = Some m' \<Longrightarrow> rel m' = m"
begin

lemma run_tracks_flag:
  assumes "acq m = Some m'"
    and "s = (locked, if locked then m' else m)"
  shows "\<exists>b. scoped_run acq rel ops s = Some (b, if b then m' else m)"
  using assms(2)
proof (induction ops arbitrary: s locked)
  case Nil
  then show ?case by auto
next
  case (Cons op ops)
  show ?case
  proof (cases op)
    case SLock
    have "ScopedLock_lock acq s = Some (True, m')"
      using Cons.prems assms(1) by (auto simp: ScopedLock_lock_def)
    with Cons.IH [of "(True, m')" True] SLock show ?thesis by simp
  next
    case SUnlock
    have "ScopedLock_unlock rel s = (False, m)"
      using Cons.prems release_acquired [OF assms(1)] by (auto simp: ScopedLock_unlock_def)
    with Cons.IH [of "(False, m)" False] SUnlock show ?thesis by simp
  qed
qed

lemma life_restores:
  assumes "acq m = Some m'"
  shows "scoped_life acq rel ops m = Some m"
proof -
  obtain b where "scoped_run acq rel ops (True, m') = Some (b, if b then m' else m)"
    using run_tracks_flag [OF assms, of "(True, m')" True ops] by auto
  then show ?thesis
    using assms release_acquired [OF assms]
    by (auto simp: scoped_life_def ScopedLock_new_def ScopedLock_delete_def ScopedLock_unlock_def)
qed

lemma life_blocks: "acq m = None \<Longrightarrow> scoped_life acq rel ops m = None"
  by (simp add: scoped_life_def ScopedLock_new_def)

end

interpretation mutex_lock: lockable Mutex_lock Mutex_unlock
  by unfold_locales (auto simp: Mutex_lock_def Mutex_unlock_def split: if_splits)

interpretation spin_lock: lockable Spinlock_lock Spinlock_unlock
  by unfold_locales (auto simp: Spinlock_lock_def Spinlock_unlock_def split: if_splits)

interpretation null_lock: lockable NullMutex_lock NullMutex_unlock
  by unfold_locales simp

interpretation cas_lock: lockable CASLock_lock CASLock_unlock
  by unfold_locales (auto simp: CASLock_lock_def CASLock_unlock_def test_and_set_def split: if_splits)

interpretation read_lock: lockable RWMutex_rdlock RWMutex_unlock
  by unfold_locales (auto simp: RWMutex_rdlock_def RWMutex_unlock_def split: if_splits)

interpretation write_lock: lockable RWMutex_wrlock RWMutex_unlock
  by unfold_locales (auto simp: RWMutex_wrlock_def RWMutex_unlock_def split: if_splits)

section \<open>Threads spinning on a CAS lock\<close>

record cas_sys =
  cas_flag :: bool
  cas_inside :: "nat set"

inductive cas_step :: "cas_sys \<Rightarrow> cas_sys \<Rightarrow> bool" where
  spin: "t \<notin> cas_inside s \<Longrightarrow> CASLock_lock (cas_flag s) = None \<Longrightarrow> cas_step s s"
| enter: "t \<notin> cas_inside s \<Longrightarrow> CASLock_lock (cas_flag s) = Some f \<Longrightarrow>
    cas_step s (s\<lparr>cas_flag := f, cas_inside := insert t (cas_inside s)\<rparr>)"
| leave: "t \<in> cas_inside s \<Longrightarrow>
    cas_step s (s\<lparr>cas_flag := CASLock_unlock (cas_flag s), cas_inside := cas_inside s - {t}\<rparr>)"

definition cas_start :: cas_sys where
  "cas_start = \<lparr>cas_flag = False, cas_inside = {}\<rparr>"

definition cas_inv :: "cas_sys \<Rightarrow> bool" where
  "cas_inv s \<longleftrightarrow> (if cas_flag s then \<exists>t. cas_inside s = {t} else cas_inside s = {})"

lemma cas_step_inv: "cas_inv s \<Longrightarrow> cas_step s s' \<Longrightarrow> cas_inv s'"
  by (erule cas_step.cases)
    (auto simp: cas_inv_def CASLock_lock_def CASLock_unlock_def test_and_set_def split: if_splits)

interpretation cas: invariant_system "\<lambda>s. s = cas_start" cas_step cas_inv
  by unfold_locales (simp add: cas_inv_def cas_start_def, rule cas_step_inv)

section \<open>Properties\<close>

text \<open>
  A scoped lock gives back exactly what it took: whatever sequence of \<open>lock()\<close> and
  \<open>unlock()\<close> calls its owner makes, once the constructor got the lock nothing blocks, and
  after the destructor the read-write mutex is in the state it had before the constructor.
\<close>

theorem scoped_locks_restore_rwmutex:
  assumes "ReadScopedLock_new l \<noteq> None"
  shows "scoped_life RWMutex_rdlock RWMutex_unlock ops l = Some l"
  using assms
  by (auto simp: ReadScopedLock_new_def ScopedLock_new_def split: option.splits
      intro: read_lock.life_restores)

theorem scoped_locks_restore_rwmutex_witness:
  "scoped_life RWMutex_rdlock RWMutex_unlock [SUnlock, SUnlock, SLock] \<lparr>rw_readers = 2, rw_writer = False\<rparr>
     = Some \<lparr>rw_readers = 2, rw_writer = False\<rparr>"
  by (rule scoped_locks_restore_rwmutex) (simp add: ReadScopedLock_new_def ScopedLock_new_def RWMutex_rdlock_def)

text \<open>
  Of any number of threads that spin on a CAS lock, at most one is inside at any time,
  in every reachable state.
\<close>

theorem cas_lock_mutual_exclusion:
  assumes "cas_step\<^sup>*\<^sup>* cas_start s" and "t \<in> cas_inside s" and "u \<in> cas_inside s"
  shows "t = u"
  using cas.reachable_inv [OF refl assms(1)] assms(2,3)
  by (auto simp: cas_inv_def split: if_splits)

theorem cas_lock_mutual_exclusion_witness:
  "\<exists>s. cas_step\<^sup>*\<^sup>* cas_start s \<and> 5 \<in> cas_inside s \<and> (\<forall>u \<in> cas_inside s. 5 = u)"
proof -
  let ?s = "cas_start\<lparr>cas_flag := True, cas_inside := {5}\<rparr>"
  have "cas_step cas_start (cas_start\<lparr>cas_flag := True, cas_inside := insert 5 (cas_inside cas_start)\<rparr>)"
    by (rule cas_step.enter) (simp_all add: cas_start_def CASLock_lock_def test_and_set_def)
  then have run: "cas_step\<^sup>*\<^sup>* cas_start ?s" by (simp add: cas_start_def r_into_rtranclp)
  then show ?thesis
    using cas_lock_mutual_exclusion [OF run, of 5] by (intro exI [of _ ?s]) simp
qed

end
