(* ===== verification/Hps_Thread.thy ===== *)
theory Hps_Thread
  imports Hps_Prelude
begin

text \<open>
  hps_sf/thread.h, hps_sf/thread.cpp and the semaphore of hps_sf/mutex.h: the start-up
  handshake between the constructor of \<open>hps_Thread\<close> and \<open>hps_Thread::run\<close> on the new thread,
  and \<open>join\<close>, the destructor and \<open>SetName\<close>. The handshake is a step relation: the two threads
  advance one statement at a time, in any order.
\<close>

section \<open>The semaphore\<close>

text \<open>The count a default-constructed \<open>hps_Semaphore\<close> starts with (\<open>uint32_t count = 1\<close>).\<close>

definition Semaphore_default :: nat where
  "Semaphore_default = 1"

definition Semaphore_wait :: "nat \<Rightarrow> nat option" where
  "Semaphore_wait n = (if n = 0 then None else Some (n - 1))"

definition Semaphore_notify :: "nat \<Rightarrow> nat" where
  "Semaphore_notify n = Suc n"

section \<open>The thread object and its handshake\<close>

text \<open>Where the constructor is: before \<open>pthread_create\<close>, at \<open>m_semaphore.wait()\<close>, returned.\<close>

datatype ctor_pc = CCreate | CWait | CReturned

text \<open>The statements of \<open>hps_Thread::run\<close>, in order.\<close>

datatype run_pc = RNone | RThis | RName | RId | RSetname | RSwap | RNotify | RCall | RDone

record thread_sys =
  th_ctor :: ctor_pc
  th_run :: run_pc
  th_sem :: nat
  th_m_id :: int
  th_m_name :: string
  th_m_cb :: bool
  th_t_thread :: bool
  th_t_name :: string
  th_calls :: nat

definition Thread_new :: "nat \<Rightarrow> string \<Rightarrow> thread_sys" where
  "Thread_new count name =
     \<lparr>th_ctor = CCreate, th_run = RNone, th_sem = count, th_m_id = -1,
      th_m_name = (if name = [] then ''UNKNOW'' else name), th_m_cb = True,
      th_t_thread = False, th_t_name = ''UNKNOW'', th_calls = 0\<rparr>"

text \<open>The constructor's next statement. \<open>None\<close>: it waits, or has returned.\<close>

definition Thread_ctor_step :: "thread_sys \<Rightarrow> thread_sys option" where
  "Thread_ctor_step s =
     (case th_ctor s of
        CCreate \<Rightarrow> Some (s\<lparr>th_ctor := CWait, th_run := RThis\<rparr>)
      | CWait \<Rightarrow> (case Semaphore_wait (th_sem s) of
                   None \<Rightarrow> None
                 | Some n \<Rightarrow> Some (s\<lparr>th_ctor := CReturned, th_sem := n\<rparr>))
      | CReturned \<Rightarrow> None)"

text \<open>The next statement of \<open>run\<close> on the thread whose kernel id is \<open>tid\<close>.\<close>

definition Thread_run_step :: "int \<Rightarrow> thread_sys \<Rightarrow> thread_sys option" where
  "Thread_run_step tid s =
     (case th_run s of
        RNone \<Rightarrow> None
      | RThis \<Rightarrow> Some (s\<lparr>th_t_thread := True, th_run := RName\<rparr>)
      | RName \<Rightarrow> Some (s\<lparr>th_t_name := th_m_name s, th_run := RId\<rparr>)
      | RId \<Rightarrow> Some (s\<lparr>th_m_id := tid, th_run := RSetname\<rparr>)
      | RSetname \<Rightarrow> Some (s\<lparr>th_run := RSwap\<rparr>)
      | RSwap \<Rightarrow> Some (s\<lparr>th_m_cb := False, th_run := RNotify\<rparr>)
      | RNotify \<Rightarrow> Some (s\<lparr>th_sem := Semaphore_notify (th_sem s), th_run := RCall\<rparr>)
      | RCall \<Rightarrow> Some (s\<lparr>th_calls := Suc (th_calls s), th_run := RDone\<rparr>)
      | RDone \<Rightarrow> None)"

inductive thread_step :: "int \<Rightarrow> thread_sys \<Rightarrow> thread_sys \<Rightarrow> bool" for tid where
  ctor: "Thread_ctor_step s = Some s' \<Longrightarrow> thread_step tid s s'"
| run: "Thread_run_step tid s = Some s' \<Longrightarrow> thread_step tid s s'"

inductive_cases thread_stepE: "thread_step tid s s'"

text \<open>What holds whatever count the semaphore starts with.\<close>

definition past_id :: "run_pc \<Rightarrow> bool" where
  "past_id pc \<longleftrightarrow> pc \<in> {RSetname, RSwap, RNotify, RCall, RDone}"

definition thread_inv :: "nat \<Rightarrow> int \<Rightarrow> thread_sys \<Rightarrow> bool" where
  "thread_inv count tid s \<longleftrightarrow>
     (th_ctor s = CCreate \<longleftrightarrow> th_run s = RNone) \<and>
     th_m_id s = (if past_id (th_run s) then tid else -1) \<and>
     th_sem s + (if th_ctor s = CReturned then 1 else 0) =
       count + (if th_run s \<in> {RCall, RDone} then 1 else 0) \<and>
     th_calls s = (if th_run s = RDone then 1 else 0)"

lemma thread_ctor_step_inv:
  "thread_inv count tid s \<Longrightarrow> Thread_ctor_step s = Some s' \<Longrightarrow> thread_inv count tid s'"
  by (cases "th_ctor s")
    (auto simp: thread_inv_def past_id_def Thread_ctor_step_def Semaphore_wait_def split: if_splits)

lemma thread_run_step_inv:
  "thread_inv count tid s \<Longrightarrow> Thread_run_step tid s = Some s' \<Longrightarrow> thread_inv count tid s'"
  by (cases "th_run s")
    (auto simp: thread_inv_def past_id_def Thread_run_step_def Semaphore_notify_def)

interpretation handshake: invariant_system
  "\<lambda>s. \<exists>name. s = Thread_new count name" "thread_step tid" "thread_inv count tid" for count tid
proof
  show "thread_inv count tid s" if "\<exists>name. s = Thread_new count name" for s
    using that by (auto simp: thread_inv_def past_id_def Thread_new_def)
  show "thread_inv count tid s'" if "thread_inv count tid s" "thread_step tid s s'" for s s'
    using that(2,1) by (elim thread_stepE) (auto intro: thread_ctor_step_inv thread_run_step_inv)
qed

section \<open>join, the destructor and the name\<close>

datatype pthread_call = PJoin nat | PDetach nat

text \<open>\<open>m_thread\<close> (0: none) and the pthread calls made; \<open>rt\<close> is what \<open>pthread_join\<close> returns.\<close>

definition Thread_join :: "int \<Rightarrow> nat \<times> pthread_call list \<Rightarrow> (nat \<times> pthread_call list) outcome" where
  "Thread_join rt s = (case s of (m_thread, calls) \<Rightarrow>
     if m_thread \<noteq> 0 then
       (if rt \<noteq> 0 then Inl (Thrown ''pthread_join error'')
        else Inr (0, calls @ [PJoin m_thread]))
     else Inr (m_thread, calls))"

definition Thread_delete :: "nat \<times> pthread_call list \<Rightarrow> nat \<times> pthread_call list" where
  "Thread_delete s = (case s of (m_thread, calls) \<Rightarrow>
     if m_thread \<noteq> 0 then (m_thread, calls @ [PDetach m_thread]) else s)"

text \<open>\<open>SetName\<close>: the object's name (of \<open>t_thread\<close>, if any) and the thread-local name.\<close>

definition Thread_SetName :: "string \<Rightarrow> string option \<times> string \<Rightarrow> string option \<times> string" where
  "Thread_SetName name s = (case s of (obj_name, t_name) \<Rightarrow>
     if name = [] then s
     else (case obj_name of None \<Rightarrow> None | Some _ \<Rightarrow> Some name, name))"

section \<open>Properties\<close>

text \<open>
  With a semaphore that starts at 0, the constructor returns only after the new thread
  has recorded its kernel id; in every reachable state of any interleaving.
\<close>

theorem handshake_with_zero_count:
  assumes "(thread_step tid)\<^sup>*\<^sup>* (Thread_new 0 name) s" and "th_ctor s = CReturned"
  shows "th_m_id s = tid \<and> th_run s \<in> {RCall, RDone}"
proof -
  have "thread_inv 0 tid s"
    using handshake.reachable_inv assms(1) by blast
  with assms(2) show ?thesis
    by (auto simp: thread_inv_def past_id_def split: if_splits)
qed

primrec thread_runs :: "nat \<Rightarrow> int \<Rightarrow> thread_sys \<Rightarrow> thread_sys option" where
  "thread_runs 0 tid s = Some s"
| "thread_runs (Suc n) tid s =
     (case Thread_run_step tid s of None \<Rightarrow> None | Some s' \<Rightarrow> thread_runs n tid s')"

lemma thread_runs_steps: "thread_runs n tid s = Some t \<Longrightarrow> (thread_step tid)\<^sup>*\<^sup>* s t"
  by (induction n arbitrary: s)
    (auto split: option.splits intro: converse_rtranclp_into_rtranclp thread_step.run)

theorem handshake_with_zero_count_witness:
  "\<exists>s. (thread_step 42)\<^sup>*\<^sup>* (Thread_new 0 ''w'') s \<and> th_ctor s = CReturned \<and> th_m_id s = 42"
proof -
  let ?s1 = "(Thread_new 0 ''w'')\<lparr>th_ctor := CWait, th_run := RThis\<rparr>"
  let ?s2 = "?s1\<lparr>th_t_thread := True, th_t_name := th_m_name ?s1, th_m_id := 42, th_m_cb := False,
       th_sem := Suc (th_sem ?s1), th_run := RCall\<rparr>"
  let ?s3 = "?s2\<lparr>th_ctor := CReturned, th_sem := 0\<rparr>"
  have "thread_step 42 (Thread_new 0 ''w'') ?s1"
    by (rule thread_step.ctor) (simp add: Thread_ctor_step_def Thread_new_def)
  moreover have "(thread_step 42)\<^sup>*\<^sup>* ?s1 ?s2"
    by (rule thread_runs_steps [of 6])
      (simp add: numeral_eq_Suc Thread_run_step_def Thread_new_def Semaphore_notify_def)
  moreover have "thread_step 42 ?s2 ?s3"
    by (rule thread_step.ctor) (simp add: Thread_ctor_step_def Semaphore_wait_def Thread_new_def)
  ultimately have run: "(thread_step 42)\<^sup>*\<^sup>* (Thread_new 0 ''w'') ?s3"
    by (meson converse_rtranclp_into_rtranclp rtranclp.rtrancl_into_rtrancl)
  with handshake_with_zero_count [OF run] show ?thesis by (intro exI [of _ ?s3]) simp
qed

text \<open>
  With the count the code's semaphore really starts with, the constructor can return
  before the new thread has executed a statement: the id that \<open>hps_Scheduler::start\<close> then
  reads and stores is -1.
\<close>

theorem constructor_may_return_before_thread_runs:
  "\<exists>s. (thread_step tid)\<^sup>*\<^sup>* (Thread_new Semaphore_default name) s \<and>
     th_ctor s = CReturned \<and> th_run s = RThis \<and> th_m_id s = -1"
proof -
  let ?s0 = "Thread_new Semaphore_default name"
  let ?s1 = "?s0\<lparr>th_ctor := CWait, th_run := RThis\<rparr>"
  let ?s2 = "?s1\<lparr>th_ctor := CReturned, th_sem := 0\<rparr>"
  have "thread_step tid ?s0 ?s1"
    by (rule thread_step.ctor) (simp add: Thread_ctor_step_def Thread_new_def)
  moreover have "thread_step tid ?s1 ?s2"
    by (rule thread_step.ctor)
      (simp add: Thread_ctor_step_def Semaphore_wait_def Semaphore_default_def Thread_new_def)
  ultimately have "(thread_step tid)\<^sup>*\<^sup>* ?s0 ?s2" by simp
  then show ?thesis by (intro exI [of _ ?s2]) (simp add: Thread_new_def)
qed

end
