(* ===== verification/Hps_Fiber.thy ===== *)
theory Hps_Fiber
  imports Hps_Prelude
begin

text \<open>
  hps_sf/fiber.h and hps_sf/fiber.cpp: fibers over \<open>ucontext\<close>. Fiber objects live on a heap
  (\<open>fw_objs\<close>, by address) shared by all threads; each thread has its thread-local pointers.
  A saved context is modelled by where its execution continues (\<open>cont\<close>); \<open>fw_running\<close> says
  whose context executes on a thread. What a fiber's callback does between two switches is
  the caller's choice of the next operation, so a run of a thread is a sequence of the
  operations below.
\<close>

section \<open>Data\<close>

datatype State = INIT | HOLD | EXEC | TERM' | READY | EXCEPT

text \<open>The function \<open>makecontext\<close> was given.\<close>

datatype entry = EMainFunc | ECallerMainFunc

text \<open>
  Where a saved context continues: at the start of its entry function, after the
  \<open>swapcontext\<close> it was suspended in (inside ordinary code), or after the last switch of its
  entry function, where \<open>HPS_ASSERT2(false, ...)\<close> stands. \<open>Running\<close>: nothing is saved, the
  context is executing (or has never been left).
\<close>

datatype cont = AtEntry entry | InCode | AtNeverReach | Running

record 'cb hps_Fiber =
  f_id :: u64
  f_stacksize :: u32
  f_state :: State
  f_ctx :: cont
  f_stack :: bool
  f_cb :: "'cb option"

record tls =
  t_fiber :: "nat option"
  t_threadFiber :: "nat option"
  t_scheduler_fiber :: "nat option"

record 'cb fiber_world =
  fw_objs :: "nat \<Rightarrow> 'cb hps_Fiber option"
  fw_fiber_id :: u64
  fw_fiber_count :: u64
  fw_tls :: "int \<Rightarrow> tls"
  fw_running :: "int \<Rightarrow> nat option"

definition fiber_world_init :: "'cb fiber_world" where
  "fiber_world_init =
     \<lparr>fw_objs = Map.empty, fw_fiber_id = 0, fw_fiber_count = 0,
      fw_tls = (\<lambda>_. \<lparr>t_fiber = None, t_threadFiber = None, t_scheduler_fiber = None\<rparr>),
      fw_running = (\<lambda>_. None)\<rparr>"

definition upd_fiber :: "nat \<Rightarrow> ('cb hps_Fiber \<Rightarrow> 'cb hps_Fiber) \<Rightarrow> 'cb fiber_world \<Rightarrow> 'cb fiber_world"
where
  "upd_fiber a g w = w\<lparr>fw_objs := (fw_objs w)(a := map_option g (fw_objs w a))\<rparr>"

definition upd_tls :: "int \<Rightarrow> (tls \<Rightarrow> tls) \<Rightarrow> 'cb fiber_world \<Rightarrow> 'cb fiber_world" where
  "upd_tls tid g w = w\<lparr>fw_tls := (fw_tls w)(tid := g (fw_tls w tid))\<rparr>"

section \<open>Thread-local access\<close>

definition SetThis :: "int \<Rightarrow> nat option \<Rightarrow> 'cb fiber_world \<Rightarrow> 'cb fiber_world" where
  "SetThis tid f w = upd_tls tid (\<lambda>t. t\<lparr>t_fiber := f\<rparr>) w"

definition GetMainFiber :: "int \<Rightarrow> 'cb fiber_world \<Rightarrow> nat option" where
  "GetMainFiber tid w = t_scheduler_fiber (fw_tls w tid)"

definition GetFiberId :: "int \<Rightarrow> 'cb fiber_world \<Rightarrow> u64" where
  "GetFiberId tid w =
     (case t_fiber (fw_tls w tid) of
        None \<Rightarrow> 0
      | Some a \<Rightarrow> (case fw_objs w a of None \<Rightarrow> 0 | Some f \<Rightarrow> f_id f))"

definition TotalFibel :: "'cb fiber_world \<Rightarrow> u64" where
  "TotalFibel w = fw_fiber_count w"

section \<open>Construction, reset, destruction\<close>

text \<open>The private constructor: the fiber of the code that is already running on the thread.\<close>

definition Fiber_main_new :: "int \<Rightarrow> nat \<Rightarrow> 'cb fiber_world \<Rightarrow> 'cb fiber_world" where
  "Fiber_main_new tid a w =
     (let w1 = w\<lparr>fw_objs := (fw_objs w)(a \<mapsto>
                   \<lparr>f_id = 0, f_stacksize = 0, f_state = EXEC, f_ctx = Running,
                    f_stack = False, f_cb = None\<rparr>),
                 fw_running := (fw_running w)(tid := Some a)\<rparr>;
          w2 = SetThis tid (Some a) w1
      in w2\<lparr>fw_fiber_count := fw_fiber_count w2 + 1\<rparr>)"

text \<open>
  The public constructor. \<open>a\<close> is the address of the new object, \<open>cfg\<close> the value of the
  configuration variable \<open>fiber.stack_size\<close>; the stack size is truncated to 32 bits.
\<close>

definition Fiber_new ::
  "nat \<Rightarrow> 'cb option \<Rightarrow> u64 \<Rightarrow> bool \<Rightarrow> u32 \<Rightarrow> 'cb fiber_world \<Rightarrow> 'cb fiber_world" where
  "Fiber_new a cb statcksize use_caller cfg w =
     w\<lparr>fw_fiber_id := fw_fiber_id w + 1,
       fw_fiber_count := fw_fiber_count w + 1,
       fw_objs := (fw_objs w)(a \<mapsto>
         \<lparr>f_id = fw_fiber_id w + 1,
          f_stacksize = ucast (if statcksize \<noteq> 0 then statcksize else ucast cfg),
          f_state = INIT,
          f_ctx = AtEntry (if \<not> use_caller then EMainFunc else ECallerMainFunc),
          f_stack = True, f_cb = cb\<rparr>)\<rparr>"

definition finished_or_new :: "State \<Rightarrow> bool" where
  "finished_or_new s \<longleftrightarrow> s = TERM' \<or> s = INIT \<or> s = EXCEPT"

text \<open>\<open>~hps_Fiber\<close> on thread \<open>tid\<close>.\<close>

definition Fiber_delete :: "int \<Rightarrow> nat \<Rightarrow> 'cb fiber_world \<Rightarrow> 'cb fiber_world outcome" where
  "Fiber_delete tid a w =
     obind (deref (fw_objs w a) ''fiber'') (\<lambda>f.
       let w1 = w\<lparr>fw_fiber_count := fw_fiber_count w - 1\<rparr>;
           gone = (\<lambda>w. w\<lparr>fw_objs := (fw_objs w)(a := None)\<rparr>) in
       if f_stack f then
         HPS_ASSERT (finished_or_new (f_state f)) ''m_state == TERM || INIT || EXCEPT''
           (Inr (gone w1))
       else
         HPS_ASSERT (f_cb f = None) ''!m_cb''
        (HPS_ASSERT (f_state f = EXEC) ''m_state == EXEC''
           (Inr (gone (if t_fiber (fw_tls w1 tid) = Some a then SetThis tid None w1 else w1)))))"

definition Fiber_reset :: "nat \<Rightarrow> 'cb option \<Rightarrow> 'cb fiber_world \<Rightarrow> 'cb fiber_world outcome" where
  "Fiber_reset a cb w =
     obind (deref (fw_objs w a) ''fiber'') (\<lambda>f.
       HPS_ASSERT (f_stack f) ''m_stack''
      (HPS_ASSERT (finished_or_new (f_state f)) ''m_state == TERM || INIT || EXCEPT''
         (Inr (upd_fiber a (\<lambda>f. f\<lparr>f_cb := cb, f_ctx := AtEntry EMainFunc, f_state := INIT\<rparr>) w))))"

text \<open>\<open>GetThis\<close>: \<open>a\<close> is the address for the main fiber, created on the first call of a thread.\<close>

definition GetThis :: "int \<Rightarrow> nat \<Rightarrow> 'cb fiber_world \<Rightarrow> (nat \<times> 'cb fiber_world) outcome" where
  "GetThis tid a w =
     (case t_fiber (fw_tls w tid) of
        Some f \<Rightarrow> obind (deref (fw_objs w f) ''t_fiber'') (\<lambda>_. Inr (f, w))
      | None \<Rightarrow>
          let w1 = Fiber_main_new tid a w in
          HPS_ASSERT (t_fiber (fw_tls w1 tid) = Some a) ''t_fiber == main_fiber.get()''
            (Inr (a, upd_tls tid (\<lambda>t. t\<lparr>t_threadFiber := Some a\<rparr>) w1)))"

section \<open>Switching\<close>

text \<open>
  \<open>swapcontext(&from, &to)\<close>: the running code is saved into \<open>from\<close>, to continue at \<open>k\<close>, and
  \<open>to\<close> is continued. A context that ended its entry function continues at the
  \<open>HPS_ASSERT2(false, ...)\<close> and aborts; continuing a context that is not saved is undefined.
\<close>

definition swapcontext ::
  "int \<Rightarrow> nat \<Rightarrow> nat \<Rightarrow> cont \<Rightarrow> 'cb fiber_world \<Rightarrow> 'cb fiber_world outcome" where
  "swapcontext tid from to k w =
     obind (deref (fw_objs w from) ''swapcontext: from'') (\<lambda>_.
     let w1 = upd_fiber from (\<lambda>f. f\<lparr>f_ctx := k\<rparr>) w in
     obind (deref (fw_objs w1 to) ''swapcontext: to'') (\<lambda>t.
       case f_ctx t of
         Running \<Rightarrow> Inl (Undefined ''swapcontext: context is not saved'')
       | AtNeverReach \<Rightarrow> Inl (AssertFail ''never reach'')
       | _ \<Rightarrow> Inr ((upd_fiber to (\<lambda>f. f\<lparr>f_ctx := Running\<rparr>) w1)
                    \<lparr>fw_running := (fw_running w)(tid := Some to)\<rparr>)))"

definition swapIn :: "int \<Rightarrow> nat \<Rightarrow> 'cb fiber_world \<Rightarrow> 'cb fiber_world outcome" where
  "swapIn tid a w =
     (let w1 = SetThis tid (Some a) w in
      obind (deref (fw_objs w1 a) ''this'') (\<lambda>f.
      HPS_ASSERT (f_state f \<noteq> EXEC) ''m_state != EXEC''
        (let w2 = upd_fiber a (\<lambda>f. f\<lparr>f_state := EXEC\<rparr>) w1 in
         obind (deref (GetMainFiber tid w2) ''GetMainFiber()'') (\<lambda>main.
           swapcontext tid main a InCode w2))))"

definition swapOut :: "int \<Rightarrow> nat \<Rightarrow> cont \<Rightarrow> 'cb fiber_world \<Rightarrow> 'cb fiber_world outcome" where
  "swapOut tid a k w =
     (let w1 = SetThis tid (GetMainFiber tid w) w in
      obind (deref (GetMainFiber tid w1) ''GetMainFiber()'') (\<lambda>main.
        swapcontext tid a main k w1))"

definition Fiber_call :: "int \<Rightarrow> nat \<Rightarrow> 'cb fiber_world \<Rightarrow> 'cb fiber_world outcome" where
  "Fiber_call tid a w =
     (let w1 = SetThis tid (Some a) w in
      obind (deref (fw_objs w1 a) ''this'') (\<lambda>_.
        let w2 = upd_fiber a (\<lambda>f. f\<lparr>f_state := EXEC\<rparr>) w1 in
        obind (deref (t_threadFiber (fw_tls w2 tid)) ''t_threadFiber'') (\<lambda>thr.
          swapcontext tid thr a InCode w2)))"

definition Fiber_back :: "int \<Rightarrow> nat \<Rightarrow> cont \<Rightarrow> 'cb fiber_world \<Rightarrow> 'cb fiber_world outcome" where
  "Fiber_back tid a k w =
     (let w1 = SetThis tid (t_threadFiber (fw_tls w tid)) w in
      obind (deref (t_threadFiber (fw_tls w1 tid)) ''t_threadFiber'') (\<lambda>thr.
        swapcontext tid a thr k w1))"

definition YieldTo :: "State \<Rightarrow> int \<Rightarrow> nat \<Rightarrow> 'cb fiber_world \<Rightarrow> 'cb fiber_world outcome" where
  "YieldTo st tid a w =
     obind (GetThis tid a w) (\<lambda>(cur, w1).
       swapOut tid cur InCode (upd_fiber cur (\<lambda>f. f\<lparr>f_state := st\<rparr>) w1))"

definition YieldToReady :: "int \<Rightarrow> nat \<Rightarrow> 'cb fiber_world \<Rightarrow> 'cb fiber_world outcome" where
  "YieldToReady = YieldTo READY"

definition YieldToHold :: "int \<Rightarrow> nat \<Rightarrow> 'cb fiber_world \<Rightarrow> 'cb fiber_world outcome" where
  "YieldToHold = YieldTo HOLD"

section \<open>The entry functions\<close>

text \<open>How the call of \<open>m_cb\<close> ends; an empty \<open>m_cb\<close> throws \<open>std::bad_function_call\<close>.\<close>

datatype cb_end = Returned | ThrewStd | ThrewOther

definition after_cb :: "cb_end \<Rightarrow> 'cb hps_Fiber \<Rightarrow> 'cb hps_Fiber" where
  "after_cb e f =
     (if f_cb f = None then f\<lparr>f_state := EXCEPT\<rparr>
      else case e of
        Returned \<Rightarrow> f\<lparr>f_cb := None, f_state := TERM'\<rparr>
      | ThrewStd \<Rightarrow> f\<lparr>f_state := EXCEPT\<rparr>
      | ThrewOther \<Rightarrow> f\<lparr>f_state := EXCEPT\<rparr>)"

text \<open>From the end of the callback to the last switch, after which nothing may continue.\<close>

definition MainFunc :: "cb_end \<Rightarrow> int \<Rightarrow> nat \<Rightarrow> 'cb fiber_world \<Rightarrow> 'cb fiber_world outcome" where
  "MainFunc e tid a w =
     obind (GetThis tid a w) (\<lambda>(cur, w1).
       swapOut tid cur AtNeverReach (upd_fiber cur (after_cb e) w1))"

definition CallerMainFunc :: "cb_end \<Rightarrow> int \<Rightarrow> nat \<Rightarrow> 'cb fiber_world \<Rightarrow> 'cb fiber_world outcome"
where
  "CallerMainFunc e tid a w =
     obind (GetThis tid a w) (\<lambda>(cur, w1).
       Fiber_back tid cur AtNeverReach (upd_fiber cur (after_cb e) w1))"

text \<open>
  What a fiber that has been switched to does until it switches back: yield ready, yield on
  hold, switch out without touching its state (as the idle fiber does), or end.
\<close>

datatype slice = SReady | SHold | SOut | SEnd cb_end

definition run_slice :: "slice \<Rightarrow> int \<Rightarrow> nat \<Rightarrow> 'cb fiber_world \<Rightarrow> 'cb fiber_world outcome" where
  "run_slice s tid a w =
     (case s of
        SReady \<Rightarrow> YieldToReady tid a w
      | SHold \<Rightarrow> YieldToHold tid a w
      | SOut \<Rightarrow> obind (GetThis tid a w) (\<lambda>(cur, w1). swapOut tid cur InCode w1)
      | SEnd e \<Rightarrow> MainFunc e tid a w)"

text \<open>\<open>swapIn\<close> as its caller sees it: switch, let the fiber run one slice, continue.\<close>

definition swapIn_slice :: "slice \<Rightarrow> int \<Rightarrow> nat \<Rightarrow> 'cb fiber_world \<Rightarrow> 'cb fiber_world outcome" where
  "swapIn_slice s tid a w = obind (swapIn tid a w) (run_slice s tid a)"

end
