(* ===== verification/Hps_FiberProps.thy ===== *)
theory Hps_FiberProps
  imports Hps_Fiber
begin

text \<open>
  What is true of fibers: what one slice of a fiber does to the world (the lemma the
  scheduler rests on), how each misuse fails, and the invariants of runs of fiber operations
  on any number of threads: the thread-local current fiber is the running one, ids are
  unique, and the global counter counts the live objects.
\<close>

section \<open>Projections\<close>

lemma upd_fiber_simps [simp]:
  "fw_objs (upd_fiber a g w) b = (if b = a then map_option g (fw_objs w a) else fw_objs w b)"
  "fw_fiber_id (upd_fiber a g w) = fw_fiber_id w"
  "fw_fiber_count (upd_fiber a g w) = fw_fiber_count w"
  "fw_tls (upd_fiber a g w) = fw_tls w"
  "fw_running (upd_fiber a g w) = fw_running w"
  "dom (fw_objs (upd_fiber a g w)) = dom (fw_objs w)"
  by (auto simp: upd_fiber_def dom_def)

lemma SetThis_simps [simp]:
  "fw_objs (SetThis tid p w) = fw_objs w"
  "fw_fiber_id (SetThis tid p w) = fw_fiber_id w"
  "fw_fiber_count (SetThis tid p w) = fw_fiber_count w"
  "fw_running (SetThis tid p w) = fw_running w"
  "t_fiber (fw_tls (SetThis tid p w) tid) = p"
  "t_scheduler_fiber (fw_tls (SetThis tid p w) u) = t_scheduler_fiber (fw_tls w u)"
  "t_threadFiber (fw_tls (SetThis tid p w) u) = t_threadFiber (fw_tls w u)"
  "u \<noteq> tid \<Longrightarrow> fw_tls (SetThis tid p w) u = fw_tls w u"
  by (simp_all add: SetThis_def upd_tls_def)

lemma GetMainFiber_simps [simp]:
  "GetMainFiber tid (SetThis u p w) = GetMainFiber tid w"
  "GetMainFiber tid (upd_fiber a g w) = GetMainFiber tid w"
  by (simp_all add: GetMainFiber_def)

section \<open>One switch\<close>

definition resumable :: "cont \<Rightarrow> bool" where
  "resumable k \<longleftrightarrow> k \<noteq> Running \<and> k \<noteq> AtNeverReach"

lemma resumable_simps [simp]:
  "resumable (AtEntry e)" "resumable InCode" "\<not> resumable Running" "\<not> resumable AtNeverReach"
  by (simp_all add: resumable_def)

lemma swapcontext_ok:
  assumes "fw_objs w from = Some f" and "fw_objs w to = Some t" and "from \<noteq> to"
    and "resumable (f_ctx t)"
  shows "swapcontext tid from to k w =
    Inr (w\<lparr>fw_objs := (fw_objs w)(from \<mapsto> f\<lparr>f_ctx := k\<rparr>, to \<mapsto> t\<lparr>f_ctx := Running\<rparr>),
           fw_running := (fw_running w)(tid := Some to)\<rparr>)"
  using assms
  by (cases "f_ctx t")
    (auto simp: swapcontext_def Let_def upd_fiber_def resumable_def fun_upd_twist)

lemma swapcontext_Inr:
  assumes "swapcontext tid from to k w = Inr w'"
  shows "fw_running w' = (fw_running w)(tid := Some to)" and "fw_tls w' = fw_tls w"
    and "fw_fiber_id w' = fw_fiber_id w" and "fw_fiber_count w' = fw_fiber_count w"
    and "dom (fw_objs w') = dom (fw_objs w)"
    and "\<And>b. map_option f_id (fw_objs w' b) = map_option f_id (fw_objs w b)"
    and "\<And>b. map_option f_stack (fw_objs w' b) = map_option f_stack (fw_objs w b)"
proof -
  let ?w1 = "upd_fiber from (\<lambda>f. f\<lparr>f_ctx := k\<rparr>) w"
  have w': "w' = (upd_fiber to (\<lambda>f. f\<lparr>f_ctx := Running\<rparr>) ?w1)
      \<lparr>fw_running := (fw_running w)(tid := Some to)\<rparr>"
  proof -
    obtain t where "fw_objs ?w1 to = Some t"
      using assms by (auto simp: swapcontext_def Let_def obind_eq_Inr deref_eq_Inr)
    then show ?thesis
      using assms by (cases "f_ctx t") (auto simp: swapcontext_def Let_def obind_eq_Inr)
  qed
  show "fw_running w' = (fw_running w)(tid := Some to)" "fw_tls w' = fw_tls w"
    "fw_fiber_id w' = fw_fiber_id w" "fw_fiber_count w' = fw_fiber_count w"
    "dom (fw_objs w') = dom (fw_objs w)"
    "\<And>b. map_option f_id (fw_objs w' b) = map_option f_id (fw_objs w b)"
    "\<And>b. map_option f_stack (fw_objs w' b) = map_option f_stack (fw_objs w b)"
    by (auto simp: w' option.map_comp o_def dom_def upd_fiber_def split: if_splits)
qed

section \<open>One slice of a fiber\<close>

text \<open>The fiber object after the slice: its state, and where it continues next time.\<close>

definition slice_result :: "slice \<Rightarrow> 'cb hps_Fiber \<Rightarrow> 'cb hps_Fiber" where
  "slice_result s f =
     (case s of
        SReady \<Rightarrow> f\<lparr>f_state := READY, f_ctx := InCode\<rparr>
      | SHold \<Rightarrow> f\<lparr>f_state := HOLD, f_ctx := InCode\<rparr>
      | SOut \<Rightarrow> f\<lparr>f_state := EXEC, f_ctx := InCode\<rparr>
      | SEnd e \<Rightarrow> (after_cb e f)\<lparr>f_ctx := AtNeverReach\<rparr>)"

lemma slice_result_simps [simp]:
  "f_id (slice_result s f) = f_id f"
  "f_stack (slice_result s f) = f_stack f"
  by (auto simp: slice_result_def after_cb_def split: slice.split cb_end.split)

lemma swapIn_ok:
  assumes "GetMainFiber tid w = Some mn" and "mn \<noteq> a" and "fw_objs w mn = Some mf"
    and "fw_objs w a = Some f" and "f_state f \<noteq> EXEC" and "resumable (f_ctx f)"
  shows "swapIn tid a w =
    Inr ((SetThis tid (Some a) w)
      \<lparr>fw_objs := (fw_objs w)(mn \<mapsto> mf\<lparr>f_ctx := InCode\<rparr>, a \<mapsto> f\<lparr>f_state := EXEC, f_ctx := Running\<rparr>),
       fw_running := (fw_running w)(tid := Some a)\<rparr>)"
proof -
  let ?w2 = "upd_fiber a (\<lambda>f. f\<lparr>f_state := EXEC\<rparr>) (SetThis tid (Some a) w)"
  have "swapIn tid a w = swapcontext tid mn a InCode ?w2"
    using assms by (simp add: swapIn_def Let_def)
  also have "\<dots> = Inr (?w2\<lparr>fw_objs := (fw_objs ?w2)(mn \<mapsto> mf\<lparr>f_ctx := InCode\<rparr>,
        a \<mapsto> f\<lparr>f_state := EXEC, f_ctx := Running\<rparr>),
      fw_running := (fw_running w)(tid := Some a)\<rparr>)"
    using assms by (subst swapcontext_ok [where f = mf and t = "f\<lparr>f_state := EXEC\<rparr>"]) simp_all
  finally show ?thesis
    using assms(2,4) by (simp add: upd_fiber_def SetThis_def upd_tls_def fun_upd_twist)
qed

lemma swapOut_ok:
  assumes "GetMainFiber tid w = Some mn" and "mn \<noteq> a" and "fw_objs w mn = Some mf"
    and "fw_objs w a = Some f" and "resumable (f_ctx mf)"
  shows "swapOut tid a k w =
    Inr ((SetThis tid (Some mn) w)
      \<lparr>fw_objs := (fw_objs w)(a \<mapsto> f\<lparr>f_ctx := k\<rparr>, mn \<mapsto> mf\<lparr>f_ctx := Running\<rparr>),
       fw_running := (fw_running w)(tid := Some mn)\<rparr>)"
  using assms by (simp add: swapOut_def Let_def swapcontext_ok [where f = f and t = mf])

lemma run_slice_ok:
  assumes "GetMainFiber tid w = Some mn" and "mn \<noteq> a" and "fw_objs w mn = Some mf"
    and "fw_objs w a = Some f" and "resumable (f_ctx mf)" and "t_fiber (fw_tls w tid) = Some a"
    and "f_state f = EXEC"
  shows "run_slice s tid a w =
    Inr ((SetThis tid (Some mn) w)
      \<lparr>fw_objs := (fw_objs w)(a \<mapsto> slice_result s f, mn \<mapsto> mf\<lparr>f_ctx := Running\<rparr>),
       fw_running := (fw_running w)(tid := Some mn)\<rparr>)"
proof -
  have this: "GetThis tid a w = Inr (a, w)"
    using assms by (simp add: GetThis_def)
  have "swapOut tid a k (upd_fiber a g w) =
    Inr ((SetThis tid (Some mn) w)
      \<lparr>fw_objs := (fw_objs w)(a \<mapsto> (g f)\<lparr>f_ctx := k\<rparr>, mn \<mapsto> mf\<lparr>f_ctx := Running\<rparr>),
       fw_running := (fw_running w)(tid := Some mn)\<rparr>)" for k g
    using assms
    by (subst swapOut_ok [where f = "g f" and mf = mf and mn = mn])
      (simp_all add: upd_fiber_def SetThis_def upd_tls_def GetMainFiber_def)
  from this [of _ id] this have out: "swapOut tid a k w =
    Inr ((SetThis tid (Some mn) w)
      \<lparr>fw_objs := (fw_objs w)(a \<mapsto> f\<lparr>f_ctx := k\<rparr>, mn \<mapsto> mf\<lparr>f_ctx := Running\<rparr>),
       fw_running := (fw_running w)(tid := Some mn)\<rparr>)" for k
    using assms by (simp add: swapOut_ok)
  note upd = \<open>\<And>k g. swapOut tid a k (upd_fiber a g w) = _\<close>
  have same: "f\<lparr>f_state := EXEC, f_ctx := k\<rparr> = f\<lparr>f_ctx := k\<rparr>" for k
    using assms(7) by (cases f) simp
  show ?thesis
    using \<open>GetThis tid a w = _\<close>
    by (cases s)
      (simp_all add: run_slice_def slice_result_def YieldToReady_def YieldToHold_def YieldTo_def
        MainFunc_def upd out same)
qed

text \<open>
  The lemma the scheduler rests on: switching to a fiber that is not executing and whose
  context can continue runs one slice, after which the scheduler's fiber runs again and the
  only changes are in the fiber itself and in the two saved contexts.
\<close>

lemma swapIn_slice_ok:
  assumes "GetMainFiber tid w = Some mn" and "mn \<noteq> a" and "fw_objs w mn = Some mf"
    and "fw_objs w a = Some f" and "f_state f \<noteq> EXEC" and "resumable (f_ctx f)"
  shows "swapIn_slice s tid a w =
    Inr ((SetThis tid (Some mn) w)
      \<lparr>fw_objs := (fw_objs w)(a \<mapsto> slice_result s f, mn \<mapsto> mf\<lparr>f_ctx := Running\<rparr>),
       fw_running := (fw_running w)(tid := Some mn)\<rparr>)"
proof -
  let ?f = "f\<lparr>f_state := EXEC, f_ctx := Running\<rparr>"
  let ?w = "(SetThis tid (Some a) w)
      \<lparr>fw_objs := (fw_objs w)(mn \<mapsto> mf\<lparr>f_ctx := InCode\<rparr>, a \<mapsto> ?f),
       fw_running := (fw_running w)(tid := Some a)\<rparr>"
  have res: "slice_result s ?f = slice_result s f"
    by (auto simp: slice_result_def after_cb_def split: slice.split cb_end.split)
  have main: "GetMainFiber tid ?w = Some mn"
    using assms(1) by (simp add: GetMainFiber_def)
  have "swapIn_slice s tid a w = run_slice s tid a ?w"
    using swapIn_ok [OF assms] by (simp add: swapIn_slice_def)
  also have "\<dots> = Inr ((SetThis tid (Some mn) ?w)
      \<lparr>fw_objs := (fw_objs ?w)(a \<mapsto> slice_result s ?f, mn \<mapsto> mf\<lparr>f_ctx := Running\<rparr>),
       fw_running := (fw_running ?w)(tid := Some mn)\<rparr>)"
    using main assms
    by (subst run_slice_ok [where f = ?f and mf = "mf\<lparr>f_ctx := InCode\<rparr>" and mn = mn]) simp_all
  finally show ?thesis
    using assms(2) by (simp add: SetThis_def upd_tls_def res fun_upd_twist)
qed

lemma swapIn_executing:
  "fw_objs w a = Some f \<Longrightarrow> f_state f = EXEC \<Longrightarrow>
     swapIn tid a w = Inl (AssertFail ''m_state != EXEC'')"
  by (simp add: swapIn_def Let_def)

lemma swapIn_no_scheduler:
  "fw_objs w a = Some f \<Longrightarrow> f_state f \<noteq> EXEC \<Longrightarrow> GetMainFiber tid w = None \<Longrightarrow>
     swapIn tid a w = Inl (NullDeref ''GetMainFiber()'')"
  by (simp add: swapIn_def Let_def)

lemma swapIn_finished:
  assumes "GetMainFiber tid w = Some mn" and "mn \<noteq> a" and "fw_objs w mn = Some mf"
    and "fw_objs w a = Some f" and "f_state f \<noteq> EXEC" and "f_ctx f = AtNeverReach"
  shows "swapIn tid a w = Inl (AssertFail ''never reach'')"
  using assms by (simp add: swapIn_def swapcontext_def Let_def)


section \<open>Runs of fiber operations\<close>

text \<open>
  One operation of the code running on some thread. Addresses in \<open>ONew\<close> and \<open>OGetThis\<close> are
  the allocator's choice.
\<close>

datatype 'cb fiber_op =
    ONew nat "'cb option" u64 bool u32
  | OReset nat "'cb option"
  | ODelete nat
  | OGetThis nat
  | OSwapIn nat
  | OSlice slice nat
  | OCall nat
  | OCallerEnd cb_end nat

fun fiber_exec :: "int \<Rightarrow> 'cb fiber_op \<Rightarrow> 'cb fiber_world \<Rightarrow> 'cb fiber_world outcome" where
  "fiber_exec tid (ONew a cb ss uc cfg) w = Inr (Fiber_new a cb ss uc cfg w)"
| "fiber_exec tid (OReset a cb) w = Fiber_reset a cb w"
| "fiber_exec tid (ODelete a) w = Fiber_delete tid a w"
| "fiber_exec tid (OGetThis a) w = obind (GetThis tid a w) (\<lambda>(p, w'). Inr w')"
| "fiber_exec tid (OSwapIn a) w = swapIn tid a w"
| "fiber_exec tid (OSlice s a) w = run_slice s tid a w"
| "fiber_exec tid (OCall a) w = Fiber_call tid a w"
| "fiber_exec tid (OCallerEnd e a) w = CallerMainFunc e tid a w"

text \<open>
  The allocator returns free addresses, the id counter has not wrapped around, nobody frees
  the fiber that some thread is executing, and only running code yields.
\<close>

fun fiber_legal :: "int \<Rightarrow> 'cb fiber_op \<Rightarrow> 'cb fiber_world \<Rightarrow> bool" where
  "fiber_legal tid (ONew a cb ss uc cfg) w \<longleftrightarrow> fw_objs w a = None \<and> fw_fiber_id w + 1 \<noteq> 0"
| "fiber_legal tid (OReset a cb) w \<longleftrightarrow> True"
| "fiber_legal tid (ODelete a) w \<longleftrightarrow> (\<forall>u. fw_running w u \<noteq> Some a)"
| "fiber_legal tid (OGetThis a) w \<longleftrightarrow> fw_objs w a = None"
| "fiber_legal tid (OSwapIn a) w \<longleftrightarrow> True"
| "fiber_legal tid (OSlice s a) w \<longleftrightarrow> fw_running w tid \<noteq> None"
| "fiber_legal tid (OCall a) w \<longleftrightarrow> True"
| "fiber_legal tid (OCallerEnd e a) w \<longleftrightarrow> fw_running w tid \<noteq> None"

inductive fiber_step :: "'cb fiber_world \<Rightarrow> 'cb fiber_world \<Rightarrow> bool" where
  exec: "fiber_legal tid op w \<Longrightarrow> fiber_exec tid op w = Inr w' \<Longrightarrow> fiber_step w w'"

inductive_cases fiber_stepE: "fiber_step w w'"

text \<open>The identity of each object: its id and whether it owns a stack.\<close>

definition ident :: "'cb fiber_world \<Rightarrow> nat \<Rightarrow> (u64 \<times> bool) option" where
  "ident w a = map_option (\<lambda>f. (f_id f, f_stack f)) (fw_objs w a)"

lemma dom_ident: "dom (ident w) = dom (fw_objs w)"
  by (auto simp: ident_def dom_def)

definition ids_inv :: "(nat \<Rightarrow> (u64 \<times> bool) option) \<Rightarrow> u64 \<Rightarrow> u64 \<Rightarrow> bool" where
  "ids_inv I next_id count \<longleftrightarrow> finite (dom I) \<and> count = of_nat (card (dom I)) \<and>
     (\<forall>a i. I a = Some (i, True) \<longrightarrow> 0 < i \<and> i \<le> next_id) \<and>
     (\<forall>a b i. I a = Some (i, True) \<longrightarrow> I b = Some (i, True) \<longrightarrow> a = b) \<and>
     (\<forall>a i. I a = Some (i, False) \<longrightarrow> i = 0)"

definition fiber_inv :: "'cb fiber_world \<Rightarrow> bool" where
  "fiber_inv w \<longleftrightarrow> ids_inv (ident w) (fw_fiber_id w) (fw_fiber_count w) \<and>
     (\<forall>tid. t_fiber (fw_tls w tid) = fw_running w tid)"

text \<open>Operations that switch or reset keep every identity and the counters.\<close>

definition same_ids :: "'cb fiber_world \<Rightarrow> 'cb fiber_world \<Rightarrow> bool" where
  "same_ids w w' \<longleftrightarrow> ident w' = ident w \<and> fw_fiber_id w' = fw_fiber_id w \<and>
     fw_fiber_count w' = fw_fiber_count w"

lemma same_ids_trans: "same_ids w w1 \<Longrightarrow> same_ids w1 w2 \<Longrightarrow> same_ids w w2"
  by (simp add: same_ids_def)

lemma same_ids_refl [simp]: "same_ids w w"
  by (simp add: same_ids_def)

lemma ident_upd:
  assumes "\<And>f. f_id (g f) = f_id f" and "\<And>f. f_stack (g f) = f_stack f"
  shows "ident (upd_fiber a g w) = ident w"
  using assms by (auto simp: ident_def fun_eq_iff option.map_comp o_def)

lemma same_ids_upd [simp]:
  assumes "\<And>f. f_id (g f) = f_id f" and "\<And>f. f_stack (g f) = f_stack f"
  shows "same_ids w (upd_fiber a g w1) \<longleftrightarrow> same_ids w w1"
    and "same_ids (upd_fiber a g w1) w \<longleftrightarrow> same_ids w1 w"
  using ident_upd [OF assms, of a w1] by (auto simp: same_ids_def)

lemma same_ids_SetThis [simp]: "same_ids w (SetThis tid p w1) \<longleftrightarrow> same_ids w w1"
  by (simp add: same_ids_def ident_def fun_eq_iff)

lemma same_ids_swapcontext:
  assumes "swapcontext tid from to k w = Inr w'"
  shows "same_ids w w'"
proof -
  have "map_option (\<lambda>f. (f_id f, f_stack f)) (fw_objs w' b) =
      map_option (\<lambda>f. (f_id f, f_stack f)) (fw_objs w b)" for b
    using swapcontext_Inr(6,7) [OF assms, of b]
    by (cases "fw_objs w' b"; cases "fw_objs w b") auto
  then show ?thesis
    using swapcontext_Inr(3,4) [OF assms] by (simp add: same_ids_def ident_def fun_eq_iff)
qed

lemma after_cb_ident [simp]:
  "f_id (after_cb e f) = f_id f" "f_stack (after_cb e f) = f_stack f"
  by (auto simp: after_cb_def split: cb_end.split)

text \<open>A switch: the identities stay, and the thread's current fiber is the one switched to.\<close>

definition switched :: "int \<Rightarrow> 'cb fiber_world \<Rightarrow> 'cb fiber_world \<Rightarrow> bool" where
  "switched tid w w' \<longleftrightarrow> same_ids w w' \<and> t_fiber (fw_tls w' tid) = fw_running w' tid \<and>
     (\<forall>u. u \<noteq> tid \<longrightarrow> t_fiber (fw_tls w' u) = t_fiber (fw_tls w u) \<and> fw_running w' u = fw_running w u)"

lemma switchedI:
  assumes "swapcontext tid from to k w1 = Inr w'" and "same_ids w w1"
    and "t_fiber (fw_tls w1 tid) = Some to"
    and "\<And>u. u \<noteq> tid \<Longrightarrow> fw_tls w1 u = fw_tls w u" and "fw_running w1 = fw_running w"
  shows "switched tid w w'"
  using swapcontext_Inr(1,2) [OF assms(1)] same_ids_trans [OF assms(2) same_ids_swapcontext [OF assms(1)]]
    assms(3-5)
  by (simp add: switched_def)

lemma swapIn_switched: "swapIn tid a w = Inr w' \<Longrightarrow> switched tid w w'"
  unfolding swapIn_def Let_def outcome_simps
  by (elim exE conjE, rule switchedI, assumption) (auto simp: deref_eq_Inr)

lemma swapOut_switched: "swapOut tid a k w = Inr w' \<Longrightarrow> switched tid w w'"
  unfolding swapOut_def Let_def outcome_simps
  by (elim exE conjE, rule switchedI, assumption) (auto simp: deref_eq_Inr)

lemma call_switched: "Fiber_call tid a w = Inr w' \<Longrightarrow> switched tid w w'"
  unfolding Fiber_call_def Let_def outcome_simps
  by (elim exE conjE, rule switchedI, assumption) (auto simp: deref_eq_Inr)

lemma back_switched: "Fiber_back tid a k w = Inr w' \<Longrightarrow> switched tid w w'"
  unfolding Fiber_back_def Let_def outcome_simps
  by (elim exE conjE, rule switchedI, assumption) (auto simp: deref_eq_Inr)

lemma switched_upd [simp]:
  assumes "\<And>f. f_id (g f) = f_id f" and "\<And>f. f_stack (g f) = f_stack f"
  shows "switched tid (upd_fiber c g w) w' \<longleftrightarrow> switched tid w w'"
  using assms by (simp add: switched_def)

lemma GetThis_running:
  assumes "GetThis tid a w = Inr (p, w1)" and "t_fiber (fw_tls w tid) = Some q"
  shows "w1 = w \<and> p = q"
  using assms by (auto simp: GetThis_def obind_eq_Inr)

lemma YieldTo_switched:
  assumes "YieldTo st tid a w = Inr w'" and "t_fiber (fw_tls w tid) = Some q"
  shows "switched tid w w'"
proof -
  obtain p w1 where "GetThis tid a w = Inr (p, w1)"
    and "swapOut tid p InCode (upd_fiber p (\<lambda>f. f\<lparr>f_state := st\<rparr>) w1) = Inr w'"
    using assms(1) by (auto simp: YieldTo_def obind_eq_Inr)
  with GetThis_running [OF _ assms(2)] swapOut_switched show ?thesis by fastforce
qed

lemma run_slice_switched:
  assumes "run_slice s tid a w = Inr w'" and "t_fiber (fw_tls w tid) = Some q"
  shows "switched tid w w'"
proof -
  have cur: "w1 = w \<and> p = q" if "GetThis tid a w = Inr (p, w1)" for p w1
    using GetThis_running [OF that assms(2)] .
  show ?thesis
  proof (cases s)
    case SReady
    with assms show ?thesis
      by (auto simp: run_slice_def YieldToReady_def intro: YieldTo_switched)
  next
    case SHold
    with assms show ?thesis
      by (auto simp: run_slice_def YieldToHold_def intro: YieldTo_switched)
  next
    case SOut
    with assms(1) obtain p w1 where "GetThis tid a w = Inr (p, w1)" "swapOut tid p InCode w1 = Inr w'"
      by (auto simp: run_slice_def obind_eq_Inr)
    with cur swapOut_switched show ?thesis by fastforce
  next
    case (SEnd e)
    with assms(1) obtain p w1 where "GetThis tid a w = Inr (p, w1)"
        "swapOut tid p AtNeverReach (upd_fiber p (after_cb e) w1) = Inr w'"
      by (auto simp: run_slice_def MainFunc_def obind_eq_Inr)
    with cur swapOut_switched show ?thesis by fastforce
  qed
qed

lemma caller_end_switched:
  assumes "CallerMainFunc e tid a w = Inr w'" and "t_fiber (fw_tls w tid) = Some q"
  shows "switched tid w w'"
proof -
  obtain p w1 where "GetThis tid a w = Inr (p, w1)"
    and "Fiber_back tid p AtNeverReach (upd_fiber p (after_cb e) w1) = Inr w'"
    using assms(1) by (auto simp: CallerMainFunc_def obind_eq_Inr)
  with GetThis_running [OF _ assms(2)] back_switched show ?thesis by fastforce
qed

lemma switched_inv:
  assumes "switched tid w w'" and "fiber_inv w"
  shows "fiber_inv w'"
proof -
  have "t_fiber (fw_tls w' u) = fw_running w' u" for u
    using assms by (cases "u = tid") (simp_all add: switched_def fiber_inv_def)
  then show ?thesis
    using assms by (simp add: switched_def fiber_inv_def same_ids_def)
qed


section \<open>The invariant of runs\<close>

lemma ids_inv_insert:
  assumes "ids_inv I n c" and "I a = None" and "n + 1 \<noteq> 0"
  shows "ids_inv (I(a \<mapsto> (n + 1, True))) (n + 1) (c + 1)"
proof -
  have "unat (1 + n) = Suc (unat n)"
    using assms(3) by (intro unatSuc) (simp add: add.commute)
  then have lt: "n < n + 1" by (simp add: word_less_nat_alt add.commute)
  have "a \<notin> dom I" using assms(2) by auto
  then have "card (dom (I(a \<mapsto> (n + 1, True)))) = Suc (card (dom I))"
    using assms(1) by (simp add: ids_inv_def)
  moreover have "0 < n + 1" using assms(3) by (simp add: word_neq_0_conv)
  ultimately show ?thesis
    using assms(1) lt by (fastforce simp: ids_inv_def)
qed

lemma ids_inv_main:
  assumes "ids_inv I n c" and "I a = None"
  shows "ids_inv (I(a \<mapsto> (0, False))) n (c + 1)"
proof -
  have "a \<notin> dom I" using assms(2) by auto
  then have "card (dom (I(a \<mapsto> (0, False)))) = Suc (card (dom I))"
    using assms(1) by (simp add: ids_inv_def)
  then show ?thesis
    using assms(1) by (auto simp: ids_inv_def)
qed

lemma ids_inv_remove:
  assumes "ids_inv I n c" and "I a \<noteq> None"
  shows "ids_inv (I(a := None)) n (c - 1)"
proof -
  have "a \<in> dom I" using assms(2) by auto
  then have "card (dom I) = Suc (card (dom I - {a}))"
    using assms(1) by (simp only: ids_inv_def card_Suc_Diff1)
  moreover have "dom (I(a := None)) = dom I - {a}" by auto
  ultimately have "c - 1 = of_nat (card (dom (I(a := None))))"
    using assms(1) by (simp add: ids_inv_def)
  then show ?thesis
    using assms(1) by (auto simp: ids_inv_def)
qed

lemma Fiber_new_inv:
  assumes "fiber_inv w" and "fiber_legal tid (ONew a cb ss uc cfg) w"
  shows "fiber_inv (Fiber_new a cb ss uc cfg w)"
proof -
  have "ident (Fiber_new a cb ss uc cfg w) = (ident w)(a \<mapsto> (fw_fiber_id w + 1, True))"
    by (simp add: ident_def Fiber_new_def fun_eq_iff)
  moreover have "ident w a = None" using assms(2) by (simp add: ident_def)
  ultimately show ?thesis
    using assms ids_inv_insert by (simp add: fiber_inv_def Fiber_new_def)
qed

lemma GetThis_inv:
  assumes "fiber_inv w" and "GetThis tid a w = Inr (p, w')" and "fw_objs w a = None"
  shows "fiber_inv w'"
proof (cases "t_fiber (fw_tls w tid)")
  case None
  then have w': "w' = upd_tls tid (\<lambda>t. t\<lparr>t_threadFiber := Some a\<rparr>) (Fiber_main_new tid a w)"
    using assms(2) by (auto simp: GetThis_def Let_def HPS_ASSERT_eq_Inr)
  then have "ident w' = (ident w)(a \<mapsto> (0, False))" "fw_fiber_id w' = fw_fiber_id w"
      "fw_fiber_count w' = fw_fiber_count w + 1"
      "t_fiber (fw_tls w' u) = fw_running w' u" for u
    using assms(1)
    by (simp_all add: ident_def Fiber_main_new_def Let_def fun_eq_iff SetThis_def upd_tls_def fiber_inv_def)
  moreover have "ident w a = None" using assms(3) by (simp add: ident_def)
  ultimately show ?thesis
    using assms(1) ids_inv_main by (simp add: fiber_inv_def)
next
  case (Some q)
  with GetThis_running [OF assms(2)] assms(1) show ?thesis by simp
qed

lemma Fiber_delete_inv:
  assumes "fiber_inv w" and "Fiber_delete tid a w = Inr w'" and "\<forall>u. fw_running w u \<noteq> Some a"
  shows "fiber_inv w'"
proof -
  have "t_fiber (fw_tls w tid) \<noteq> Some a"
    using assms(1,3) by (simp add: fiber_inv_def)
  then have "w' = w\<lparr>fw_fiber_count := fw_fiber_count w - 1, fw_objs := (fw_objs w)(a := None)\<rparr>"
    and obj: "fw_objs w a \<noteq> None"
    using assms(2) by (auto simp: Fiber_delete_def Let_def outcome_simps split: if_splits)
  then have "ident w' = (ident w)(a := None)" "fw_fiber_count w' = fw_fiber_count w - 1"
      "fw_fiber_id w' = fw_fiber_id w" "fw_tls w' = fw_tls w" "fw_running w' = fw_running w"
    by (simp_all add: ident_def fun_eq_iff)
  moreover have "ident w a \<noteq> None" using obj by (simp add: ident_def)
  ultimately show ?thesis
    using assms(1) ids_inv_remove by (simp add: fiber_inv_def)
qed

lemma fiber_exec_inv:
  assumes inv: "fiber_inv w" and legal: "fiber_legal tid op w"
    and ex: "fiber_exec tid op w = Inr w'"
  shows "fiber_inv w'"
proof -
  have cur: "\<exists>q. t_fiber (fw_tls w tid) = Some q" if "fw_running w tid \<noteq> None"
    using that inv by (auto simp: fiber_inv_def)
  show ?thesis
  proof (cases op)
    case (ONew a cb ss uc cfg)
    with inv legal ex show ?thesis by (auto intro: Fiber_new_inv)
  next
    case (OReset a cb)
    with ex have "w' = upd_fiber a (\<lambda>f. f\<lparr>f_cb := cb, f_ctx := AtEntry EMainFunc, f_state := INIT\<rparr>) w"
      by (auto simp: Fiber_reset_def outcome_simps)
    with inv show ?thesis by (simp add: fiber_inv_def ident_upd)
  next
    case (ODelete a)
    with inv legal ex show ?thesis by (auto intro: Fiber_delete_inv)
  next
    case (OGetThis a)
    with inv legal ex show ?thesis by (auto simp: obind_eq_Inr intro: GetThis_inv)
  next
    case (OSwapIn a)
    with inv ex show ?thesis by (auto intro: switched_inv swapIn_switched)
  next
    case (OSlice s a)
    with inv legal ex cur show ?thesis by (auto intro: switched_inv run_slice_switched)
  next
    case (OCall a)
    with inv ex show ?thesis by (auto intro: switched_inv call_switched)
  next
    case (OCallerEnd e a)
    with inv legal ex cur show ?thesis by (auto intro: switched_inv caller_end_switched)
  qed
qed

lemma fiber_inv_init: "fiber_inv fiber_world_init"
  by (simp add: fiber_inv_def ids_inv_def ident_def fiber_world_init_def dom_def)

interpretation fibers: invariant_system "\<lambda>w. w = fiber_world_init" fiber_step fiber_inv
  by unfold_locales (auto simp: fiber_inv_init elim!: fiber_stepE dest: fiber_exec_inv)

end
