(* ===== verification/Hps_FiberClaims.thy ===== *)
theory Hps_FiberClaims
  imports Hps_FiberProps
begin

text \<open>
  The properties of fibers, with a small world for the witnesses: thread 7 runs its main
  fiber (address 1), which is its scheduler's fiber, and a new fiber stands at address 2.
\<close>

definition main_at_1 :: "nat hps_Fiber" where
  "main_at_1 = \<lparr>f_id = 0, f_stacksize = 0, f_state = EXEC, f_ctx = Running, f_stack = False, f_cb = None\<rparr>"

definition new_at_2 :: "nat hps_Fiber" where
  "new_at_2 = \<lparr>f_id = 1, f_stacksize = 4096, f_state = INIT, f_ctx = AtEntry EMainFunc,
     f_stack = True, f_cb = Some 5\<rparr>"

definition demo_world :: "nat fiber_world" where
  "demo_world =
     \<lparr>fw_objs = [1 \<mapsto> main_at_1, 2 \<mapsto> new_at_2], fw_fiber_id = 1, fw_fiber_count = 2,
      fw_tls = (\<lambda>_. \<lparr>t_fiber = None, t_threadFiber = None, t_scheduler_fiber = None\<rparr>)
        (7 := \<lparr>t_fiber = Some 1, t_threadFiber = Some 1, t_scheduler_fiber = Some 1\<rparr>),
      fw_running = (\<lambda>_. None)(7 := Some 1)\<rparr>"

lemma demo_world_simps [simp]:
  "fw_objs demo_world (Suc 0) = Some main_at_1"
  "fw_objs demo_world 2 = Some new_at_2"
  "GetMainFiber 7 demo_world = Some 1"
  "f_state new_at_2 = INIT" "f_ctx new_at_2 = AtEntry EMainFunc" "f_stack new_at_2" "f_cb new_at_2 = Some 5"
  "f_stack main_at_1 = False" "f_state main_at_1 = EXEC"
  by (simp_all add: demo_world_def GetMainFiber_def new_at_2_def main_at_1_def)

section \<open>Properties\<close>



text \<open>
  Switching to a fiber that is not executing and whose context is saved runs one
  slice and comes back: the scheduler's fiber is current and running again, the fiber has
  the state its slice left (READY, HOLD, EXEC for a bare switch, TERM or EXCEPT with its
  callback dropped or kept), and no other fiber, id or counter has changed.
\<close>

theorem swapIn_runs_one_slice:
  assumes "GetMainFiber tid w = Some mn" and "mn \<noteq> a" and "fw_objs w mn = Some mf"
    and "fw_objs w a = Some f" and "f_state f \<noteq> EXEC" and "resumable (f_ctx f)"
  shows "\<exists>w'. swapIn_slice s tid a w = Inr w' \<and>
    fw_objs w' = (fw_objs w)(a \<mapsto> slice_result s f, mn \<mapsto> mf\<lparr>f_ctx := Running\<rparr>) \<and>
    fw_running w' tid = Some mn \<and> t_fiber (fw_tls w' tid) = Some mn \<and>
    (\<forall>u. u \<noteq> tid \<longrightarrow> fw_tls w' u = fw_tls w u \<and> fw_running w' u = fw_running w u) \<and>
    fw_fiber_id w' = fw_fiber_id w \<and> fw_fiber_count w' = fw_fiber_count w"
  using swapIn_slice_ok [OF assms, of s] by auto

theorem swapIn_runs_one_slice_witness:
  "\<exists>w'. swapIn_slice SHold 7 2 demo_world = Inr w' \<and>
     map_option f_state (fw_objs w' 2) = Some HOLD \<and> fw_running w' 7 = Some 1"
  using swapIn_runs_one_slice [of 7 demo_world 1 2 main_at_1 new_at_2 SHold]
  by (auto simp: slice_result_def)

text \<open>
  A fiber whose entry function has ended cannot be continued: after any end of its
  callback, switching to it again aborts the process at the assertion behind the last
  switch, and destroying it succeeds; only \<open>reset\<close> makes it runnable again, under its old
  id, with the new callback.
\<close>

theorem finished_fiber_aborts_until_reset:
  assumes "GetMainFiber tid w = Some mn" and "mn \<noteq> a" and "fw_objs w mn = Some mf"
    and "fw_objs w a = Some f" and "f_state f \<noteq> EXEC" and "resumable (f_ctx f)" and "f_stack f"
    and "swapIn_slice (SEnd e) tid a w = Inr w'"
  shows "swapIn tid a w' = Inl (AssertFail ''never reach'') \<and>
    is_ok (Fiber_delete tid a w') \<and>
    (\<exists>w''. Fiber_reset a cb w' = Inr w'' \<and> is_ok (swapIn_slice s tid a w'') \<and>
       map_option f_id (fw_objs w'' a) = Some (f_id f) \<and> map_option f_cb (fw_objs w'' a) = Some cb)"
proof -
  let ?f = "slice_result (SEnd e) f"
  have w': "w' = (SetThis tid (Some mn) w)
      \<lparr>fw_objs := (fw_objs w)(a \<mapsto> ?f, mn \<mapsto> mf\<lparr>f_ctx := Running\<rparr>),
       fw_running := (fw_running w)(tid := Some mn)\<rparr>"
    using swapIn_slice_ok [OF assms(1-6), of "SEnd e"] assms(8) by simp
  have f: "f_ctx ?f = AtNeverReach" "f_state ?f = TERM' \<or> f_state ?f = EXCEPT"
    by (auto simp: slice_result_def after_cb_def split: cb_end.split)
  then have st: "f_state ?f \<noteq> EXEC" "finished_or_new (f_state ?f)"
    by (auto simp: finished_or_new_def)
  have main: "GetMainFiber tid w' = Some mn" "fw_objs w' mn = Some (mf\<lparr>f_ctx := Running\<rparr>)"
      "fw_objs w' a = Some ?f"
    using assms(1,2) by (simp_all add: w' GetMainFiber_def)
  let ?w'' = "upd_fiber a (\<lambda>f. f\<lparr>f_cb := cb, f_ctx := AtEntry EMainFunc, f_state := INIT\<rparr>) w'"
  let ?f'' = "?f\<lparr>f_cb := cb, f_ctx := AtEntry EMainFunc, f_state := INIT\<rparr>"
  have "Fiber_reset a cb w' = Inr ?w''"
    using main(3) st(2) assms(7) by (simp add: Fiber_reset_def)
  moreover have "is_ok (swapIn_slice s tid a ?w'')"
    using main assms(2)
    by (subst swapIn_slice_ok [where mn = mn and mf = "mf\<lparr>f_ctx := Running\<rparr>" and f = ?f'']) simp_all
  moreover have "swapIn tid a w' = Inl (AssertFail ''never reach'')"
    using swapIn_finished [OF main(1) assms(2) main(2,3) st(1) f(1)] .
  moreover have "is_ok (Fiber_delete tid a w')"
    using main(3) st(2) assms(7) by (simp add: Fiber_delete_def Let_def)
  ultimately show ?thesis using main(3) by simp
qed

theorem finished_fiber_aborts_until_reset_witness:
  "\<exists>w'. swapIn_slice (SEnd ThrewStd) 7 2 demo_world = Inr w' \<and>
     swapIn 7 2 w' = Inl (AssertFail ''never reach'')"
proof -
  obtain w' where r: "swapIn_slice (SEnd ThrewStd) 7 2 demo_world = Inr w'"
    using swapIn_slice_ok [of 7 demo_world 1 2 main_at_1 new_at_2 "SEnd ThrewStd"] by auto
  from finished_fiber_aborts_until_reset [of 7 demo_world 1 2 main_at_1 new_at_2 ThrewStd w', OF _ _ _ _ _ _ _ r] r
  show ?thesis by auto
qed

text \<open>
  On a thread that no scheduler runs (\<open>t_scheduler_fiber\<close> is null), \<open>swapIn\<close> of any
  fiber that is not executing dereferences the null pointer, so the use the README shows
  (\<open>GetThis()\<close>, construct a fiber, \<open>swapIn()\<close>) cannot work in a plain thread.
\<close>

theorem swapIn_without_scheduler_is_null:
  assumes "t_fiber (fw_tls w tid) = None" and "t_scheduler_fiber (fw_tls w tid) = None"
    and "m \<noteq> a"
  shows "\<exists>w1. GetThis tid m w = Inr (m, w1) \<and>
    swapIn tid a (Fiber_new a (Some cb) ss uc cfg w1) = Inl (NullDeref ''GetMainFiber()'')"
proof -
  let ?w1 = "upd_tls tid (\<lambda>t. t\<lparr>t_threadFiber := Some m\<rparr>) (Fiber_main_new tid m w)"
  have "GetThis tid m w = Inr (m, ?w1)"
    using assms(1) by (simp add: GetThis_def Let_def Fiber_main_new_def SetThis_def upd_tls_def)
  moreover obtain f where "fw_objs (Fiber_new a (Some cb) ss uc cfg ?w1) a = Some f" "f_state f = INIT"
    by (simp add: Fiber_new_def)
  moreover have "GetMainFiber tid (Fiber_new a (Some cb) ss uc cfg ?w1) = None"
    using assms(2)
    by (simp add: GetMainFiber_def Fiber_new_def Fiber_main_new_def SetThis_def upd_tls_def Let_def)
  ultimately show ?thesis
    using swapIn_no_scheduler by fastforce
qed

theorem swapIn_without_scheduler_is_null_witness:
  "\<exists>w1 :: nat fiber_world. GetThis 1 10 fiber_world_init = Inr (10, w1) \<and>
     swapIn 1 20 (Fiber_new 20 (Some 3) 0 False 1048576 w1) = Inl (NullDeref ''GetMainFiber()'')"
  by (rule swapIn_without_scheduler_is_null) (simp_all add: fiber_world_init_def)

end
