(* ===== verification/Hps_Config.thy ===== *)
theory Hps_Config
  imports Hps_Prelude
begin

text \<open>
  hps_sf/config.h and hps_sf/config.cpp: configuration variables, their registry and loading
  from a YAML tree. yaml-cpp is a parameter: a node is of any type, with the accessors the code
  calls collected in a record. A conversion from text to the type of a variable
  (\<open>hps_LexicalCast\<close>, over boost and yaml-cpp) is a parameter too, by the name of the type; it can
  throw. Log output is not part of the model.
\<close>

section \<open>YAML nodes as the code uses them\<close>

text \<open>
  \<open>IsMap()\<close>, the pairs \<open>it->first.Scalar()\<close> and \<open>it->second\<close> of an iteration,
  \<open>IsScalar()\<close>, \<open>Scalar()\<close> and \<open>ss << node\<close>.
\<close>

record 'n yaml =
  y_IsMap :: "'n \<Rightarrow> bool"
  y_entries :: "'n \<Rightarrow> (string \<times> 'n) list"
  y_IsScalar :: "'n \<Rightarrow> bool"
  y_Scalar :: "'n \<Rightarrow> string"
  y_emit :: "'n \<Rightarrow> string"

section \<open>Variables\<close>

text \<open>
  A variable of type \<open>T\<close>: \<open>cv_type\<close> is \<open>typeid(T)\<close>, values of all types are in one type \<open>'v\<close>,
  a listener is an element of \<open>'c\<close>.
\<close>

record ('v, 'c) hps_ConfigVar =
  cv_name :: string
  cv_description :: string
  cv_type :: string
  cv_val :: 'v
  cv_cbs :: "(nat \<times> 'c) list"

text \<open>
  The registry, the counter \<open>s_fun_id\<close> of every type, and the record of the listener calls
  made: the listener, the old and the new value.
\<close>

record ('v, 'c) hps_Config =
  cf_datas :: "string \<rightharpoonup> ('v, 'c) hps_ConfigVar"
  cf_fun_id :: "string \<Rightarrow> u64"
  cf_calls :: "('c \<times> 'v \<times> 'v) list"

definition Config_empty :: "('v, 'c) hps_Config" where
  "Config_empty = \<lparr>cf_datas = Map.empty, cf_fun_id = (\<lambda>_. 0), cf_calls = []\<rparr>"

text \<open>\<open>::tolower\<close> in the C locale.\<close>

definition tolower :: "char \<Rightarrow> char" where
  "tolower c = (let n = of_char c :: nat in if 65 \<le> n \<and> n \<le> 90 then char_of (n + 32) else c)"

definition ConfigVar_new :: "string \<Rightarrow> string \<Rightarrow> 'v \<Rightarrow> string \<Rightarrow> ('v, 'c) hps_ConfigVar" where
  "ConfigVar_new name ty default_value description =
     \<lparr>cv_name = map tolower name, cv_description = description, cv_type = ty, cv_val = default_value, cv_cbs = []\<rparr>"

text \<open>\<open>setValue\<close>: every listener sees the old and the new value, in the order of the keys.\<close>

definition setValue ::
  "'v \<Rightarrow> ('v, 'c) hps_ConfigVar \<Rightarrow> ('v, 'c) hps_ConfigVar \<times> ('c \<times> 'v \<times> 'v) list" where
  "setValue v x =
     (if v = cv_val x then (x, [])
      else (x\<lparr>cv_val := v\<rparr>, map (\<lambda>i. (snd i, cv_val x, v)) (cv_cbs x)))"

text \<open>\<open>fromString\<close> catches what the conversion throws, and returns false either way.\<close>

definition fromString ::
  "(string \<Rightarrow> string \<Rightarrow> 'v outcome) \<Rightarrow> string \<Rightarrow> ('v, 'c) hps_ConfigVar \<Rightarrow>
   (('v, 'c) hps_ConfigVar \<times> ('c \<times> 'v \<times> 'v) list) \<times> bool" where
  "fromString from_str val x =
     (case from_str (cv_type x) val of
        Inr v \<Rightarrow> (setValue v x, False)
      | Inl _ \<Rightarrow> ((x, []), False))"

text \<open>\<open>toString\<close>: the empty text if the conversion throws.\<close>

definition toString :: "(string \<Rightarrow> 'v \<Rightarrow> string outcome) \<Rightarrow> ('v, 'c) hps_ConfigVar \<Rightarrow> string" where
  "toString to_str x = (case to_str (cv_type x) (cv_val x) of Inr t \<Rightarrow> t | Inl _ \<Rightarrow> [])"

text \<open>\<open>addListener\<close> counts, and does not store the callback.\<close>

definition addListener :: "'c \<Rightarrow> string \<Rightarrow> ('v, 'c) hps_Config \<Rightarrow> ('v, 'c) hps_Config \<times> u64" where
  "addListener cb ty c =
     (let k = cf_fun_id c ty + 1 in (c\<lparr>cf_fun_id := (cf_fun_id c)(ty := k)\<rparr>, k))"

definition delListener :: "nat \<Rightarrow> ('v, 'c) hps_ConfigVar \<Rightarrow> ('v, 'c) hps_ConfigVar" where
  "delListener key x = x\<lparr>cv_cbs := filter (\<lambda>i. fst i \<noteq> key) (cv_cbs x)\<rparr>"

definition getListener :: "nat \<Rightarrow> ('v, 'c) hps_ConfigVar \<Rightarrow> 'c option" where
  "getListener key x = map_of (cv_cbs x) key"

definition clearListener :: "('v, 'c) hps_ConfigVar \<Rightarrow> ('v, 'c) hps_ConfigVar" where
  "clearListener x = x\<lparr>cv_cbs := []\<rparr>"

section \<open>The registry\<close>

definition name_chars :: string where
  "name_chars = ''abcdefghijklmnopqrstuvwxyz._012345678''"

text \<open>\<open>name.find_first_not_of(...) == npos\<close>\<close>

definition valid_name :: "string \<Rightarrow> bool" where
  "valid_name name \<longleftrightarrow> list_all (\<lambda>c. c \<in> set name_chars) name"

text \<open>
  \<open>Lookup(name, default, description)\<close>: the variable is returned by its key; None is the null
  pointer of a clash of types, an error the exception for a bad name.
\<close>

definition Lookup_or_create ::
  "string \<Rightarrow> string \<Rightarrow> 'v \<Rightarrow> string \<Rightarrow> ('v, 'c) hps_Config \<Rightarrow> (('v, 'c) hps_Config \<times> string option) outcome" where
  "Lookup_or_create name ty default_value description c =
     (case cf_datas c name of
        Some x \<Rightarrow> if cv_type x = ty then Inr (c, Some name) else Inr (c, None)
      | None \<Rightarrow>
          if \<not> valid_name name then Inl (Thrown ''invalid_argument'')
          else Inr (c\<lparr>cf_datas := (cf_datas c)(name \<mapsto> ConfigVar_new name ty default_value description)\<rparr>,
                    Some name))"

definition Lookup :: "string \<Rightarrow> string \<Rightarrow> ('v, 'c) hps_Config \<Rightarrow> ('v, 'c) hps_ConfigVar option" where
  "Lookup name ty c =
     (case cf_datas c name of
        None \<Rightarrow> None
      | Some x \<Rightarrow> if cv_type x = ty then Some x else None)"

definition LookupBase :: "string \<Rightarrow> ('v, 'c) hps_Config \<Rightarrow> ('v, 'c) hps_ConfigVar option" where
  "LookupBase name c = cf_datas c name"

text \<open>\<open>Visit\<close>: the callback on every variable.\<close>

definition Visit :: "(('v, 'c) hps_ConfigVar \<Rightarrow> ('v, 'c) hps_ConfigVar) \<Rightarrow> ('v, 'c) hps_Config \<Rightarrow> ('v, 'c) hps_Config" where
  "Visit cb c = c\<lparr>cf_datas := (\<lambda>n. map_option cb (cf_datas c n))\<rparr>"

section \<open>Loading\<close>

definition sub_name :: "string \<Rightarrow> string \<Rightarrow> string" where
  "sub_name prefix key = (if prefix = [] then key else prefix @ ''.'' @ key)"

text \<open>
  \<open>ListAllMember\<close>: the list it appends. The fuel bounds the depth of the tree, None is a tree
  that is deeper.
\<close>

fun ListAllMember :: "'n yaml \<Rightarrow> nat \<Rightarrow> string \<Rightarrow> 'n \<Rightarrow> (string \<times> 'n) list option" where
  "ListAllMember Y 0 prefix node = None"
| "ListAllMember Y (Suc k) prefix node =
     (if \<not> valid_name prefix then Some []
      else if y_IsMap Y node then
        map_option (\<lambda>rs. (prefix, node) # concat rs)
          (those (map (\<lambda>it. ListAllMember Y k (sub_name prefix (fst it)) (snd it)) (y_entries Y node)))
      else Some [(prefix, node)])"

text \<open>One turn of the loop of \<open>LoadFromYaml\<close>.\<close>

definition load_node ::
  "'n yaml \<Rightarrow> (string \<Rightarrow> string \<Rightarrow> 'v outcome) \<Rightarrow> string \<times> 'n \<Rightarrow> ('v, 'c) hps_Config \<Rightarrow> ('v, 'c) hps_Config" where
  "load_node Y from_str i c =
     (if fst i = [] then c
      else let key = map tolower (fst i) in
        (case LookupBase key c of
           None \<Rightarrow> c
         | Some var \<Rightarrow>
             (case fromString from_str (if y_IsScalar Y (snd i) then y_Scalar Y (snd i) else y_emit Y (snd i)) var of
                ((var', calls), _) \<Rightarrow>
                  c\<lparr>cf_datas := (cf_datas c)(key \<mapsto> var'), cf_calls := cf_calls c @ calls\<rparr>)))"

definition LoadFromYaml ::
  "'n yaml \<Rightarrow> (string \<Rightarrow> string \<Rightarrow> 'v outcome) \<Rightarrow> nat \<Rightarrow> 'n \<Rightarrow> ('v, 'c) hps_Config \<Rightarrow> ('v, 'c) hps_Config option" where
  "LoadFromYaml Y from_str fuel root c =
     (case ListAllMember Y fuel [] root of
        None \<Rightarrow> None
      | Some all_nodes \<Rightarrow> Some (fold (load_node Y from_str) all_nodes c))"

end
