(* ===== verification/Hps_ConfigClaims.thy ===== *)
theory Hps_ConfigClaims
  imports Hps_Config
begin

text \<open>
  Configuration: which nodes a load visits and what it leaves in every variable, and that in no
  state a program can reach a variable has a listener.
\<close>

section \<open>Names\<close>

lemma valid_name_append: "valid_name (a @ b) \<longleftrightarrow> valid_name a \<and> valid_name b"
  by (simp add: valid_name_def)

lemma valid_sub_name: "valid_name (sub_name prefix key) \<Longrightarrow> valid_name prefix"
  by (cases "prefix = []") (simp_all add: sub_name_def valid_name_append, simp add: valid_name_def)

lemma tolower_valid: "c \<in> set name_chars \<Longrightarrow> tolower c = c"
  by (auto simp: name_chars_def tolower_def)

lemma map_tolower_valid: "valid_name n \<Longrightarrow> map tolower n = n"
  unfolding valid_name_def by (induction n) (auto simp: tolower_valid)

section \<open>The nodes a load visits\<close>

text \<open>All nodes below a node with their dotted names, in pre-order and without the test of names.\<close>

fun dotted :: "string \<Rightarrow> string \<Rightarrow> string" where
  "dotted [] key = key"
| "dotted (c # cs) key = (c # cs) @ CHR ''.'' # key"

lemma sub_name_dotted: "sub_name prefix key = dotted prefix key"
  by (cases prefix) (simp_all add: sub_name_def)

fun all_members :: "'n yaml \<Rightarrow> nat \<Rightarrow> string \<Rightarrow> 'n \<Rightarrow> (string \<times> 'n) list" where
  "all_members Y 0 prefix node = []"
| "all_members Y (Suc k) prefix node = (prefix, node) #
     (if y_IsMap Y node
      then concat (map (\<lambda>it. all_members Y k (dotted prefix (fst it)) (snd it)) (y_entries Y node)) else [])"

text \<open>The tree has no cycle: some rank goes down along the entries.\<close>

definition ranked :: "'n yaml \<Rightarrow> ('n \<Rightarrow> nat) \<Rightarrow> bool" where
  "ranked Y rank \<longleftrightarrow> (\<forall>n. list_all (\<lambda>it. rank (snd it) < rank n) (y_entries Y n))"

lemma all_members_invalid:
  assumes "\<not> valid_name prefix"
  shows "filter (\<lambda>m. valid_name (fst m)) (all_members Y k prefix node) = []"
  using assms
proof (induction k arbitrary: prefix node)
  case 0
  show ?case by simp
next
  case (Suc k)
  have "\<not> valid_name (dotted prefix key)" for key
    using Suc.prems valid_sub_name [of prefix key] by (auto simp: sub_name_dotted)
  with Suc show ?case by (simp add: filter_concat comp_def)
qed

lemma those_map_Some: "(\<And>x. x \<in> set xs \<Longrightarrow> f x = Some (g x)) \<Longrightarrow> those (map f xs) = Some (map g xs)"
  by (induction xs) simp_all

lemma ListAllMember_members:
  assumes "ranked Y rank" and "rank node < k"
  shows "ListAllMember Y k prefix node = Some (filter (\<lambda>m. valid_name (fst m)) (all_members Y k prefix node))"
  using assms(2)
proof (induction k arbitrary: prefix node)
  case 0
  then show ?case by simp
next
  case (Suc k)
  show ?case
  proof (cases "valid_name prefix")
    case False
    then show ?thesis using all_members_invalid [OF False, of Y "Suc k" node] by simp
  next
    case True
    have "ListAllMember Y k (sub_name prefix (fst it)) (snd it) =
        Some (filter (\<lambda>m. valid_name (fst m)) (all_members Y k (sub_name prefix (fst it)) (snd it)))"
      if "it \<in> set (y_entries Y node)" for it
    proof (rule Suc.IH)
      have "rank (snd it) < rank node" using assms(1) that by (auto simp: ranked_def list_all_iff)
      with Suc.prems show "rank (snd it) < k" by simp
    qed
    then show ?thesis using True by (simp add: those_map_Some filter_concat comp_def sub_name_dotted)
  qed
qed

section \<open>What a load leaves in a variable\<close>

definition node_text :: "'n yaml \<Rightarrow> 'n \<Rightarrow> string" where
  "node_text Y n = (if y_IsScalar Y n then y_Scalar Y n else y_emit Y n)"

text \<open>The values that the nodes of a given name convert to, in order, failures left out.\<close>

definition loaded_values ::
  "'n yaml \<Rightarrow> (string \<Rightarrow> string \<Rightarrow> 'v outcome) \<Rightarrow> string \<Rightarrow> string \<Rightarrow> (string \<times> 'n) list \<Rightarrow> 'v list" where
  "loaded_values Y from_str key ty ms =
     concat (map (\<lambda>m. if fst m = key then case from_str ty (node_text Y (snd m)) of Inr v \<Rightarrow> [v] | Inl _ \<Rightarrow> [] else []) ms)"

definition assign_last :: "'v list \<Rightarrow> ('v, 'c) hps_ConfigVar \<Rightarrow> ('v, 'c) hps_ConfigVar" where
  "assign_last vs x = x\<lparr>cv_val := last (cv_val x # vs)\<rparr>"

lemma assign_last_simps [simp]:
  "assign_last [] x = x" "cv_type (assign_last vs x) = cv_type x" "cv_cbs (assign_last vs x) = cv_cbs x"
  "cv_name (assign_last vs x) = cv_name x"
  "assign_last ws (assign_last vs x) = assign_last (vs @ ws) x"
  by (simp_all add: assign_last_def)

lemma fst_setValue: "fst (setValue v x) = assign_last [v] x"
  by (simp add: setValue_def assign_last_def)

lemma loaded_values_simps [simp]:
  "loaded_values Y from_str key ty [] = []"
  "loaded_values Y from_str key ty (m # ms) =
    loaded_values Y from_str key ty [m] @ loaded_values Y from_str key ty ms"
  by (simp_all add: loaded_values_def)

lemma load_node_datas:
  assumes "valid_name (fst m)"
  shows "cf_datas (load_node Y from_str m c) key =
    (if key = [] then cf_datas c key
     else map_option (\<lambda>x. assign_last (loaded_values Y from_str key (cv_type x) [m]) x) (cf_datas c key))"
  using map_tolower_valid [OF assms]
  by (cases "cf_datas c key"; cases "fst m = key")
    (auto simp: load_node_def LookupBase_def fromString_def loaded_values_def node_text_def Let_def
      simp flip: fst_setValue split: option.splits sum.splits prod.splits)

lemma load_nodes_datas:
  assumes "list_all (\<lambda>m. valid_name (fst m)) ms"
  shows "cf_datas (fold (load_node Y from_str) ms c) key =
    (if key = [] then cf_datas c key
     else map_option (\<lambda>x. assign_last (loaded_values Y from_str key (cv_type x) ms) x) (cf_datas c key))"
  using assms
proof (induction ms arbitrary: c)
  case Nil
  show ?case by (simp add: option.map_ident)
next
  case (Cons m ms)
  then show ?case
    by (simp add: load_node_datas option.map_comp comp_def del: loaded_values_simps(2))
      (simp add: loaded_values_def)
qed

lemma loaded_values_filter:
  "valid_name key \<Longrightarrow> loaded_values Y from_str key ty (filter (\<lambda>m. valid_name (fst m)) ms) = loaded_values Y from_str key ty ms"
  by (induction ms) (auto simp: loaded_values_def)

section \<open>Runs\<close>

datatype ('v, 'c, 'n) config_op =
    CLookup string string 'v string | CSetValue string 'v | CFromString string string
  | CAddListener string 'c | CDelListener string nat | CClearListener string | CLoad nat 'n

text \<open>A method of the variable with a given name.\<close>

definition on_var ::
  "string \<Rightarrow> (('v, 'c) hps_ConfigVar \<Rightarrow> ('v, 'c) hps_ConfigVar \<times> ('c \<times> 'v \<times> 'v) list) \<Rightarrow>
   ('v, 'c) hps_Config \<Rightarrow> ('v, 'c) hps_Config option" where
  "on_var name f c = map_option (\<lambda>x. c\<lparr>cf_datas := (cf_datas c)(name \<mapsto> fst (f x)),
     cf_calls := cf_calls c @ snd (f x)\<rparr>) (cf_datas c name)"

fun config_exec ::
  "'n yaml \<Rightarrow> (string \<Rightarrow> string \<Rightarrow> 'v outcome) \<Rightarrow> ('v, 'c, 'n) config_op \<Rightarrow> ('v, 'c) hps_Config \<Rightarrow>
   ('v, 'c) hps_Config option" where
  "config_exec Y from_str (CLookup n ty v d) c =
     (case Lookup_or_create n ty v d c of Inr r \<Rightarrow> Some (fst r) | Inl _ \<Rightarrow> Some c)"
| "config_exec Y from_str (CSetValue n v) c = on_var n (setValue v) c"
| "config_exec Y from_str (CFromString n t) c = on_var n (\<lambda>x. fst (fromString from_str t x)) c"
| "config_exec Y from_str (CAddListener n cb) c =
     map_option (\<lambda>x. fst (addListener cb (cv_type x) c)) (cf_datas c n)"
| "config_exec Y from_str (CDelListener n k) c = on_var n (\<lambda>x. (delListener k x, [])) c"
| "config_exec Y from_str (CClearListener n) c = on_var n (\<lambda>x. (clearListener x, [])) c"
| "config_exec Y from_str (CLoad k root) c = LoadFromYaml Y from_str k root c"

definition config_step ::
  "'n yaml \<Rightarrow> (string \<Rightarrow> string \<Rightarrow> 'v outcome) \<Rightarrow> ('v, 'c) hps_Config \<Rightarrow> ('v, 'c) hps_Config \<Rightarrow> bool" where
  "config_step Y from_str c d \<longleftrightarrow> (\<exists>op. config_exec Y from_str op c = Some d)"

definition config_inv :: "('v, 'c) hps_Config \<Rightarrow> bool" where
  "config_inv c \<longleftrightarrow> cf_calls c = [] \<and>
     (\<forall>n x. cf_datas c n = Some x \<longrightarrow> cv_cbs x = [] \<and> cv_name x = n \<and> valid_name n)"

lemma on_var_inv:
  assumes "config_inv c" and "on_var n f c = Some d"
    and "\<And>x. cv_cbs x = [] \<Longrightarrow> snd (f x) = [] \<and> cv_cbs (fst (f x)) = [] \<and> cv_name (fst (f x)) = cv_name x"
  shows "config_inv d"
proof -
  obtain x where x: "cf_datas c n = Some x"
    and d: "d = c\<lparr>cf_datas := (cf_datas c)(n \<mapsto> fst (f x)), cf_calls := cf_calls c @ snd (f x)\<rparr>"
    using assms(2) by (auto simp: on_var_def)
  have "cv_cbs x = []" "cv_name x = n" "valid_name n" using assms(1) x by (auto simp: config_inv_def)
  with assms(3) [of x] assms(1) show ?thesis by (simp add: d config_inv_def)
qed

lemma setValue_quiet:
  "cv_cbs x = [] \<Longrightarrow> snd (setValue v x) = [] \<and> cv_cbs (fst (setValue v x)) = [] \<and> cv_name (fst (setValue v x)) = cv_name x"
  by (simp add: setValue_def)

lemma fromString_quiet:
  "cv_cbs x = [] \<Longrightarrow> snd (fst (fromString from_str t x)) = [] \<and> cv_cbs (fst (fst (fromString from_str t x))) = []
    \<and> cv_name (fst (fst (fromString from_str t x))) = cv_name x"
  using setValue_quiet [of x] by (auto simp: fromString_def split: sum.splits)

lemma Lookup_or_create_inv:
  "config_inv c \<Longrightarrow> Lookup_or_create n ty v d c = Inr r \<Longrightarrow> config_inv (fst r)"
  by (auto simp: Lookup_or_create_def config_inv_def ConfigVar_new_def map_tolower_valid
      split: option.splits if_splits)

lemma load_node_on_var:
  assumes "fst m \<noteq> []" and "cf_datas c (map tolower (fst m)) = Some x"
  shows "on_var (map tolower (fst m)) (\<lambda>x. fst (fromString from_str (node_text Y (snd m)) x)) c
    = Some (load_node Y from_str m c)"
  using assms by (simp add: on_var_def load_node_def LookupBase_def node_text_def Let_def split: prod.split)

lemma load_node_inv:
  assumes "config_inv c"
  shows "config_inv (load_node Y from_str m c)"
proof (cases "fst m = [] \<or> cf_datas c (map tolower (fst m)) = None")
  case True
  with assms show ?thesis by (auto simp: load_node_def LookupBase_def)
next
  case False
  then obtain x where x: "fst m \<noteq> []" "cf_datas c (map tolower (fst m)) = Some x" by auto
  from on_var_inv [OF assms load_node_on_var [OF x]] fromString_quiet show ?thesis by blast
qed

lemma load_inv: "config_inv c \<Longrightarrow> config_inv (fold (load_node Y from_str) ms c)"
  by (induction ms arbitrary: c) (simp_all add: load_node_inv)

lemma config_exec_inv:
  assumes "config_inv c" and "config_exec Y from_str op c = Some d"
  shows "config_inv d"
proof (cases op)
  case (CLookup n ty v t)
  with assms Lookup_or_create_inv [OF assms(1)] show ?thesis by (auto split: sum.splits)
next
  case (CSetValue n v)
  with assms show ?thesis by (auto intro!: on_var_inv [OF assms(1)] simp: setValue_quiet)
next
  case (CFromString n t)
  with assms fromString_quiet show ?thesis by (auto intro!: on_var_inv [OF assms(1)])
next
  case (CAddListener n cb)
  with assms show ?thesis by (auto simp: addListener_def config_inv_def Let_def)
next
  case (CDelListener n k)
  with assms show ?thesis by (auto intro!: on_var_inv [OF assms(1)] simp: delListener_def)
next
  case (CClearListener n)
  with assms show ?thesis by (auto intro!: on_var_inv [OF assms(1)] simp: clearListener_def)
next
  case (CLoad k root)
  with assms show ?thesis by (auto simp: LoadFromYaml_def load_inv split: option.splits)
qed

lemma config_empty_inv: "config_inv Config_empty"
  by (simp add: config_inv_def Config_empty_def)

interpretation config: invariant_system "\<lambda>c. c = Config_empty" "config_step Y from_str" config_inv for Y from_str
  by unfold_locales (auto simp: config_step_def config_empty_inv intro: config_exec_inv)

section \<open>Types\<close>

text \<open>A typing of values, and the calls that respect it: \<open>T\<close> of a call is the type of its value.\<close>

fun typed_op :: "(string \<Rightarrow> 'v \<Rightarrow> bool) \<Rightarrow> ('v, 'c) hps_Config \<Rightarrow> ('v, 'c, 'n) config_op \<Rightarrow> bool" where
  "typed_op has_type c (CLookup n ty v d) = has_type ty v"
| "typed_op has_type c (CSetValue n v) = pred_option (\<lambda>x. has_type (cv_type x) v) (cf_datas c n)"
| "typed_op has_type c op = True"

definition typed_step ::
  "'n yaml \<Rightarrow> (string \<Rightarrow> string \<Rightarrow> 'v outcome) \<Rightarrow> (string \<Rightarrow> 'v \<Rightarrow> bool) \<Rightarrow>
   ('v, 'c) hps_Config \<Rightarrow> ('v, 'c) hps_Config \<Rightarrow> bool" where
  "typed_step Y from_str has_type c d \<longleftrightarrow>
     (\<exists>op. typed_op has_type c op \<and> config_exec Y from_str op c = Some d)"

definition typed_inv :: "(string \<Rightarrow> 'v \<Rightarrow> bool) \<Rightarrow> ('v, 'c) hps_Config \<Rightarrow> bool" where
  "typed_inv has_type c \<longleftrightarrow> (\<forall>n x. cf_datas c n = Some x \<longrightarrow> has_type (cv_type x) (cv_val x))"

lemma on_var_typed:
  assumes "typed_inv has_type c" and "on_var n f c = Some d"
    and "\<And>x. cf_datas c n = Some x \<Longrightarrow> has_type (cv_type x) (cv_val x) \<Longrightarrow>
      cv_type (fst (f x)) = cv_type x \<and> has_type (cv_type x) (cv_val (fst (f x)))"
  shows "typed_inv has_type d"
proof -
  obtain x where x: "cf_datas c n = Some x"
    and d: "d = c\<lparr>cf_datas := (cf_datas c)(n \<mapsto> fst (f x)), cf_calls := cf_calls c @ snd (f x)\<rparr>"
    using assms(2) by (auto simp: on_var_def)
  have "has_type (cv_type x) (cv_val x)" using assms(1) x by (auto simp: typed_inv_def)
  with assms(3) [OF x] assms(1) show ?thesis by (simp add: d typed_inv_def)
qed

lemma fromString_typed:
  assumes "\<And>ty t v. from_str ty t = Inr v \<Longrightarrow> has_type ty v" and "has_type (cv_type x) (cv_val x)"
  shows "cv_type (fst (fst (fromString from_str t x))) = cv_type x \<and>
    has_type (cv_type x) (cv_val (fst (fst (fromString from_str t x))))"
  using assms by (auto simp: fromString_def setValue_def split: sum.splits)

lemma load_node_typed:
  assumes "\<And>ty t v. from_str ty t = Inr v \<Longrightarrow> has_type ty v" and "typed_inv has_type c"
  shows "typed_inv has_type (load_node Y from_str m c)"
proof (cases "fst m = [] \<or> cf_datas c (map tolower (fst m)) = None")
  case True
  with assms(2) show ?thesis by (auto simp: load_node_def LookupBase_def)
next
  case False
  then obtain x where x: "fst m \<noteq> []" "cf_datas c (map tolower (fst m)) = Some x" by auto
  show ?thesis
    by (rule on_var_typed [OF assms(2) load_node_on_var [OF x]]) (rule fromString_typed [OF assms(1)])
qed

lemma load_typed:
  assumes "\<And>ty t v. from_str ty t = Inr v \<Longrightarrow> has_type ty v" and "typed_inv has_type c"
  shows "typed_inv has_type (fold (load_node Y from_str) ms c)"
  using assms(2) by (induction ms arbitrary: c) (auto intro: load_node_typed assms(1))

lemma typed_step_inv:
  assumes conv: "\<And>ty t v. from_str ty t = Inr v \<Longrightarrow> has_type ty v" and inv: "typed_inv has_type c"
    and op: "typed_op has_type c op" "config_exec Y from_str op c = Some d"
  shows "typed_inv has_type d"
proof (cases op)
  case (CLookup n ty v t)
  with op inv show ?thesis
    by (auto simp: Lookup_or_create_def ConfigVar_new_def typed_inv_def split: option.splits sum.splits if_splits)
next
  case (CSetValue n v)
  with op show ?thesis by (auto intro!: on_var_typed [OF inv, of n] simp: setValue_def)
next
  case (CFromString n t)
  with op have "on_var n (\<lambda>x. fst (fromString from_str t x)) c = Some d" by simp
  then show ?thesis by (rule on_var_typed [OF inv]) (rule fromString_typed [OF conv])
next
  case (CAddListener n cb)
  with op inv show ?thesis by (auto simp: addListener_def typed_inv_def Let_def)
next
  case (CDelListener n k)
  with op show ?thesis by (auto intro!: on_var_typed [OF inv, of n] simp: delListener_def)
next
  case (CClearListener n)
  with op show ?thesis by (auto intro!: on_var_typed [OF inv, of n] simp: clearListener_def)
next
  case (CLoad k root)
  with op show ?thesis by (auto simp: LoadFromYaml_def intro!: load_typed conv inv split: option.splits)
qed

lemma typed_runs:
  assumes conv: "\<And>ty t v. from_str ty t = Inr v \<Longrightarrow> has_type ty v"
    and "(typed_step Y from_str has_type)\<^sup>*\<^sup>* Config_empty c"
  shows "typed_inv has_type c"
  using assms(2)
proof (induction rule: rtranclp_induct)
  case base
  show ?case by (simp add: typed_inv_def Config_empty_def)
next
  case (step c d)
  then show ?case by (auto simp: typed_step_def intro: typed_step_inv [OF conv])
qed

section \<open>Properties\<close>

text \<open>
  C36: What \<open>LoadFromYaml\<close> does. If the tree has no cycle and the fuel exceeds its rank, the load
  returns. A variable then has the value of the last node with its name, in pre-order, whose
  text converts to its type, and its old value if there is none; nodes whose dotted name has a
  character outside the alphabet, and all below them, have no effect; no variable is created or
  removed.
\<close>

theorem load_assigns_last_convertible:
  assumes "ranked Y rank" and "rank root < k"
  shows "\<exists>d. LoadFromYaml Y from_str k root c = Some d \<and>
    cf_datas d key =
      (if key = [] \<or> \<not> valid_name key then cf_datas c key
       else map_option (\<lambda>x. x\<lparr>cv_val := last (cv_val x #
         loaded_values Y from_str key (cv_type x) (all_members Y k [] root))\<rparr>) (cf_datas c key))"
proof -
  let ?ms = "filter (\<lambda>m. valid_name (fst m)) (all_members Y k [] root)"
  have valid: "list_all (\<lambda>m. valid_name (fst m)) ?ms" by (simp add: list_all_iff)
  have none: "loaded_values Y from_str key ty ?ms = []" if "\<not> valid_name key" for ty
    using that by (auto simp: loaded_values_def)
  show ?thesis
    unfolding LoadFromYaml_def ListAllMember_members [OF assms]
    using load_nodes_datas [OF valid, of Y from_str c key]
    by (cases "cf_datas c key"; cases "valid_name key")
      (auto simp: none loaded_values_filter assign_last_def)
qed

text \<open>
  A change of a variable notifies nobody. \<open>addListener\<close> returns a fresh number but does not
  store the callback, so in every state reachable from the empty registry, whatever was added,
  set or loaded, no variable has a listener and no listener was ever called.
\<close>

theorem listeners_are_never_called:
  assumes "(config_step Y from_str)\<^sup>*\<^sup>* Config_empty c"
  shows "cf_calls c = [] \<and> pred_option (\<lambda>x. getListener k x = None) (cf_datas c n)"
proof -
  have "config_inv c" by (rule config.reachable_inv [OF _ assms]) simp
  then show ?thesis by (cases "cf_datas c n") (auto simp: config_inv_def getListener_def)
qed


section \<open>Instances\<close>

datatype sample_node = Leaf string | Node "(string \<times> sample_node) list"

definition sample_yaml :: "sample_node yaml" where
  "sample_yaml = \<lparr>y_IsMap = (\<lambda>n. case n of Node _ \<Rightarrow> True | Leaf _ \<Rightarrow> False),
     y_entries = (\<lambda>n. case n of Node es \<Rightarrow> es | Leaf _ \<Rightarrow> []),
     y_IsScalar = (\<lambda>n. case n of Leaf _ \<Rightarrow> True | Node _ \<Rightarrow> False),
     y_Scalar = (\<lambda>n. case n of Leaf s \<Rightarrow> s | Node _ \<Rightarrow> []),
     y_emit = (\<lambda>n. case n of Leaf s \<Rightarrow> s | Node _ \<Rightarrow> ''{}'')\<rparr>"

lemma sample_ranked: "ranked sample_yaml size"
proof -
  have "it \<in> set es \<Longrightarrow> size (snd it) < size (Node es)" for it es
    by (induction es) auto
  then show ?thesis by (auto simp: ranked_def sample_yaml_def list_all_iff split: sample_node.split)
qed

text \<open>Numbers written in unary, everything else does not convert.\<close>

definition sample_from :: "string \<Rightarrow> string \<Rightarrow> nat outcome" where
  "sample_from ty t = (if list_all (\<lambda>c. c = CHR ''1'') t then Inr (length t) else Inl (Thrown ''bad_lexical_cast''))"

definition sample_root :: sample_node where
  "sample_root = Node [(''tcp'', Node [(''port'', Leaf ''11''), (''x9'', Leaf ''1'')]), (''tcp.port'', Leaf ''1x'')]"

definition sample_config :: "(nat, unit) hps_Config" where
  "sample_config = \<lparr>cf_datas = [''tcp.port'' \<mapsto> ConfigVar_new ''tcp.port'' ''nat'' 0 []], cf_fun_id = (\<lambda>_. 0), cf_calls = []\<rparr>"

theorem load_assigns_last_convertible_witness:
  "\<exists>d. LoadFromYaml sample_yaml sample_from 20 sample_root sample_config = Some d \<and>
     map_option cv_val (cf_datas d ''tcp.port'') = Some 2"
proof -
  have "size sample_root < 20" by (simp add: sample_root_def)
  from load_assigns_last_convertible [OF sample_ranked this, of sample_from sample_config "''tcp.port''"]
  show ?thesis
    by (auto simp: sample_config_def sample_root_def sample_yaml_def loaded_values_def sample_from_def
        ConfigVar_new_def node_text_def valid_name_def name_chars_def sub_name_def numeral_eq_Suc)
qed

theorem listeners_are_never_called_witness:
  "\<exists>c. config_exec sample_yaml sample_from (CSetValue ''tcp.port'' 7) (fst (addListener () ''nat'' sample_config)) = Some c
     \<and> map_option cv_val (cf_datas c ''tcp.port'') = Some 7 \<and> cf_calls c = []"
proof -
  let ?step = "config_step sample_yaml sample_from :: (nat, unit) hps_Config \<Rightarrow> _"
  let ?c1 = "fst (addListener () ''nat'' sample_config)"
  let ?c2 = "?c1\<lparr>cf_datas := (cf_datas ?c1)(''tcp.port'' \<mapsto> (ConfigVar_new ''tcp.port'' ''nat'' 0 [])\<lparr>cv_val := 7\<rparr>)\<rparr>"
  have "config_exec sample_yaml sample_from (CLookup ''tcp.port'' ''nat'' 0 []) Config_empty = Some sample_config"
    by (simp add: Lookup_or_create_def Config_empty_def sample_config_def valid_name_def name_chars_def)
  then have 1: "?step Config_empty sample_config" unfolding config_step_def by blast
  have "config_exec sample_yaml sample_from (CAddListener ''tcp.port'' ()) sample_config = Some ?c1"
    by (simp add: sample_config_def ConfigVar_new_def)
  then have 2: "?step sample_config ?c1" unfolding config_step_def by blast
  have set: "config_exec sample_yaml sample_from (CSetValue ''tcp.port'' 7) ?c1 = Some ?c2"
    by (simp add: sample_config_def ConfigVar_new_def on_var_def addListener_def setValue_def)
  then have 3: "?step ?c1 ?c2" unfolding config_step_def by blast
  from 1 2 3 have "?step\<^sup>*\<^sup>* Config_empty ?c2" by simp
  from listeners_are_never_called [OF this] set show ?thesis by simp
qed


end
