(* ===== verification/Hps_FiberStack.thy ===== *)
theory Hps_FiberStack
  imports Hps_FiberProps Hps_ConfigClaims
begin

text \<open>
  The stack memory of fibers (hps_sf/fiber.cpp) together with the configuration variable that
  gives its default size (hps_sf/config.h): fiber.cpp registers \<open>fiber.stack_size\<close> as a
  \<open>uint32_t\<close> variable, the constructor reads it when it is given no size, and allocates a block
  that the destructor frees. A world holds the registry, the fibers, where each fiber's
  \<open>m_stack\<close> points, and the blocks of the heap that are allocated for stacks. \<open>malloc\<close> is taken to
  succeed; the address it picks is an argument.
\<close>

section \<open>Data\<close>

text \<open>A value of a configuration variable: of type \<open>uint32_t\<close>, or of any other type.\<close>

datatype 'x cfg_value = U32 u32 | Other 'x

record ('x, 'c, 'cb) stack_world =
  sw_config :: "('x cfg_value, 'c) hps_Config"
  sw_fibers :: "'cb fiber_world"
  sw_stack :: "nat \<Rightarrow> nat option"
  sw_heap :: "nat \<Rightarrow> u32 option"

section \<open>The variable\<close>

text \<open>The initialisation of \<open>g_fiber_stack_size\<close>.\<close>

definition stack_size_name :: string where
  "stack_size_name = ''fiber.stack_size''"

definition register_stack_size ::
  "('x cfg_value, 'c) hps_Config \<Rightarrow> (('x cfg_value, 'c) hps_Config \<times> string option) outcome" where
  "register_stack_size c =
     Lookup_or_create stack_size_name ''uint32_t'' (U32 (1024 * 1024)) ''fiber stack size'' c"

definition getValue :: "('v, 'c) hps_ConfigVar \<Rightarrow> 'v" where
  "getValue x = cv_val x"

text \<open>
  \<open>g_fiber_stack_size->getValue()\<close>: undefined if the pointer is null, or if the variable does
  not hold what its type says.
\<close>

definition configured_stack_size :: "('x cfg_value, 'c) hps_Config \<Rightarrow> u32 outcome" where
  "configured_stack_size c =
     obind (deref (Lookup stack_size_name ''uint32_t'' c) ''g_fiber_stack_size'') (\<lambda>x.
       case getValue x of U32 n \<Rightarrow> Inr n | Other _ \<Rightarrow> Inl (Undefined ''not a uint32_t''))"

section \<open>The allocator\<close>

definition StackAlloctor_Alloc :: "nat \<Rightarrow> u32 \<Rightarrow> (nat \<Rightarrow> u32 option) \<Rightarrow> (nat \<Rightarrow> u32 option)" where
  "StackAlloctor_Alloc vp sz h = h(vp \<mapsto> sz)"

text \<open>Freeing what is not allocated is undefined; the size is not used.\<close>

definition StackAlloctor_Dealloc :: "nat \<Rightarrow> (nat \<Rightarrow> u32 option) \<Rightarrow> (nat \<Rightarrow> u32 option) outcome" where
  "StackAlloctor_Dealloc vp h =
     (case h vp of None \<Rightarrow> Inl (Undefined ''free'') | Some _ \<Rightarrow> Inr (h(vp := None)))"

section \<open>Constructor and destructor with their stack\<close>

text \<open>
  \<open>hps_Fiber(cb, statcksize, use_caller)\<close>: the variable is read only for the size 0; \<open>vp\<close> is
  the address \<open>malloc\<close> returns.
\<close>

definition stack_Fiber_new ::
  "nat \<Rightarrow> nat \<Rightarrow> 'cb option \<Rightarrow> u64 \<Rightarrow> bool \<Rightarrow> ('x, 'c, 'cb) stack_world \<Rightarrow> ('x, 'c, 'cb) stack_world outcome"
where
  "stack_Fiber_new a vp cb statcksize use_caller w =
     obind (if statcksize \<noteq> 0 then Inr 0 else configured_stack_size (sw_config w)) (\<lambda>cfg.
       let fw = Fiber_new a cb statcksize use_caller cfg (sw_fibers w) in
       obind (deref (fw_objs fw a) ''this'') (\<lambda>f.
         Inr (w\<lparr>sw_fibers := fw, sw_stack := (sw_stack w)(a \<mapsto> vp),
                sw_heap := StackAlloctor_Alloc vp (f_stacksize f) (sw_heap w)\<rparr>)))"

text \<open>\<open>~hps_Fiber\<close>: the block is freed if \<open>m_stack\<close> is not null.\<close>

definition stack_Fiber_delete ::
  "int \<Rightarrow> nat \<Rightarrow> ('x, 'c, 'cb) stack_world \<Rightarrow> ('x, 'c, 'cb) stack_world outcome" where
  "stack_Fiber_delete tid a w =
     obind (Fiber_delete tid a (sw_fibers w)) (\<lambda>fw.
       case sw_stack w a of
         None \<Rightarrow> Inr (w\<lparr>sw_fibers := fw\<rparr>)
       | Some vp \<Rightarrow> obind (StackAlloctor_Dealloc vp (sw_heap w)) (\<lambda>h.
           Inr (w\<lparr>sw_fibers := fw, sw_stack := (sw_stack w)(a := None), sw_heap := h\<rparr>)))"

section \<open>Runs\<close>

text \<open>
  The operations of a program on the registry and on fibers, in any order and on any thread;
  \<open>SFiber\<close> is a fiber operation that neither creates an object with a stack nor destroys one.
\<close>

datatype ('x, 'c, 'n, 'cb) stack_op =
    SConfig "('x cfg_value, 'c, 'n) config_op"
  | SNew nat nat "'cb option" u64 bool
  | SDelete nat
  | SFiber "'cb fiber_op"

fun stack_exec ::
  "'n yaml \<Rightarrow> (string \<Rightarrow> string \<Rightarrow> 'x cfg_value outcome) \<Rightarrow> int \<Rightarrow> ('x, 'c, 'n, 'cb) stack_op \<Rightarrow>
   ('x, 'c, 'cb) stack_world \<Rightarrow> ('x, 'c, 'cb) stack_world outcome" where
  "stack_exec Y from_str tid (SConfig op) w =
     obind (deref (config_exec Y from_str op (sw_config w)) ''config'') (\<lambda>c. Inr (w\<lparr>sw_config := c\<rparr>))"
| "stack_exec Y from_str tid (SNew a vp cb ss uc) w = stack_Fiber_new a vp cb ss uc w"
| "stack_exec Y from_str tid (SDelete a) w = stack_Fiber_delete tid a w"
| "stack_exec Y from_str tid (SFiber op) w =
     obind (fiber_exec tid op (sw_fibers w)) (\<lambda>fw. Inr (w\<lparr>sw_fibers := fw\<rparr>))"

text \<open>The C++ type of a value; \<open>other\<close> types the values of other types.\<close>

fun cfg_type :: "(string \<Rightarrow> 'x \<Rightarrow> bool) \<Rightarrow> string \<Rightarrow> 'x cfg_value \<Rightarrow> bool" where
  "cfg_type other ty (U32 n) = (ty = ''uint32_t'')"
| "cfg_type other ty (Other x) = (ty \<noteq> ''uint32_t'' \<and> other ty x)"

text \<open>Legal: as for fibers, and calls on the registry are well typed and \<open>malloc\<close> returns free memory.\<close>

fun stack_legal ::
  "(string \<Rightarrow> 'x \<Rightarrow> bool) \<Rightarrow> int \<Rightarrow> ('x, 'c, 'n, 'cb) stack_op \<Rightarrow> ('x, 'c, 'cb) stack_world \<Rightarrow> bool" where
  "stack_legal other tid (SConfig op) w = typed_op (cfg_type other) (sw_config w) op"
| "stack_legal other tid (SNew a vp cb ss uc) w =
     (fiber_legal tid (ONew a cb ss uc 0) (sw_fibers w) \<and> sw_heap w vp = None)"
| "stack_legal other tid (SDelete a) w = fiber_legal tid (ODelete a) (sw_fibers w)"
| "stack_legal other tid (SFiber op) w =
     (fiber_legal tid op (sw_fibers w) \<and>
      (case op of ONew _ _ _ _ _ \<Rightarrow> False | ODelete _ \<Rightarrow> False | _ \<Rightarrow> True))"

definition stack_step ::
  "'n yaml \<Rightarrow> (string \<Rightarrow> string \<Rightarrow> 'x cfg_value outcome) \<Rightarrow> (string \<Rightarrow> 'x \<Rightarrow> bool) \<Rightarrow>
   ('x, 'c, 'cb) stack_world \<Rightarrow> ('x, 'c, 'cb) stack_world \<Rightarrow> bool" where
  "stack_step Y from_str other w w' \<longleftrightarrow>
     (\<exists>tid op. stack_legal other tid op w \<and> stack_exec Y from_str tid op w = Inr w')"

text \<open>The start of the program: the static initialiser ran on the empty registry.\<close>

definition stack_start :: "('x, 'c, 'cb) stack_world" where
  "stack_start =
     \<lparr>sw_config = (case register_stack_size Config_empty of Inr r \<Rightarrow> fst r | Inl _ \<Rightarrow> Config_empty),
      sw_fibers = fiber_world_init, sw_stack = Map.empty, sw_heap = Map.empty\<rparr>"

section \<open>Which blocks belong to which fibers\<close>

text \<open>The stack size of each fiber that has a stack.\<close>

definition stacks :: "'cb fiber_world \<Rightarrow> nat \<Rightarrow> u32 option" where
  "stacks fw a =
     (case fw_objs fw a of None \<Rightarrow> None | Some f \<Rightarrow> if f_stack f then Some (f_stacksize f) else None)"

definition owned :: "(nat \<Rightarrow> u32 option) \<Rightarrow> (nat \<Rightarrow> nat option) \<Rightarrow> (nat \<Rightarrow> u32 option) \<Rightarrow> bool" where
  "owned S M H \<longleftrightarrow> (\<forall>a. M a = None \<longrightarrow> S a = None) \<and>
     (\<forall>a p. M a = Some p \<longrightarrow> S a = H p \<and> H p \<noteq> None) \<and> (\<forall>p n. H p = Some n \<longrightarrow> (\<exists>a. M a = Some p)) \<and>
     (\<forall>a b p. M a = Some p \<longrightarrow> M b = Some p \<longrightarrow> a = b)"

lemma owned_dest:
  assumes "owned S M H"
  shows "M a = None \<Longrightarrow> S a = None" and "M a = Some p \<Longrightarrow> S a = H p" and "M a = Some p \<Longrightarrow> H p \<noteq> None"
    and "H p = Some n \<Longrightarrow> \<exists>a. M a = Some p" and "M a = Some p \<Longrightarrow> M b = Some p \<Longrightarrow> a = b"
  using assms unfolding owned_def by blast+

lemma owned_new:
  assumes own: "owned S M H" and fresh: "M a = None" "H p = None"
  shows "owned (S(a \<mapsto> n)) (M(a \<mapsto> p)) (H(p \<mapsto> n))"
proof -
  have "M b \<noteq> Some p" for b using owned_dest(3) [OF own] fresh(2) by metis
  then show ?thesis
    unfolding owned_def using owned_dest [OF own] fresh by (simp, metis option.distinct(1))
qed

lemma owned_free:
  assumes own: "owned S M H" and M: "M a = Some p"
  shows "owned (S(a := None)) (M(a := None)) (H(p := None))"
proof -
  have only: "M b = Some p \<longleftrightarrow> b = a" for b using owned_dest(5) [OF own] M by blast
  have "\<exists>b. b \<noteq> a \<and> M b = Some q" if "H q = Some n" "q \<noteq> p" for q n
    using owned_dest(4) [OF own that(1)] that(2) M by (metis option.inject)
  then show ?thesis
    unfolding owned_def using owned_dest [OF own] only by (simp, metis option.inject)
qed

lemma owned_block:
  assumes own: "owned S M H"
  shows "H p = Some n \<longleftrightarrow> (\<exists>!a. M a = Some p \<and> S a = Some n)"
    and "S a \<noteq> None \<longleftrightarrow> M a \<noteq> None"
proof -
  show "S a \<noteq> None \<longleftrightarrow> M a \<noteq> None"
    using owned_dest(1-3) [OF own] by (cases "M a") auto
  show "H p = Some n \<longleftrightarrow> (\<exists>!a. M a = Some p \<and> S a = Some n)"
  proof
    assume H: "H p = Some n"
    with owned_dest(4) [OF own] obtain a where "M a = Some p" by blast
    with H owned_dest(2,5) [OF own] show "\<exists>!a. M a = Some p \<and> S a = Some n" by metis
  next
    assume "\<exists>!a. M a = Some p \<and> S a = Some n"
    with owned_dest(2) [OF own] show "H p = Some n" by metis
  qed
qed

section \<open>Fiber operations and stacks\<close>

lemma stacks_upd [simp]:
  assumes "\<And>f. f_stack (g f) = f_stack f" and "\<And>f. f_stacksize (g f) = f_stacksize f"
  shows "stacks (upd_fiber c g w) = stacks w"
  by (rule ext) (simp add: stacks_def assms split: option.split)

lemma stacks_cong: "fw_objs w' = fw_objs w \<Longrightarrow> stacks w' = stacks w"
  by (simp add: stacks_def fun_eq_iff)

lemma stacks_SetThis [simp]: "stacks (SetThis tid p w) = stacks w"
  by (rule stacks_cong) simp

lemma context_saved:
  assumes "(case k of Running \<Rightarrow> Inl e | AtNeverReach \<Rightarrow> Inl e' | _ \<Rightarrow> r) = Inr y"
  obtains "r = Inr y"
  using assms by (cases k) auto

lemma stacks_swapcontext: "swapcontext tid from to k w = Inr w' \<Longrightarrow> stacks w' = stacks w"
proof -
  assume sw: "swapcontext tid from to k w = Inr w'"
  let ?w1 = "upd_fiber from (\<lambda>f. f\<lparr>f_ctx := k\<rparr>) w"
  have "fw_objs w' = fw_objs (upd_fiber to (\<lambda>f. f\<lparr>f_ctx := Running\<rparr>) ?w1)"
    using sw
    by (auto simp: swapcontext_def Let_def outcome_simps upd_fiber_def elim!: context_saved)
  then have "stacks w' = stacks (upd_fiber to (\<lambda>f. f\<lparr>f_ctx := Running\<rparr>) ?w1)" by (rule stacks_cong)
  then show ?thesis by simp
qed

lemma after_cb_stack [simp]: "f_stacksize (after_cb e f) = f_stacksize f"
  by (auto simp: after_cb_def split: cb_end.split)

lemma stacks_switch:
  "swapIn tid a w = Inr w' \<Longrightarrow> stacks w' = stacks w"
  "swapOut tid a k w = Inr w' \<Longrightarrow> stacks w' = stacks w"
  "Fiber_call tid a w = Inr w' \<Longrightarrow> stacks w' = stacks w"
  "Fiber_back tid a k w = Inr w' \<Longrightarrow> stacks w' = stacks w"
  by (auto simp: swapIn_def swapOut_def Fiber_call_def Fiber_back_def Let_def outcome_simps
      dest!: stacks_swapcontext)

lemma stacks_run_slice:
  assumes "run_slice s tid a w = Inr w'" and "t_fiber (fw_tls w tid) = Some q"
  shows "stacks w' = stacks w"
proof -
  have cur: "w1 = w" if "GetThis tid a w = Inr (p, w1)" for p w1
    using GetThis_running [OF that assms(2)] by simp
  obtain p w1 g k where this_ok: "GetThis tid a w = Inr (p, w1)"
    and out: "swapOut tid p k (upd_fiber p g w1) = Inr w'"
    and g: "\<And>f. f_stack (g f) = f_stack f \<and> f_stacksize (g f) = f_stacksize f"
  proof (cases s)
    case SReady
    with assms(1) that show thesis
      by (auto simp: run_slice_def YieldToReady_def YieldTo_def obind_eq_Inr)
  next
    case SHold
    with assms(1) that show thesis
      by (auto simp: run_slice_def YieldToHold_def YieldTo_def obind_eq_Inr)
  next
    case SOut
    have "upd_fiber p (\<lambda>f. f) v = v" for p and v :: "'a fiber_world" by (simp add: upd_fiber_def option.map_ident)
    with SOut assms(1) that [of _ _ _ "\<lambda>f. f"] show thesis by (auto simp: run_slice_def obind_eq_Inr)
  next
    case (SEnd e)
    with assms(1) that show thesis by (auto simp: run_slice_def MainFunc_def obind_eq_Inr)
  qed
  have "stacks w' = stacks (upd_fiber p g w1)" using out by (rule stacks_switch)
  then show ?thesis using g cur [OF this_ok] by simp
qed

lemma stacks_caller_end:
  assumes "CallerMainFunc e tid a w = Inr w'" and "t_fiber (fw_tls w tid) = Some q"
  shows "stacks w' = stacks w"
proof -
  obtain p w1 where this_ok: "GetThis tid a w = Inr (p, w1)"
    and "Fiber_back tid p AtNeverReach (upd_fiber p (after_cb e) w1) = Inr w'"
    using assms(1) by (auto simp: CallerMainFunc_def obind_eq_Inr)
  then have "stacks w' = stacks (upd_fiber p (after_cb e) w1)" by (intro stacks_switch)
  then show ?thesis using GetThis_running [OF this_ok assms(2)] by simp
qed

lemma stacks_GetThis:
  assumes "GetThis tid a w = Inr (p, w')" and "fw_objs w a = None"
  shows "stacks w' = stacks w"
proof (cases "t_fiber (fw_tls w tid)")
  case None
  with assms(1) have w': "w' = upd_tls tid (\<lambda>t. t\<lparr>t_threadFiber := Some a\<rparr>) (Fiber_main_new tid a w)"
    by (auto simp: GetThis_def Let_def HPS_ASSERT_eq_Inr)
  show ?thesis
    by (simp add: w' stacks_def fun_eq_iff Fiber_main_new_def Let_def SetThis_def upd_tls_def assms(2))
next
  case (Some q)
  with GetThis_running [OF assms(1) Some] show ?thesis by simp
qed

lemma stacks_exec:
  assumes inv: "fiber_inv w" and legal: "stack_legal other tid (SFiber op) (w' :: ('x, 'c, 'cb) stack_world)"
    and "sw_fibers w' = w" and ex: "fiber_exec tid op w = Inr fw"
  shows "stacks fw = stacks w"
proof (cases "\<exists>s a e. op = OSlice s a \<or> op = OCallerEnd e a")
  case True
  then obtain s a e where op: "op = OSlice s a \<or> op = OCallerEnd e a" by auto
  then have "\<exists>q. t_fiber (fw_tls w tid) = Some q"
    using inv legal assms(3) by (auto simp: fiber_inv_def)
  then obtain q where "t_fiber (fw_tls w tid) = Some q" ..
  with op ex show ?thesis by (auto dest: stacks_run_slice stacks_caller_end)
next
  case False
  with ex legal assms(3) show ?thesis
    by (cases op) (auto simp: Fiber_reset_def outcome_simps dest: stacks_switch stacks_GetThis)
qed

lemma ucast_size_t: "ucast (ucast n :: u64) = (n :: u32)"
  by (rule bit_word_eqI) (auto simp: bit_simps)

lemma stacks_new: "stacks (Fiber_new a cb ss uc cfg w) = (stacks w)(a \<mapsto> if ss \<noteq> 0 then ucast ss else cfg)"
  by (simp add: stacks_def Fiber_new_def fun_eq_iff ucast_size_t)

lemma stacks_delete:
  assumes "Fiber_delete tid a w = Inr w'"
  shows "stacks w' = (stacks w)(a := None)"
  using assms
  by (auto simp: Fiber_delete_def Let_def outcome_simps stacks_def fun_eq_iff SetThis_def upd_tls_def split: if_splits)

section \<open>The variable stays\<close>

definition has_var :: "string \<Rightarrow> string \<Rightarrow> ('v, 'c) hps_Config \<Rightarrow> bool" where
  "has_var n ty c = (case cf_datas c n of None \<Rightarrow> False | Some x \<Rightarrow> cv_type x = ty)"

lemma has_var_on_var:
  assumes "on_var m f c = Some d" and "\<And>x. cv_type (fst (f x)) = cv_type x" and "has_var n ty c"
  shows "has_var n ty d"
proof -
  obtain z where "cf_datas c m = Some z" and "d = c\<lparr>cf_datas := (cf_datas c)(m \<mapsto> fst (f z)), cf_calls := cf_calls c @ snd (f z)\<rparr>"
    using assms(1) by (auto simp: on_var_def)
  with assms(2,3) show ?thesis by (cases "m = n") (auto simp: has_var_def)
qed

lemma cv_type_kept [simp]:
  "cv_type (fst (setValue v x)) = cv_type x"
  "cv_type (fst (fst (fromString from_str t x))) = cv_type x"
  by (auto simp: setValue_def fromString_def split: sum.splits)

lemma has_var_load_node:
  assumes "has_var n ty c"
  shows "has_var n ty (load_node Y from_str m c)"
proof (cases "fst m = [] \<or> cf_datas c (map tolower (fst m)) = None")
  case True
  with assms show ?thesis by (auto simp: load_node_def LookupBase_def)
next
  case False
  then obtain x where x: "fst m \<noteq> []" "cf_datas c (map tolower (fst m)) = Some x" by auto
  show ?thesis by (rule has_var_on_var [OF load_node_on_var [OF x]]) (simp_all add: assms)
qed

lemma has_var_fold: "has_var n ty c \<Longrightarrow> has_var n ty (fold (load_node Y from_str) ms c)"
  by (induction ms arbitrary: c) (simp_all add: has_var_load_node)

lemma has_var_exec:
  assumes "has_var n ty c" and "config_exec Y from_str op c = Some d"
  shows "has_var n ty d"
proof (cases op)
  case (CLookup m ty' v t)
  with assms show ?thesis
    by (auto simp: Lookup_or_create_def has_var_def split: option.splits sum.splits if_splits)
next
  case (CAddListener m cb)
  with assms show ?thesis by (auto simp: addListener_def has_var_def Let_def)
next
  case (CLoad k root)
  with assms show ?thesis by (auto simp: LoadFromYaml_def has_var_fold split: option.splits)
qed (use assms in \<open>auto elim!: has_var_on_var simp: delListener_def clearListener_def\<close>)

lemma configured_stack_size_ok:
  assumes "typed_inv (cfg_type other) c" and "has_var stack_size_name ''uint32_t'' c"
  shows "\<exists>x n. cf_datas c stack_size_name = Some x \<and> cv_type x = ''uint32_t'' \<and> cv_val x = U32 n \<and>
    configured_stack_size c = Inr n"
proof -
  obtain x where x: "cf_datas c stack_size_name = Some x" "cv_type x = ''uint32_t''"
    using assms(2) by (auto simp: has_var_def split: option.splits)
  moreover have "cfg_type other ''uint32_t'' (cv_val x)" using assms(1) x by (force simp: typed_inv_def)
  then obtain n where "cv_val x = U32 n" by (cases "cv_val x") auto
  ultimately show ?thesis by (simp add: configured_stack_size_def Lookup_def getValue_def)
qed

section \<open>The invariant\<close>

text \<open>A conversion gives a value of the type it converts to.\<close>

definition typed_conversion :: "(string \<Rightarrow> string \<Rightarrow> 'x cfg_value outcome) \<Rightarrow> (string \<Rightarrow> 'x \<Rightarrow> bool) \<Rightarrow> bool" where
  "typed_conversion from_str other \<longleftrightarrow> (\<forall>ty t v. from_str ty t = Inr v \<longrightarrow> cfg_type other ty v)"

definition stack_inv ::
  "(string \<Rightarrow> string \<Rightarrow> 'x cfg_value outcome) \<Rightarrow> (string \<Rightarrow> 'x \<Rightarrow> bool) \<Rightarrow> ('x, 'c, 'cb) stack_world \<Rightarrow> bool" where
  "stack_inv from_str other w \<longleftrightarrow> typed_conversion from_str other \<and>
     typed_inv (cfg_type other) (sw_config w) \<and> has_var stack_size_name ''uint32_t'' (sw_config w) \<and>
     fiber_inv (sw_fibers w) \<and> owned (stacks (sw_fibers w)) (sw_stack w) (sw_heap w)"

lemma stack_start_simps [simp]:
  "sw_fibers stack_start = fiber_world_init" "sw_stack stack_start = Map.empty" "sw_heap stack_start = Map.empty"
  "cf_datas (sw_config stack_start) stack_size_name =
    Some (ConfigVar_new stack_size_name ''uint32_t'' (U32 1048576) ''fiber stack size'')"
  "n \<noteq> stack_size_name \<Longrightarrow> cf_datas (sw_config stack_start) n = None"
  by (simp_all add: stack_start_def register_stack_size_def Lookup_or_create_def Config_empty_def
      stack_size_name_def valid_name_def name_chars_def)

lemma stack_start_inv:
  assumes "typed_conversion from_str other"
  shows "stack_inv from_str other stack_start"
proof -
  have "cfg_type other (cv_type x) (cv_val x)" if "cf_datas (sw_config stack_start) n = Some x" for n x
    using that by (cases "n = stack_size_name") (auto simp: ConfigVar_new_def)
  then have "typed_inv (cfg_type other) (sw_config stack_start)" unfolding typed_inv_def by blast
  moreover have "has_var stack_size_name ''uint32_t'' (sw_config stack_start)"
    by (simp add: has_var_def ConfigVar_new_def)
  moreover have "owned (stacks fiber_world_init) Map.empty Map.empty"
    by (simp add: owned_def stacks_def fiber_world_init_def)
  ultimately show ?thesis by (simp add: stack_inv_def assms fiber_inv_init)
qed

lemma stack_Fiber_new_ok:
  assumes "configured_stack_size (sw_config w) = Inr n"
  shows "stack_Fiber_new a vp cb ss uc w =
    Inr (w\<lparr>sw_fibers := Fiber_new a cb ss uc (if ss \<noteq> 0 then 0 else n) (sw_fibers w),
           sw_stack := (sw_stack w)(a \<mapsto> vp),
           sw_heap := (sw_heap w)(vp \<mapsto> if ss \<noteq> 0 then ucast ss else n)\<rparr>)"
  using assms by (simp add: stack_Fiber_new_def Fiber_new_def StackAlloctor_Alloc_def Let_def ucast_size_t)

lemma stack_inv_size:
  assumes "stack_inv from_str other w"
  obtains x n where "cf_datas (sw_config w) stack_size_name = Some x" and "cv_type x = ''uint32_t''"
    and "cv_val x = U32 n" and "configured_stack_size (sw_config w) = Inr n"
  using configured_stack_size_ok [of other "sw_config w"] assms by (auto simp: stack_inv_def)

lemma stack_new_inv:
  assumes inv: "stack_inv from_str other w" and legal: "stack_legal other tid (SNew a vp cb ss uc) w"
    and ex: "stack_Fiber_new a vp cb ss uc w = Inr w'"
  shows "stack_inv from_str other w'"
proof -
  obtain n where "configured_stack_size (sw_config w) = Inr n" using stack_inv_size [OF inv] by metis
  note new = stack_Fiber_new_ok [OF this, of a vp cb ss uc]
  have "stacks (sw_fibers w) a = None" using legal by (simp add: stacks_def)
  then have "sw_stack w a = None"
    using inv owned_block(2) [of "stacks (sw_fibers w)" "sw_stack w" "sw_heap w" a] by (auto simp: stack_inv_def)
  then have "owned ((stacks (sw_fibers w))(a \<mapsto> if ss \<noteq> 0 then ucast ss else n)) ((sw_stack w)(a \<mapsto> vp))
      ((sw_heap w)(vp \<mapsto> if ss \<noteq> 0 then ucast ss else n))"
    using inv legal by (intro owned_new) (auto simp: stack_inv_def)
  moreover have "fiber_inv (Fiber_new a cb ss uc cfg (sw_fibers w))" for cfg
    using inv legal by (intro Fiber_new_inv [of _ tid]) (auto simp: stack_inv_def)
  ultimately show ?thesis
    using ex new inv by (auto simp: stack_inv_def stacks_new)
qed

lemma stack_delete_ok:
  assumes inv: "stack_inv from_str other w" and del: "Fiber_delete tid a (sw_fibers w) = Inr fw"
  shows "stack_Fiber_delete tid a w = Inr (w\<lparr>sw_fibers := fw, sw_stack := (sw_stack w)(a := None),
    sw_heap := (case sw_stack w a of None \<Rightarrow> sw_heap w | Some vp \<Rightarrow> (sw_heap w)(vp := None))\<rparr>)"
proof -
  have own: "owned (stacks (sw_fibers w)) (sw_stack w) (sw_heap w)" using inv by (simp add: stack_inv_def)
  show ?thesis
  proof (cases "sw_stack w a")
    case None
    then have "(sw_stack w)(a := None) = sw_stack w" by (simp add: fun_upd_idem)
    then show ?thesis using None del by (simp add: stack_Fiber_delete_def)
  next
    case (Some vp)
    with owned_dest(3) [OF own Some] show ?thesis
      using del by (auto simp: stack_Fiber_delete_def StackAlloctor_Dealloc_def)
  qed
qed

lemma stack_delete_inv:
  assumes inv: "stack_inv from_str other w" and legal: "stack_legal other tid (SDelete a) w"
    and ex: "stack_Fiber_delete tid a w = Inr w'"
  shows "stack_inv from_str other w'"
proof -
  obtain fw where del: "Fiber_delete tid a (sw_fibers w) = Inr fw"
    using ex by (auto simp: stack_Fiber_delete_def obind_eq_Inr)
  have own: "owned (stacks (sw_fibers w)) (sw_stack w) (sw_heap w)" using inv by (simp add: stack_inv_def)
  have "owned ((stacks (sw_fibers w))(a := None)) ((sw_stack w)(a := None))
      (case sw_stack w a of None \<Rightarrow> sw_heap w | Some vp \<Rightarrow> (sw_heap w)(vp := None))"
  proof (cases "sw_stack w a")
    case None
    with own owned_dest(1) [OF own None] show ?thesis by (simp add: fun_upd_idem)
  next
    case (Some vp)
    with owned_free [OF own Some] show ?thesis by simp
  qed
  moreover have "fiber_inv fw"
    using inv legal by (intro Fiber_delete_inv [OF _ del]) (auto simp: stack_inv_def)
  ultimately show ?thesis
    using ex inv stack_delete_ok [OF inv del] by (auto simp: stack_inv_def stacks_delete [OF del])
qed

lemma stack_exec_inv:
  assumes inv: "stack_inv from_str other w" and legal: "stack_legal other tid op w"
    and ex: "stack_exec Y from_str tid op w = Inr w'"
  shows "stack_inv from_str other w'"
proof (cases op)
  case (SConfig cop)
  with ex obtain c where c: "config_exec Y from_str cop (sw_config w) = Some c" and w': "w' = w\<lparr>sw_config := c\<rparr>"
    by (auto simp: outcome_simps)
  have "typed_inv (cfg_type other) c"
    by (rule typed_step_inv [OF _ _ _ c])
      (use inv legal SConfig in \<open>auto simp: stack_inv_def typed_conversion_def\<close>)
  moreover have "has_var stack_size_name ''uint32_t'' c"
    by (rule has_var_exec [OF _ c]) (use inv in \<open>simp add: stack_inv_def\<close>)
  ultimately show ?thesis using inv by (simp add: w' stack_inv_def)
next
  case (SNew a vp cb ss uc)
  with assms stack_new_inv [of from_str other w tid a vp cb ss uc] show ?thesis by simp
next
  case (SDelete a)
  with assms stack_delete_inv [of from_str other w tid a] show ?thesis by simp
next
  case (SFiber fop)
  with ex obtain fw where fw: "fiber_exec tid fop (sw_fibers w) = Inr fw" and w': "w' = w\<lparr>sw_fibers := fw\<rparr>"
    by (auto simp: outcome_simps)
  have finv: "fiber_inv (sw_fibers w)" using inv by (simp add: stack_inv_def)
  have "stacks fw = stacks (sw_fibers w)"
    by (rule stacks_exec [OF finv _ refl fw]) (use legal SFiber in simp)
  moreover have "fiber_inv fw"
    by (rule fiber_exec_inv [OF finv _ fw]) (use legal SFiber in simp)
  ultimately show ?thesis using inv by (simp add: w' stack_inv_def)
qed

interpretation stack_runs: invariant_system
  "\<lambda>w. w = stack_start \<and> typed_conversion from_str other" "stack_step Y from_str other" "stack_inv from_str other"
  for Y from_str other
  by unfold_locales (auto simp: stack_start_inv stack_step_def intro: stack_exec_inv)

section \<open>Properties\<close>

text \<open>
  C12: Stack memory. Whatever the program does with its configuration and its fibers, in any
  order and on any threads: every block allocated for a stack belongs to exactly one live fiber and
  has the size in its \<open>m_statcksize\<close>, a live fiber has a block iff it was made with a stack (no
  leak, no sharing), and destroying a fiber never frees a block that is not allocated: it
  fails exactly when one of the destructor's assertions does. Creating a fiber never
  fails: the variable is always registered and always holds a \<open>uint32_t\<close>.
\<close>

theorem every_stack_has_one_owner:
  fixes w :: "('x, 'c, 'cb) stack_world"
  assumes "typed_conversion from_str other" and "(stack_step Y from_str other)\<^sup>*\<^sup>* stack_start w"
  shows "(sw_heap w p = Some n \<longleftrightarrow> (\<exists>!a. sw_stack w a = Some p \<and>
      map_option (\<lambda>f. (f_stack f, f_stacksize f)) (fw_objs (sw_fibers w) a) = Some (True, n))) \<and>
    pred_option (\<lambda>f. f_stack f = (sw_stack w a \<noteq> None)) (fw_objs (sw_fibers w) a) \<and>
    map_sum id sw_fibers (stack_exec Y from_str tid (SDelete a) w) = fiber_exec tid (ODelete a) (sw_fibers w) \<and>
    is_ok (stack_exec Y from_str tid (SNew a vp cb ss uc) w)"
proof (intro conjI)
  have inv: "stack_inv from_str other w" using stack_runs.reachable_inv assms by blast
  then have own: "owned (stacks (sw_fibers w)) (sw_stack w) (sw_heap w)" by (simp add: stack_inv_def)
  have stack: "map_option (\<lambda>f. (f_stack f, f_stacksize f)) (fw_objs (sw_fibers w) a) = Some (True, n)
      \<longleftrightarrow> stacks (sw_fibers w) a = Some n" for a n
    by (auto simp: stacks_def split: option.split)
  show "sw_heap w p = Some n \<longleftrightarrow> (\<exists>!a. sw_stack w a = Some p \<and>
      map_option (\<lambda>f. (f_stack f, f_stacksize f)) (fw_objs (sw_fibers w) a) = Some (True, n))"
    unfolding stack by (rule owned_block(1) [OF own])
  show "pred_option (\<lambda>f. f_stack f = (sw_stack w a \<noteq> None)) (fw_objs (sw_fibers w) a)"
    using owned_block(2) [OF own, of a]
    by (cases "fw_objs (sw_fibers w) a") (auto simp: stacks_def split: if_splits)
  show "map_sum id sw_fibers (stack_exec Y from_str tid (SDelete a) w) = fiber_exec tid (ODelete a) (sw_fibers w)"
  proof (cases "Fiber_delete tid a (sw_fibers w)")
    case (Inl e)
    then show ?thesis by (simp add: stack_Fiber_delete_def)
  next
    case (Inr fw)
    with stack_delete_ok [OF inv Inr] show ?thesis by simp
  qed
  obtain m where "configured_stack_size (sw_config w) = Inr m" using stack_inv_size [OF inv] by metis
  then show "is_ok (stack_exec Y from_str tid (SNew a vp cb ss uc) w)"
    by (simp add: stack_Fiber_new_ok is_ok_def)
qed

text \<open>
  C13: From the configuration file to the stack. In any reachable world, loading a document (a
  tree without cycles) and then creating a fiber succeeds, and the new fiber's block has the size asked
  for (truncated to 32 bits), or, for the size 0, the value of the last node of the document
  named \<open>fiber.stack_size\<close> that converts to a \<open>uint32_t\<close>, or the value the variable had before
  if there is none; it is 1048576 at the start. The blocks of the fibers that exist
  keep their size.
\<close>

theorem loaded_stack_size_is_used:
  fixes w :: "('x, 'c, 'cb) stack_world"
  assumes "typed_conversion from_str other" and "(stack_step Y from_str other)\<^sup>*\<^sup>* stack_start w"
    and "ranked Y rank" and "rank root < k"
  shows "configured_stack_size (sw_config (stack_start :: ('x, 'c, 'cb) stack_world)) = Inr 1048576 \<and>
    (\<exists>old new w1 w2. configured_stack_size (sw_config w) = Inr old \<and>
      U32 new = last (U32 old # loaded_values Y from_str ''fiber.stack_size'' ''uint32_t'' (all_members Y k [] root)) \<and>
      stack_exec Y from_str tid (SConfig (CLoad k root)) w = Inr w1 \<and>
      stack_exec Y from_str tid (SNew a vp cb ss uc) w1 = Inr w2 \<and>
      sw_stack w2 a = Some vp \<and>
      sw_heap w2 = (sw_heap w)(vp \<mapsto> if ss = 0 then new else ucast ss))"
proof (intro conjI)
  show "configured_stack_size (sw_config (stack_start :: ('x, 'c, 'cb) stack_world)) = Inr 1048576"
    by (simp add: configured_stack_size_def Lookup_def getValue_def ConfigVar_new_def)
  let ?ms = "filter (\<lambda>m. valid_name (fst m)) (all_members Y k [] root)"
  let ?vs = "loaded_values Y from_str stack_size_name ''uint32_t'' (all_members Y k [] root)"
  let ?c = "fold (load_node Y from_str) ?ms (sw_config w)"
  have name: "stack_size_name \<noteq> []" "valid_name stack_size_name"
    by (simp_all add: stack_size_name_def valid_name_def name_chars_def)
  have inv: "stack_inv from_str other w" using stack_runs.reachable_inv assms(1,2) by blast
  obtain x old where x: "cf_datas (sw_config w) stack_size_name = Some x" "cv_type x = ''uint32_t''"
      "cv_val x = U32 old" "configured_stack_size (sw_config w) = Inr old"
    using stack_inv_size [OF inv] by metis
  have valid: "list_all (\<lambda>m. valid_name (fst m)) ?ms" by (simp add: list_all_iff)
  have load: "stack_exec Y from_str tid (SConfig (CLoad k root)) w = Inr (w\<lparr>sw_config := ?c\<rparr>)"
    by (simp add: LoadFromYaml_def ListAllMember_members [OF assms(3,4)])
  have loaded: "cf_datas ?c stack_size_name = Some (assign_last ?vs x)"
    using x name by (simp add: load_nodes_datas [OF valid] loaded_values_filter)
  have "stack_inv from_str other (w\<lparr>sw_config := ?c\<rparr>)"
    by (rule stack_exec_inv [OF inv _ load]) simp
  then obtain new where new: "configured_stack_size ?c = Inr new" "cv_val (assign_last ?vs x) = U32 new"
    using stack_inv_size [of from_str other "w\<lparr>sw_config := ?c\<rparr>"] loaded by auto
  have "U32 new = last (U32 old # ?vs)" using new(2) x(3) by (simp add: assign_last_def)
  then show "\<exists>old new w1 w2. configured_stack_size (sw_config w) = Inr old \<and>
      U32 new = last (U32 old # loaded_values Y from_str ''fiber.stack_size'' ''uint32_t'' (all_members Y k [] root)) \<and>
      stack_exec Y from_str tid (SConfig (CLoad k root)) w = Inr w1 \<and>
      stack_exec Y from_str tid (SNew a vp cb ss uc) w1 = Inr w2 \<and>
      sw_stack w2 a = Some vp \<and>
      sw_heap w2 = (sw_heap w)(vp \<mapsto> if ss = 0 then new else ucast ss)"
    using load new(1) x(4) unfolding stack_size_name_def
    by (intro exI [of _ old] exI [of _ new] exI conjI) (auto simp: stack_Fiber_new_ok simp del: last.simps)
qed

section \<open>Instances\<close>

text \<open>A document with a stack size, written in unary as before, and no values of other types.\<close>

definition unary_u32 :: "string \<Rightarrow> string \<Rightarrow> unit cfg_value outcome" where
  "unary_u32 ty t =
     (if ty = ''uint32_t'' \<and> list_all (\<lambda>c. c = CHR ''1'') t then Inr (U32 (of_nat (length t)))
      else Inl (Thrown ''bad_lexical_cast''))"

lemma unary_typed: "typed_conversion unary_u32 (\<lambda>_ _. False)"
  by (auto simp: typed_conversion_def unary_u32_def split: if_splits)

definition stack_doc :: sample_node where
  "stack_doc = Node [(''fiber'', Node [(''stack_size'', Leaf ''111'')])]"

definition one_fiber :: "(unit, unit, nat) stack_world" where
  "one_fiber = stack_start\<lparr>sw_fibers := Fiber_new 7 (Some 1) 4096 False 0 fiber_world_init,
     sw_stack := [7 \<mapsto> 100], sw_heap := [100 \<mapsto> 4096]\<rparr>"

lemma one_fiber_new: "stack_exec sample_yaml unary_u32 0 (SNew 7 100 (Some 1) 4096 False) stack_start = Inr one_fiber"
  by (simp add: stack_Fiber_new_def one_fiber_def StackAlloctor_Alloc_def Fiber_new_def Let_def)

lemma one_fiber_reachable: "(stack_step sample_yaml unary_u32 (\<lambda>_ _. False))\<^sup>*\<^sup>* stack_start one_fiber"
proof (rule r_into_rtranclp)
  have "stack_legal (\<lambda>_ _. False) 0 (SNew 7 100 (Some 1) 4096 False) stack_start"
    by (simp add: fiber_world_init_def)
  then show "stack_step sample_yaml unary_u32 (\<lambda>_ _. False) stack_start one_fiber"
    using one_fiber_new unfolding stack_step_def by blast
qed

theorem every_stack_has_one_owner_witness:
  "sw_heap one_fiber 100 = Some 4096 \<and> (\<exists>!a. sw_stack one_fiber a = Some 100 \<and>
      map_option (\<lambda>f. (f_stack f, f_stacksize f)) (fw_objs (sw_fibers one_fiber) a) = Some (True, 4096))"
proof -
  have "sw_heap one_fiber 100 = Some 4096" by (simp add: one_fiber_def)
  with every_stack_has_one_owner [OF unary_typed one_fiber_reachable, of 100 4096] show ?thesis by simp
qed

theorem loaded_stack_size_is_used_witness:
  "\<exists>w1 w2. stack_exec sample_yaml unary_u32 0 (SConfig (CLoad 20 stack_doc)) one_fiber = Inr w1 \<and>
     stack_exec sample_yaml unary_u32 0 (SNew 8 200 None 0 True) w1 = Inr w2 \<and>
     sw_heap w2 = [100 \<mapsto> 4096, 200 \<mapsto> 3]"
proof -
  have rank: "size stack_doc < 20" by (simp add: stack_doc_def)
  have vs: "loaded_values sample_yaml unary_u32 ''fiber.stack_size'' ''uint32_t''
      (all_members sample_yaml 20 [] stack_doc) = [U32 3]"
    by (simp add: loaded_values_def stack_doc_def sample_yaml_def node_text_def unary_u32_def numeral_eq_Suc)
  show ?thesis
    using loaded_stack_size_is_used [OF unary_typed one_fiber_reachable sample_ranked rank,
        of 0 8 200 None 0 True]
    unfolding vs by (auto simp: one_fiber_def)
qed

end
