(* ===== verification/Hps_Scheduler.thy ===== *)
theory Hps_Scheduler
  imports Hps_Fiber
begin

text \<open>
  hps_sf/scheduler.h and hps_sf/scheduler.cpp: the fiber scheduler. The scheduler object is a
  record, its queue a list, its critical sections atomic. \<open>hps_Scheduler::run\<close> is cut at the
  points where other threads can interfere: taking an entry, the tickle, the switch into a
  fiber, the way back, the bookkeeping after it; every thread that is inside \<open>run\<close> has its
  locals and its place in that loop. What a fiber does between the switch into it and the
  switch back is a \<open>slice\<close> of Hps_Fiber, chosen by the caller.
\<close>

section \<open>Data\<close>

text \<open>The functions fibers are made for: \<open>run\<close> (root fiber), \<open>idle\<close>, the user's.\<close>

datatype 'cb fn = FnRun | FnIdle | FnUser 'cb

record 'cb hps_FiberAndThread =
  ft_fiber :: "nat option"
  ft_cb :: "'cb fn option"
  ft_thread :: int

text \<open>What can be scheduled: a fiber pointer or a function, either possibly empty.\<close>

datatype 'cb fiber_or_cb = FcFiber "nat option" | FcCb "'cb fn option"

fun FiberAndThread_new :: "'cb fiber_or_cb \<Rightarrow> int \<Rightarrow> 'cb hps_FiberAndThread" where
  "FiberAndThread_new (FcFiber f) thr = \<lparr>ft_fiber = f, ft_cb = None, ft_thread = thr\<rparr>"
| "FiberAndThread_new (FcCb f) thr = \<lparr>ft_fiber = None, ft_cb = f, ft_thread = thr\<rparr>"

text \<open>The constructors that take a pointer swap the pointed-to value with an empty one.\<close>

fun FiberAndThread_swap ::
  "'cb fiber_or_cb \<Rightarrow> int \<Rightarrow> 'cb hps_FiberAndThread \<times> 'cb fiber_or_cb" where
  "FiberAndThread_swap (FcFiber f) thr =
     (\<lparr>ft_fiber = f, ft_cb = None, ft_thread = thr\<rparr>, FcFiber None)"
| "FiberAndThread_swap (FcCb f) thr =
     (\<lparr>ft_fiber = None, ft_cb = f, ft_thread = thr\<rparr>, FcCb None)"

definition FiberAndThread_reset :: "'cb hps_FiberAndThread" where
  "FiberAndThread_reset = \<lparr>ft_fiber = None, ft_cb = None, ft_thread = -1\<rparr>"

record 'cb hps_Scheduler =
  m_fibers :: "'cb hps_FiberAndThread list"
  m_threads :: "int list"
  m_rootFiber :: "nat option"
  m_name :: string
  m_threadIds :: "int list"
  m_threadCount :: u64
  m_activeThreadCount :: u64
  m_idleThreadCount :: u64
  m_stopping :: bool
  m_autoStop :: bool
  m_rootThread :: int

text \<open>
  The places of \<open>run\<close>: loop top (taking an entry), the tickle, the choice of the branch,
  inside a fiber (of the queue, for a callback, idle), just back from it, after the counter
  was decremented, and out of the loop.
\<close>

datatype branch = BFiber | BCb | BIdle

datatype loop_pc = LTop | LTickle | LBranch | LIn branch | LBack branch | LAfter branch | LDone

record 'cb run_local =
  l_pc :: loop_pc
  l_idle_fiber :: nat
  l_cb_fiber :: "nat option"
  l_ft :: "'cb hps_FiberAndThread"
  l_tickle_me :: bool
  l_is_active :: bool

text \<open>
  The whole: the scheduler, the fibers, the per-thread \<open>t_scheduler == this\<close> and hook flags,
  the number of \<open>tickle()\<close> calls, the value of \<open>fiber.stack_size\<close>, the threads inside \<open>run\<close>.
\<close>

record 'cb sched_world =
  sw_sched :: "'cb hps_Scheduler"
  sw_fw :: "'cb fn fiber_world"
  sw_t_scheduler :: "int \<Rightarrow> bool"
  sw_hook :: "int \<Rightarrow> bool"
  sw_tickles :: nat
  sw_stack_size :: u32
  sw_run :: "int \<Rightarrow> 'cb run_local option"

definition upd_sched ::
  "('cb hps_Scheduler \<Rightarrow> 'cb hps_Scheduler) \<Rightarrow> 'cb sched_world \<Rightarrow> 'cb sched_world" where
  "upd_sched g w = w\<lparr>sw_sched := g (sw_sched w)\<rparr>"

definition set_run :: "int \<Rightarrow> 'cb run_local \<Rightarrow> 'cb sched_world \<Rightarrow> 'cb sched_world" where
  "set_run tid l w = w\<lparr>sw_run := (sw_run w)(tid \<mapsto> l)\<rparr>"

section \<open>Scheduling\<close>

text \<open>The base class's \<open>tickle\<close> only logs; the calls are counted.\<close>

definition tickle :: "'cb sched_world \<Rightarrow> 'cb sched_world" where
  "tickle w = w\<lparr>sw_tickles := Suc (sw_tickles w)\<rparr>"

text \<open>\<open>scheduleNoLock\<close>, for an entry its constructor has built.\<close>

definition scheduleNoLock ::
  "'cb hps_FiberAndThread \<Rightarrow> 'cb hps_Scheduler \<Rightarrow> bool \<times> 'cb hps_Scheduler" where
  "scheduleNoLock ft s =
     (let need_tickle = (m_fibers s = []) in
      (need_tickle,
       if ft_fiber ft \<noteq> None \<or> ft_cb ft \<noteq> None then s\<lparr>m_fibers := m_fibers s @ [ft]\<rparr> else s))"

definition schedule :: "'cb fiber_or_cb \<Rightarrow> int \<Rightarrow> 'cb sched_world \<Rightarrow> 'cb sched_world" where
  "schedule fc thread w =
     (case scheduleNoLock (FiberAndThread_new fc thread) (sw_sched w) of
        (need_tickle, s) \<Rightarrow>
          let w1 = w\<lparr>sw_sched := s\<rparr> in if need_tickle then tickle w1 else w1)"

text \<open>The loop of the iterator overload; the elements it has passed are left empty.\<close>

fun schedule_loop ::
  "'cb fiber_or_cb list \<Rightarrow> bool \<Rightarrow> 'cb hps_Scheduler \<Rightarrow>
     bool \<times> 'cb fiber_or_cb list \<times> 'cb hps_Scheduler" where
  "schedule_loop [] need_tickle s = (need_tickle, [], s)"
| "schedule_loop (fc # fcs) need_tickle s =
     (case FiberAndThread_swap fc (-1) of (ft, fc') \<Rightarrow>
      case scheduleNoLock ft s of (t, s') \<Rightarrow>
      case schedule_loop fcs (t \<or> need_tickle) s' of (n, fcs', s'') \<Rightarrow> (n, fc' # fcs', s''))"

definition schedule_range ::
  "'cb fiber_or_cb list \<Rightarrow> 'cb sched_world \<Rightarrow> 'cb fiber_or_cb list \<times> 'cb sched_world" where
  "schedule_range fcs w =
     (case schedule_loop fcs False (sw_sched w) of
        (need_tickle, fcs', s) \<Rightarrow>
          let w1 = w\<lparr>sw_sched := s\<rparr> in (fcs', if need_tickle then tickle w1 else w1))"

section \<open>Construction, destruction, start, stop\<close>

definition stopping :: "'cb hps_Scheduler \<Rightarrow> bool" where
  "stopping s \<longleftrightarrow> m_autoStop s \<and> m_stopping s \<and> m_fibers s = [] \<and> m_activeThreadCount s = 0"

definition hasIdleThreads :: "'cb hps_Scheduler \<Rightarrow> bool" where
  "hasIdleThreads s \<longleftrightarrow> 0 < m_idleThreadCount s"

definition setThis :: "int \<Rightarrow> 'cb sched_world \<Rightarrow> 'cb sched_world" where
  "setThis tid w = w\<lparr>sw_t_scheduler := (sw_t_scheduler w)(tid := True)\<rparr>"

definition Scheduler_fields :: "string \<Rightarrow> 'cb hps_Scheduler" where
  "Scheduler_fields name =
     \<lparr>m_fibers = [], m_threads = [], m_rootFiber = None, m_name = name, m_threadIds = [],
      m_threadCount = 0, m_activeThreadCount = 0, m_idleThreadCount = 0,
      m_stopping = True, m_autoStop = False, m_rootThread = 0\<rparr>"

text \<open>
  The constructor on thread \<open>tid\<close>; \<open>other\<close> says whether the thread already has a scheduler,
  \<open>a\<close> and \<open>r\<close> are the addresses for a main fiber and for the root fiber.
\<close>

definition Scheduler_new ::
  "int \<Rightarrow> bool \<Rightarrow> nat \<Rightarrow> nat \<Rightarrow> u64 \<Rightarrow> bool \<Rightarrow> string \<Rightarrow> 'cb sched_world \<Rightarrow> 'cb sched_world outcome" where
  "Scheduler_new tid other a r threads use_caller name w =
     (let w0 = w\<lparr>sw_sched := Scheduler_fields name\<rparr> in
      HPS_ASSERT (0 < threads) ''threads > 0''
        (if use_caller then
           obind (GetThis tid a (sw_fw w0)) (\<lambda>(_, fw1).
           HPS_ASSERT (\<not> other) ''GetThis() == nullptr''
             (let fw2 = Fiber_new r (Some FnRun) 0 True (sw_stack_size w0) fw1;
                  fw3 = upd_tls tid (\<lambda>t. t\<lparr>t_scheduler_fiber := Some r\<rparr>) fw2 in
              Inr (upd_sched (\<lambda>s. s\<lparr>m_rootFiber := Some r, m_rootThread := tid,
                                     m_threadIds := m_threadIds s @ [tid],
                                     m_threadCount := threads - 1\<rparr>)
                    ((setThis tid w0)\<lparr>sw_fw := fw3\<rparr>))))
         else
           Inr (upd_sched (\<lambda>s. s\<lparr>m_rootThread := -1, m_threadCount := threads\<rparr>) w0)))"

definition Scheduler_delete :: "int \<Rightarrow> 'cb sched_world \<Rightarrow> 'cb sched_world outcome" where
  "Scheduler_delete tid w =
     HPS_ASSERT (m_stopping (sw_sched w)) ''m_stopping''
       (Inr (w\<lparr>sw_t_scheduler := (sw_t_scheduler w)(tid := False)\<rparr>))"

text \<open>
  \<open>start\<close>: \<open>ids\<close> are the values \<open>getId()\<close> returns for the \<open>m_threadCount\<close> new threads, read
  right after their constructors.
\<close>

definition Scheduler_start :: "int list \<Rightarrow> 'cb hps_Scheduler \<Rightarrow> 'cb hps_Scheduler outcome" where
  "Scheduler_start ids s =
     (if \<not> m_stopping s then Inr s
      else
        let s1 = s\<lparr>m_stopping := False\<rparr> in
        HPS_ASSERT (m_threads s1 = []) ''m_threads.empty()''
          (Inr (s1\<lparr>m_threads := take (unat (m_threadCount s1)) ids,
                   m_threadIds := m_threadIds s1 @ take (unat (m_threadCount s1)) ids\<rparr>)))"

text \<open>
  \<open>stop\<close> up to the point where it returns, switches to the root fiber or goes on to join the
  threads; then the join.
\<close>

datatype stop_next = StopReturned | StopInRoot | StopJoin

definition root_at_rest :: "'cb sched_world \<Rightarrow> bool" where
  "root_at_rest w \<longleftrightarrow>
     (case m_rootFiber (sw_sched w) of
        None \<Rightarrow> False
      | Some r \<Rightarrow> m_threadCount (sw_sched w) = 0 \<and>
          (case fw_objs (sw_fw w) r of
             None \<Rightarrow> False
           | Some f \<Rightarrow> f_state f = TERM' \<or> f_state f = INIT))"

definition stop_begin :: "int \<Rightarrow> 'cb sched_world \<Rightarrow> (stop_next \<times> 'cb sched_world) outcome" where
  "stop_begin tid w =
     (let w1 = upd_sched (\<lambda>s. s\<lparr>m_autoStop := True\<rparr>) w;
          w2 = (if root_at_rest w1 then upd_sched (\<lambda>s. s\<lparr>m_stopping := True\<rparr>) w1 else w1) in
      if root_at_rest w1 \<and> stopping (sw_sched w2) then Inr (StopReturned, w2)
      else
        HPS_ASSERT (if m_rootThread (sw_sched w2) \<noteq> -1 then sw_t_scheduler w2 tid
                    else \<not> sw_t_scheduler w2 tid) ''GetThis() == this''
          (let w3 = upd_sched (\<lambda>s. s\<lparr>m_stopping := True\<rparr>) w2;
               w4 = (tickle ^^ unat (m_threadCount (sw_sched w3))) w3 in
           case m_rootFiber (sw_sched w4) of
             None \<Rightarrow> Inr (StopJoin, w4)
           | Some r \<Rightarrow>
               let w5 = tickle w4 in
               if \<not> stopping (sw_sched w5) then
                 obind (Fiber_call tid r (sw_fw w5)) (\<lambda>fw. Inr (StopInRoot, w5\<lparr>sw_fw := fw\<rparr>))
               else Inr (StopJoin, w5)))"

text \<open>The threads are taken out of the scheduler under the lock and joined in order.\<close>

definition stop_join :: "'cb hps_Scheduler \<Rightarrow> int list \<times> 'cb hps_Scheduler" where
  "stop_join s = (m_threads s, s\<lparr>m_threads := []\<rparr>)"

section \<open>The worker loop\<close>

text \<open>
  Entering \<open>run\<close> on thread \<open>tid\<close>: \<open>a\<close> is the address for a main fiber, \<open>i\<close> for the idle fiber.
\<close>

definition run_enter :: "int \<Rightarrow> nat \<Rightarrow> nat \<Rightarrow> 'cb sched_world \<Rightarrow> 'cb sched_world outcome" where
  "run_enter tid a i w =
     (let w1 = setThis tid w;
          w2 = w1\<lparr>sw_hook := (sw_hook w1)(tid := True)\<rparr> in
      obind (if tid \<noteq> m_rootThread (sw_sched w2) then
               obind (GetThis tid a (sw_fw w2)) (\<lambda>(p, fw).
                 Inr (upd_tls tid (\<lambda>t. t\<lparr>t_scheduler_fiber := Some p\<rparr>) fw))
             else Inr (sw_fw w2)) (\<lambda>fw.
      Inr (set_run tid
        \<lparr>l_pc = LTop, l_idle_fiber = i, l_cb_fiber = None, l_ft = FiberAndThread_reset,
         l_tickle_me = False, l_is_active = False\<rparr>
        (w2\<lparr>sw_fw := Fiber_new i (Some FnIdle) 0 False (sw_stack_size w2) fw\<rparr>))))"

text \<open>
  The inner loop over the queue, under the lock: the entry taken (if any), \<open>tickle_me\<close>, and the
  queue without that entry.
\<close>

fun pick ::
  "(nat \<Rightarrow> 'cb fn hps_Fiber option) \<Rightarrow> int \<Rightarrow> 'cb hps_FiberAndThread list \<Rightarrow>
     ('cb hps_FiberAndThread option \<times> bool \<times> 'cb hps_FiberAndThread list) outcome" where
  "pick objs tid [] = Inr (None, False, [])"
| "pick objs tid (it # q) =
     (if ft_thread it \<noteq> -1 \<and> ft_thread it \<noteq> tid then
        obind (pick objs tid q) (\<lambda>(r, _, q'). Inr (r, True, it # q'))
      else
        HPS_ASSERT (ft_fiber it \<noteq> None \<or> ft_cb it \<noteq> None) ''it -> fiber || it -> cb''
          (case ft_fiber it of
             Some a \<Rightarrow> obind (deref (objs a) ''it -> fiber'') (\<lambda>f.
               if f_state f = EXEC then
                 obind (pick objs tid q) (\<lambda>(r, t, q'). Inr (r, t, it # q'))
               else Inr (Some it, False, q))
           | None \<Rightarrow> Inr (Some it, False, q)))"

definition run_pick :: "int \<Rightarrow> 'cb run_local \<Rightarrow> 'cb sched_world \<Rightarrow> 'cb sched_world outcome" where
  "run_pick tid l w =
     obind (pick (fw_objs (sw_fw w)) tid (m_fibers (sw_sched w))) (\<lambda>(r, t, q).
       case r of
         None \<Rightarrow>
           Inr (set_run tid (l\<lparr>l_pc := LTickle, l_ft := FiberAndThread_reset,
                               l_tickle_me := t, l_is_active := False\<rparr>)
                 (upd_sched (\<lambda>s. s\<lparr>m_fibers := q\<rparr>) w))
       | Some ft \<Rightarrow>
           Inr (set_run tid (l\<lparr>l_pc := LTickle, l_ft := ft, l_tickle_me := t, l_is_active := True\<rparr>)
                 (upd_sched (\<lambda>s. s\<lparr>m_fibers := q,
                                   m_activeThreadCount := m_activeThreadCount s + 1\<rparr>) w)))"

definition run_tickle :: "int \<Rightarrow> 'cb run_local \<Rightarrow> 'cb sched_world \<Rightarrow> 'cb sched_world" where
  "run_tickle tid l w =
     set_run tid (l\<lparr>l_pc := LBranch\<rparr>) (if l_tickle_me l then tickle w else w)"

text \<open>The guard of the first branch, as written: \<open>state != TERM || state != EXCEPT\<close>.\<close>

definition fiber_guard :: "State \<Rightarrow> bool" where
  "fiber_guard st \<longleftrightarrow> st \<noteq> TERM' \<or> st \<noteq> EXCEPT"

text \<open>\<open>cb_fiber\<close> is reset to the new callback, or made at address \<open>c\<close>.\<close>

definition prepare_cb ::
  "nat \<Rightarrow> 'cb run_local \<Rightarrow> 'cb sched_world \<Rightarrow> (nat \<times> 'cb fn fiber_world) outcome" where
  "prepare_cb c l w =
     (case l_cb_fiber l of
        Some cf \<Rightarrow> obind (Fiber_reset cf (ft_cb (l_ft l)) (sw_fw w)) (\<lambda>fw. Inr (cf, fw))
      | None \<Rightarrow> Inr (c, Fiber_new c (ft_cb (l_ft l)) 0 False (sw_stack_size w) (sw_fw w)))"

definition fiber_state :: "nat \<Rightarrow> 'cb sched_world \<Rightarrow> State outcome" where
  "fiber_state a w = obind (deref (fw_objs (sw_fw w) a) ''fiber'') (\<lambda>f. Inr (f_state f))"

text \<open>The three branches, each up to the switch (or to leaving the iteration).\<close>

definition run_fiber_branch ::
  "int \<Rightarrow> nat \<Rightarrow> 'cb run_local \<Rightarrow> 'cb sched_world \<Rightarrow> 'cb sched_world outcome" where
  "run_fiber_branch tid a l w =
     obind (swapIn tid a (sw_fw w)) (\<lambda>fw.
       Inr (set_run tid (l\<lparr>l_pc := LIn BFiber\<rparr>) (w\<lparr>sw_fw := fw\<rparr>)))"

definition run_cb_branch ::
  "int \<Rightarrow> nat \<Rightarrow> 'cb run_local \<Rightarrow> 'cb sched_world \<Rightarrow> 'cb sched_world outcome" where
  "run_cb_branch tid c l w =
     obind (prepare_cb c l w) (\<lambda>(cf, fw1).
     obind (swapIn tid cf fw1) (\<lambda>fw.
       Inr (set_run tid (l\<lparr>l_pc := LIn BCb, l_cb_fiber := Some cf, l_ft := FiberAndThread_reset\<rparr>)
             (w\<lparr>sw_fw := fw\<rparr>))))"

definition run_idle_branch ::
  "int \<Rightarrow> 'cb run_local \<Rightarrow> 'cb sched_world \<Rightarrow> 'cb sched_world outcome" where
  "run_idle_branch tid l w =
     (if l_is_active l then
        Inr (set_run tid (l\<lparr>l_pc := LTop\<rparr>)
          (upd_sched (\<lambda>s. s\<lparr>m_activeThreadCount := m_activeThreadCount s - 1\<rparr>) w))
      else
        obind (fiber_state (l_idle_fiber l) w) (\<lambda>st.
          if st = TERM' then Inr (set_run tid (l\<lparr>l_pc := LDone\<rparr>) w)
          else
            let w1 = upd_sched (\<lambda>s. s\<lparr>m_idleThreadCount := m_idleThreadCount s + 1\<rparr>) w in
            obind (swapIn tid (l_idle_fiber l) (sw_fw w1)) (\<lambda>fw.
              Inr (set_run tid (l\<lparr>l_pc := LIn BIdle\<rparr>) (w1\<lparr>sw_fw := fw\<rparr>)))))"

definition run_branch :: "int \<Rightarrow> nat \<Rightarrow> 'cb run_local \<Rightarrow> 'cb sched_world \<Rightarrow> 'cb sched_world outcome" where
  "run_branch tid c l w =
     (let other = (if ft_cb (l_ft l) \<noteq> None then run_cb_branch tid c l w
                   else run_idle_branch tid l w) in
      case ft_fiber (l_ft l) of
        Some a \<Rightarrow> obind (fiber_state a w) (\<lambda>st.
          if fiber_guard st then run_fiber_branch tid a l w else other)
      | None \<Rightarrow> other)"

text \<open>The fiber the thread has switched into, and its slice, which ends with the switch back.\<close>

definition l_current :: "branch \<Rightarrow> 'cb run_local \<Rightarrow> nat option" where
  "l_current b l =
     (case b of BFiber \<Rightarrow> ft_fiber (l_ft l) | BCb \<Rightarrow> l_cb_fiber l | BIdle \<Rightarrow> Some (l_idle_fiber l))"

definition run_in ::
  "int \<Rightarrow> slice \<Rightarrow> branch \<Rightarrow> 'cb run_local \<Rightarrow> 'cb sched_world \<Rightarrow> 'cb sched_world outcome" where
  "run_in tid sl b l w =
     obind (deref (l_current b l) ''fiber'') (\<lambda>a.
     obind (run_slice sl tid a (sw_fw w)) (\<lambda>fw.
       Inr (set_run tid (l\<lparr>l_pc := LBack b\<rparr>) (w\<lparr>sw_fw := fw\<rparr>))))"

text \<open>The slice of the base class's \<open>idle\<close>: \<open>while (!stopping()) YieldToHold();\<close>.\<close>

definition idle_slice :: "'cb hps_Scheduler \<Rightarrow> slice" where
  "idle_slice s = (if \<not> stopping s then SHold else SEnd Returned)"

definition run_back :: "int \<Rightarrow> branch \<Rightarrow> 'cb run_local \<Rightarrow> 'cb sched_world \<Rightarrow> 'cb sched_world" where
  "run_back tid b l w =
     set_run tid (l\<lparr>l_pc := LAfter b\<rparr>)
       (upd_sched (\<lambda>s. if b = BIdle then s\<lparr>m_idleThreadCount := m_idleThreadCount s - 1\<rparr>
                       else s\<lparr>m_activeThreadCount := m_activeThreadCount s - 1\<rparr>) w)"

definition set_state :: "nat \<Rightarrow> State \<Rightarrow> 'cb sched_world \<Rightarrow> 'cb sched_world" where
  "set_state a st w = w\<lparr>sw_fw := upd_fiber a (\<lambda>f. f\<lparr>f_state := st\<rparr>) (sw_fw w)\<rparr>"

definition run_after_fiber :: "int \<Rightarrow> 'cb run_local \<Rightarrow> 'cb sched_world \<Rightarrow> 'cb sched_world outcome" where
  "run_after_fiber tid l w =
     obind (deref (ft_fiber (l_ft l)) ''ft.fiber'') (\<lambda>a.
     obind (fiber_state a w) (\<lambda>st.
       let w1 = (if st = READY then schedule (FcFiber (Some a)) (-1) w
                 else if st \<noteq> TERM' \<and> st \<noteq> EXCEPT then set_state a HOLD w
                 else w) in
       Inr (set_run tid (l\<lparr>l_pc := LTop, l_ft := FiberAndThread_reset\<rparr>) w1)))"

definition run_after_cb :: "int \<Rightarrow> 'cb run_local \<Rightarrow> 'cb sched_world \<Rightarrow> 'cb sched_world outcome" where
  "run_after_cb tid l w =
     obind (deref (l_cb_fiber l) ''cb_fiber'') (\<lambda>a.
     obind (fiber_state a w) (\<lambda>st.
       if st = READY then
         Inr (set_run tid (l\<lparr>l_pc := LTop, l_cb_fiber := None\<rparr>)
               (schedule (FcFiber (Some a)) (-1) w))
       else if st = EXCEPT \<or> st = TERM' then
         obind (Fiber_reset a None (sw_fw w)) (\<lambda>fw.
           Inr (set_run tid (l\<lparr>l_pc := LTop\<rparr>) (w\<lparr>sw_fw := fw\<rparr>)))
       else
         Inr (set_run tid (l\<lparr>l_pc := LTop, l_cb_fiber := None\<rparr>) (set_state a HOLD w))))"

definition run_after_idle :: "int \<Rightarrow> 'cb run_local \<Rightarrow> 'cb sched_world \<Rightarrow> 'cb sched_world outcome" where
  "run_after_idle tid l w =
     obind (fiber_state (l_idle_fiber l) w) (\<lambda>st.
       Inr (set_run tid (l\<lparr>l_pc := LTop\<rparr>)
             (if st \<noteq> TERM' \<and> st \<noteq> EXCEPT then set_state (l_idle_fiber l) HOLD w else w)))"

text \<open>
  One step of the loop on thread \<open>tid\<close>: \<open>c\<close> is the address for a new callback fiber, \<open>sl\<close> the
  slice, should the thread be inside a fiber. A finished loop has no step.
\<close>

definition run_step ::
  "int \<Rightarrow> nat \<Rightarrow> slice \<Rightarrow> 'cb run_local \<Rightarrow> 'cb sched_world \<Rightarrow> 'cb sched_world outcome" where
  "run_step tid c sl l w =
     (case l_pc l of
        LTop \<Rightarrow> run_pick tid l w
      | LTickle \<Rightarrow> Inr (run_tickle tid l w)
      | LBranch \<Rightarrow> run_branch tid c l w
      | LIn b \<Rightarrow> run_in tid (if b = BIdle then idle_slice (sw_sched w) else sl) b l w
      | LBack b \<Rightarrow> Inr (run_back tid b l w)
      | LAfter BFiber \<Rightarrow> run_after_fiber tid l w
      | LAfter BCb \<Rightarrow> run_after_cb tid l w
      | LAfter BIdle \<Rightarrow> run_after_idle tid l w
      | LDone \<Rightarrow> Inr w)"

definition step_thread :: "int \<Rightarrow> nat \<Rightarrow> slice \<Rightarrow> 'cb sched_world \<Rightarrow> 'cb sched_world outcome" where
  "step_thread tid c sl w =
     obind (deref (sw_run w tid) ''not in run'') (\<lambda>l. run_step tid c sl l w)"

text \<open>
  A whole iteration when no other thread interferes: the six steps (an iteration that leaves
  the loop stays at its end).
\<close>

definition run_iteration :: "int \<Rightarrow> nat \<Rightarrow> slice \<Rightarrow> 'cb sched_world \<Rightarrow> 'cb sched_world outcome" where
  "run_iteration tid c sl w =
     obind (step_thread tid c sl w) (\<lambda>w1.
     obind (step_thread tid c sl w1) (\<lambda>w2.
     obind (step_thread tid c sl w2) (\<lambda>w3.
     if map_option l_pc (sw_run w3 tid) \<in> {Some LTop, Some LDone} then Inr w3
     else
       obind (step_thread tid c sl w3) (\<lambda>w4.
       obind (step_thread tid c sl w4) (\<lambda>w5.
       step_thread tid c sl w5)))))"

end
