(* ===== verification/Hps_SchedulerProps.thy ===== *)
theory Hps_SchedulerProps
  imports Hps_Scheduler Hps_FiberProps
begin

text \<open>
  Lemmas on the scheduler: what the queue operations do, what one iteration of the worker
  loop does in each of its branches, and the counters in every interleaving of any number of
  threads.
\<close>

section \<open>Projections\<close>

lemma upd_sched_simps [simp]:
  "sw_sched (upd_sched g w) = g (sw_sched w)"
  "sw_fw (upd_sched g w) = sw_fw w"
  "sw_run (upd_sched g w) = sw_run w"
  "sw_tickles (upd_sched g w) = sw_tickles w"
  "sw_stack_size (upd_sched g w) = sw_stack_size w"
  "sw_t_scheduler (upd_sched g w) = sw_t_scheduler w"
  by (simp_all add: upd_sched_def)

lemma set_run_simps [simp]:
  "sw_sched (set_run tid l w) = sw_sched w"
  "sw_fw (set_run tid l w) = sw_fw w"
  "sw_run (set_run tid l w) = (sw_run w)(tid \<mapsto> l)"
  "sw_tickles (set_run tid l w) = sw_tickles w"
  "sw_stack_size (set_run tid l w) = sw_stack_size w"
  "sw_t_scheduler (set_run tid l w) = sw_t_scheduler w"
  by (simp_all add: set_run_def)

lemma tickle_simps [simp]:
  "sw_sched (tickle w) = sw_sched w"
  "sw_fw (tickle w) = sw_fw w"
  "sw_run (tickle w) = sw_run w"
  "sw_tickles (tickle w) = Suc (sw_tickles w)"
  "sw_stack_size (tickle w) = sw_stack_size w"
  "sw_t_scheduler (tickle w) = sw_t_scheduler w"
  by (simp_all add: tickle_def)

lemma setThis_simps [simp]:
  "sw_sched (setThis tid w) = sw_sched w"
  "sw_fw (setThis tid w) = sw_fw w"
  "sw_run (setThis tid w) = sw_run w"
  "sw_stack_size (setThis tid w) = sw_stack_size w"
  "sw_t_scheduler (setThis tid w) tid"
  by (simp_all add: setThis_def)

lemma set_state_simps [simp]:
  "sw_sched (set_state a st w) = sw_sched w"
  "sw_fw (set_state a st w) = upd_fiber a (\<lambda>f. f\<lparr>f_state := st\<rparr>) (sw_fw w)"
  "sw_run (set_state a st w) = sw_run w"
  "sw_tickles (set_state a st w) = sw_tickles w"
  "sw_stack_size (set_state a st w) = sw_stack_size w"
  "sw_t_scheduler (set_state a st w) = sw_t_scheduler w"
  by (simp_all add: set_state_def)

lemma FiberAndThread_reset_simps [simp]:
  "ft_fiber FiberAndThread_reset = None" "ft_cb FiberAndThread_reset = None"
  "ft_thread FiberAndThread_reset = -1"
  by (simp_all add: FiberAndThread_reset_def)

section \<open>Scheduling\<close>

definition ft_full :: "'cb hps_FiberAndThread \<Rightarrow> bool" where
  "ft_full ft \<longleftrightarrow> ft_fiber ft \<noteq> None \<or> ft_cb ft \<noteq> None"

lemma scheduleNoLock_simps [simp]:
  "fst (scheduleNoLock ft s) \<longleftrightarrow> m_fibers s = []"
  "snd (scheduleNoLock ft s) = s\<lparr>m_fibers := m_fibers s @ filter ft_full [ft]\<rparr>"
  by (simp_all add: scheduleNoLock_def ft_full_def Let_def)

lemma schedule_simps [simp]:
  "sw_sched (schedule fc thr w) =
     (sw_sched w)\<lparr>m_fibers := m_fibers (sw_sched w) @ filter ft_full [FiberAndThread_new fc thr]\<rparr>"
  "sw_fw (schedule fc thr w) = sw_fw w"
  "sw_run (schedule fc thr w) = sw_run w"
  "sw_tickles (schedule fc thr w) =
     (if m_fibers (sw_sched w) = [] then Suc (sw_tickles w) else sw_tickles w)"
  "sw_stack_size (schedule fc thr w) = sw_stack_size w"
  by (simp_all add: schedule_def scheduleNoLock_def ft_full_def Let_def)

definition fc_empty :: "'cb fiber_or_cb \<Rightarrow> bool" where
  "fc_empty fc \<longleftrightarrow> fc = FcFiber None \<or> fc = FcCb None"

lemma FiberAndThread_swap_new: "fst (FiberAndThread_swap fc thr) = FiberAndThread_new fc thr"
  by (cases fc) simp_all

lemma FiberAndThread_swap_empty: "fc_empty (snd (FiberAndThread_swap fc thr))"
  by (cases fc) (simp_all add: fc_empty_def)

lemma ft_full_new [simp]: "ft_full (FiberAndThread_new fc thr) \<longleftrightarrow> \<not> fc_empty fc"
  by (cases fc) (auto simp: ft_full_def fc_empty_def)

lemma schedule_loop_result:
  "schedule_loop fcs t s =
     (t \<or> (m_fibers s = [] \<and> fcs \<noteq> []),
      map (\<lambda>fc. snd (FiberAndThread_swap fc (-1))) fcs,
      s\<lparr>m_fibers := m_fibers s @ filter ft_full (map (\<lambda>fc. FiberAndThread_new fc (-1)) fcs)\<rparr>)"
proof (induction fcs arbitrary: t s)
  case Nil
  then show ?case by simp
next
  case (Cons fc fcs)
  then show ?case
    by (cases fc) (auto simp: scheduleNoLock_def Let_def ft_full_def fc_empty_def)
qed

lemma schedule_range_simps [simp]:
  "sw_run (snd (schedule_range fcs w)) = sw_run w"
  "sw_fw (snd (schedule_range fcs w)) = sw_fw w"
  "sw_sched (snd (schedule_range fcs w)) = (sw_sched w)\<lparr>m_fibers := m_fibers (sw_sched w) @
     filter ft_full (map (\<lambda>fc. FiberAndThread_new fc (-1)) fcs)\<rparr>"
  "sw_tickles (snd (schedule_range fcs w)) =
     (if m_fibers (sw_sched w) = [] \<and> fcs \<noteq> [] then Suc (sw_tickles w) else sw_tickles w)"
  by (simp_all add: schedule_range_def schedule_loop_result Let_def)

section \<open>Taking an entry\<close>

definition foreign :: "int \<Rightarrow> 'cb hps_FiberAndThread \<Rightarrow> bool" where
  "foreign tid it \<longleftrightarrow> ft_thread it \<noteq> -1 \<and> ft_thread it \<noteq> tid"

definition busy :: "(nat \<Rightarrow> 'cb fn hps_Fiber option) \<Rightarrow> 'cb hps_FiberAndThread \<Rightarrow> bool" where
  "busy objs it \<longleftrightarrow>
     (case ft_fiber it of
        None \<Rightarrow> False
      | Some a \<Rightarrow> (case objs a of None \<Rightarrow> False | Some f \<Rightarrow> f_state f = EXEC))"

definition eligible ::
  "(nat \<Rightarrow> 'cb fn hps_Fiber option) \<Rightarrow> int \<Rightarrow> 'cb hps_FiberAndThread \<Rightarrow> bool" where
  "eligible objs tid it \<longleftrightarrow> \<not> foreign tid it \<and> \<not> busy objs it"

definition queue_ok :: "(nat \<Rightarrow> 'cb fn hps_Fiber option) \<Rightarrow> 'cb hps_FiberAndThread list \<Rightarrow> bool" where
  "queue_ok objs q \<longleftrightarrow>
     (\<forall>it \<in> set q. ft_full it \<and> (\<forall>a. ft_fiber it = Some a \<longrightarrow> objs a \<noteq> None))"

definition passed where
  "passed objs tid q = takeWhile (\<lambda>it. \<not> eligible objs tid it) q"

definition ahead where
  "ahead objs tid q = dropWhile (\<lambda>it. \<not> eligible objs tid it) q"

lemma pick_result:
  assumes "queue_ok objs q"
  shows "pick objs tid q =
    Inr (if ahead objs tid q = [] then None else Some (hd (ahead objs tid q)),
         \<exists>it \<in> set (passed objs tid q). foreign tid it,
         passed objs tid q @ tl (ahead objs tid q))"
  using assms
proof (induction q)
  case Nil
  then show ?case by (simp add: passed_def ahead_def)
next
  case (Cons it q)
  then have IH: "pick objs tid q =
    Inr (if ahead objs tid q = [] then None else Some (hd (ahead objs tid q)),
         \<exists>it \<in> set (passed objs tid q). foreign tid it,
         passed objs tid q @ tl (ahead objs tid q))"
    and full: "ft_full it" and obj: "\<And>a. ft_fiber it = Some a \<Longrightarrow> \<exists>f. objs a = Some f"
    by (auto simp: queue_ok_def)
  show ?case
  proof (cases "eligible objs tid it")
    case True
    then have "\<not> foreign tid it" "\<not> busy objs it" by (simp_all add: eligible_def)
    with True full obj show ?thesis
      by (cases "ft_fiber it")
        (fastforce simp: passed_def ahead_def foreign_def busy_def ft_full_def)+
  next
    case False
    show ?thesis
    proof (cases "foreign tid it")
      case True
      with False IH show ?thesis
        by (simp add: passed_def ahead_def foreign_def)
    next
      case nf: False
      with False have "busy objs it" by (simp add: eligible_def)
      with nf False IH full show ?thesis
        by (auto simp: passed_def ahead_def foreign_def busy_def ft_full_def split: option.splits)
    qed
  qed
qed


section \<open>One iteration of a worker\<close>

text \<open>The fiber world after thread \<open>tid\<close> switched to \<open>a\<close>, ran a slice and came back.\<close>

definition slice_world ::
  "int \<Rightarrow> nat \<Rightarrow> 'cb hps_Fiber \<Rightarrow> nat \<Rightarrow> 'cb hps_Fiber \<Rightarrow> slice \<Rightarrow> 'cb fiber_world \<Rightarrow> 'cb fiber_world"
where
  "slice_world tid mn mf a f sl fw =
     (SetThis tid (Some mn) fw)
       \<lparr>fw_objs := (fw_objs fw)(a \<mapsto> slice_result sl f, mn \<mapsto> mf\<lparr>f_ctx := Running\<rparr>),
        fw_running := (fw_running fw)(tid := Some mn)\<rparr>"

definition can_switch :: "int \<Rightarrow> nat \<Rightarrow> 'cb hps_Fiber \<Rightarrow> nat \<Rightarrow> 'cb hps_Fiber \<Rightarrow> 'cb fiber_world \<Rightarrow> bool"
where
  "can_switch tid mn mf a f fw \<longleftrightarrow>
     GetMainFiber tid fw = Some mn \<and> mn \<noteq> a \<and> fw_objs fw mn = Some mf \<and>
     fw_objs fw a = Some f \<and> f_state f \<noteq> EXEC \<and> resumable (f_ctx f)"

lemma switch_and_slice:
  assumes "can_switch tid mn mf a f fw"
  obtains fw1 where "swapIn tid a fw = Inr fw1"
    and "run_slice sl tid a fw1 = Inr (slice_world tid mn mf a f sl fw)"
  using assms swapIn_slice_ok [of tid fw mn a mf f sl]
  by (auto simp: can_switch_def slice_world_def swapIn_slice_def obind_eq_Inr)

lemma slice_world_objs [simp]:
  "mn \<noteq> a \<Longrightarrow> fw_objs (slice_world tid mn mf a f sl fw) a = Some (slice_result sl f)"
  by (simp add: slice_world_def)

lemma step_thread_run: "sw_run w tid = Some l \<Longrightarrow> step_thread tid c sl w = run_step tid c sl l w"
  by (simp add: step_thread_def)

text \<open>
  The state in front of the branches, after taking the entry \<open>it\<close> (with \<open>q\<close> left in the queue)
  and the tickle.
\<close>

definition at_branch ::
  "int \<Rightarrow> 'cb hps_FiberAndThread \<Rightarrow> 'cb hps_FiberAndThread list \<Rightarrow> bool \<Rightarrow> 'cb run_local \<Rightarrow>
     'cb sched_world \<Rightarrow> 'cb run_local \<Rightarrow> 'cb sched_world \<Rightarrow> bool" where
  "at_branch tid it q t l w l2 w2 \<longleftrightarrow>
     sw_sched w2 = (sw_sched w)\<lparr>m_fibers := q, m_activeThreadCount := m_activeThreadCount (sw_sched w) + 1\<rparr> \<and>
     sw_fw w2 = sw_fw w \<and> sw_run w2 = (sw_run w)(tid \<mapsto> l2) \<and>
     sw_stack_size w2 = sw_stack_size w \<and> sw_tickles w2 = sw_tickles w + (if t then 1 else 0) \<and>
     l_pc l2 = LBranch \<and> l_ft l2 = it \<and> l_is_active l2 \<and>
     l_idle_fiber l2 = l_idle_fiber l \<and> l_cb_fiber l2 = l_cb_fiber l"

text \<open>The rest of an iteration.\<close>

definition from_branch ::
  "int \<Rightarrow> nat \<Rightarrow> slice \<Rightarrow> 'cb run_local \<Rightarrow> 'cb sched_world \<Rightarrow> 'cb sched_world outcome" where
  "from_branch tid c sl l w = obind (run_branch tid c l w) (\<lambda>w3.
       if map_option l_pc (sw_run w3 tid) \<in> {Some LTop, Some LDone} then Inr w3
       else obind (step_thread tid c sl w3) (\<lambda>w4. obind (step_thread tid c sl w4) (step_thread tid c sl)))"

lemma first_two_steps:
  assumes "sw_run w tid = Some l" and "l_pc l = LTop"
    and "queue_ok (fw_objs (sw_fw w)) (m_fibers (sw_sched w))"
    and "ahead (fw_objs (sw_fw w)) tid (m_fibers (sw_sched w)) = it # rest"
  shows "\<exists>l2 w2. run_iteration tid c sl w = from_branch tid c sl l2 w2 \<and>
    at_branch tid it (passed (fw_objs (sw_fw w)) tid (m_fibers (sw_sched w)) @ rest)
      (\<exists>it \<in> set (passed (fw_objs (sw_fw w)) tid (m_fibers (sw_sched w))). foreign tid it) l w l2 w2"
proof -
  let ?q = "passed (fw_objs (sw_fw w)) tid (m_fibers (sw_sched w)) @ rest"
  define t where "t \<longleftrightarrow> (\<exists>it \<in> set (passed (fw_objs (sw_fw w)) tid (m_fibers (sw_sched w))). foreign tid it)"
  let ?l1 = "l\<lparr>l_pc := LTickle, l_ft := it, l_tickle_me := t, l_is_active := True\<rparr>"
  let ?w1 = "set_run tid ?l1 (upd_sched (\<lambda>s. s\<lparr>m_fibers := ?q,
                 m_activeThreadCount := m_activeThreadCount s + 1\<rparr>) w)"
  let ?l2 = "?l1\<lparr>l_pc := LBranch\<rparr>"
  let ?w2 = "set_run tid ?l2 (if t then tickle ?w1 else ?w1)"
  have "pick (fw_objs (sw_fw w)) tid (m_fibers (sw_sched w)) = Inr (Some it, t, ?q)"
    using assms by (simp add: pick_result t_def)
  then have 1: "step_thread tid c sl w = Inr ?w1"
    using assms(1,2) by (simp add: step_thread_def run_step_def run_pick_def)
  have 2: "step_thread tid c sl ?w1 = Inr ?w2"
    by (simp add: step_thread_def run_step_def run_tickle_def)
  have 3: "step_thread tid c sl ?w2 = run_branch tid c ?l2 ?w2"
    by (simp add: step_thread_def run_step_def)
  have "run_iteration tid c sl w = from_branch tid c sl ?l2 ?w2"
    unfolding run_iteration_def from_branch_def 1 2 3 obind_simps ..
  moreover have "at_branch tid it ?q t l w ?l2 ?w2"
    by (cases t) (simp_all add: at_branch_def)
  ultimately show ?thesis unfolding t_def by blast
qed

definition requeued :: "slice \<Rightarrow> nat \<Rightarrow> 'cb hps_FiberAndThread list" where
  "requeued sl a = (if sl = SReady then [\<lparr>ft_fiber = Some a, ft_cb = None, ft_thread = -1\<rparr>] else [])"

text \<open>The state the scheduler leaves a fiber in: EXEC (a bare switch out) becomes HOLD.\<close>

definition settle :: "'cb hps_Fiber \<Rightarrow> 'cb hps_Fiber" where
  "settle f = (if f_state f = EXEC then f\<lparr>f_state := HOLD\<rparr> else f)"

lemma slice_result_state:
  "f_state (slice_result sl f) =
     (case sl of SReady \<Rightarrow> READY | SHold \<Rightarrow> HOLD | SOut \<Rightarrow> EXEC
      | SEnd e \<Rightarrow> if e = Returned \<and> f_cb f \<noteq> None then TERM' else EXCEPT)"
  by (auto simp: slice_result_def after_cb_def split: slice.split cb_end.split)

lemma set_same_state: "f_state f = st \<Longrightarrow> f\<lparr>f_state := st\<rparr> = f"
  by (cases f) simp

lemma settled_world:
  assumes "mn \<noteq> a" and "f_state (slice_result sl f) = HOLD \<or> f_state (slice_result sl f) = EXEC"
  shows "fw_objs (upd_fiber a (\<lambda>f. f\<lparr>f_state := HOLD\<rparr>) (slice_world tid mn mf a f sl fw)) =
    (fw_objs fw)(a \<mapsto> settle (slice_result sl f), mn \<mapsto> mf\<lparr>f_ctx := Running\<rparr>)"
  using assms by (auto simp: fun_eq_iff slice_world_def settle_def set_same_state)

lemma unsettled_world:
  assumes "f_state (slice_result sl f) \<noteq> EXEC"
  shows "fw_objs (slice_world tid mn mf a f sl fw) =
    (fw_objs fw)(a \<mapsto> settle (slice_result sl f), mn \<mapsto> mf\<lparr>f_ctx := Running\<rparr>)"
  using assms by (simp add: slice_world_def settle_def)

text \<open>The branch for a fiber of the queue.\<close>

lemma fiber_branch:
  assumes ab: "at_branch tid it q t l w l2 w2"
    and a: "ft_fiber it = Some a" and sw: "can_switch tid mn mf a f (sw_fw w)"
  shows "\<exists>w' l'. from_branch tid c sl l2 w2 = Inr w' \<and>
    sw_sched w' = (sw_sched w)\<lparr>m_fibers := q @ requeued sl a\<rparr> \<and>
    fw_objs (sw_fw w') = (fw_objs (sw_fw w))
      (a \<mapsto> settle (slice_result sl f), mn \<mapsto> mf\<lparr>f_ctx := Running\<rparr>) \<and>
    sw_run w' = (sw_run w)(tid \<mapsto> l') \<and>
    l_pc l' = LTop \<and> l_idle_fiber l' = l_idle_fiber l \<and> l_cb_fiber l' = l_cb_fiber l"
proof -
  note ab = ab [unfolded at_branch_def]
  obtain fw3 where sin: "swapIn tid a (sw_fw w) = Inr fw3"
    and sl: "run_slice sl tid a fw3 = Inr (slice_world tid mn mf a f sl (sw_fw w))"
    by (rule switch_and_slice [OF sw])
  have obj: "fw_objs (sw_fw w) a = Some f" and mn: "mn \<noteq> a" using sw by (simp_all add: can_switch_def)
  let ?st = "f_state (slice_result sl f)"
  let ?w3 = "set_run tid (l2\<lparr>l_pc := LIn BFiber\<rparr>) (w2\<lparr>sw_fw := fw3\<rparr>)"
  let ?fw = "slice_world tid mn mf a f sl (sw_fw w)"
  let ?w4 = "set_run tid (l2\<lparr>l_pc := LBack BFiber\<rparr>) (?w3\<lparr>sw_fw := ?fw\<rparr>)"
  let ?w5 = "set_run tid (l2\<lparr>l_pc := LAfter BFiber\<rparr>)
     (upd_sched (\<lambda>s. s\<lparr>m_activeThreadCount := m_activeThreadCount s - 1\<rparr>) ?w4)"
  define w6 where "w6 = (if ?st = READY then schedule (FcFiber (Some a)) (-1) ?w5
             else if ?st \<noteq> TERM' \<and> ?st \<noteq> EXCEPT then set_state a HOLD ?w5 else ?w5)"
  let ?l' = "l2\<lparr>l_pc := LTop, l_ft := FiberAndThread_reset\<rparr>"
  have 3: "run_branch tid c l2 w2 = Inr ?w3"
    using a obj sin ab by (simp add: run_branch_def run_fiber_branch_def fiber_state_def fiber_guard_def Let_def)
  have 4: "step_thread tid c sl ?w3 = Inr ?w4"
    using a ab sl by (simp add: step_thread_def run_step_def run_in_def l_current_def)
  have 5: "step_thread tid c sl ?w4 = Inr ?w5"
    by (simp add: step_thread_def run_step_def run_back_def)
  have 6: "step_thread tid c sl ?w5 = Inr (set_run tid ?l' w6)"
    using a ab mn
    by (simp add: step_thread_def run_step_def run_after_fiber_def fiber_state_def Let_def w6_def)
  have r: "from_branch tid c sl l2 w2 = Inr (set_run tid ?l' w6)"
    unfolding from_branch_def 3 obind_simps 4 5 6 by simp
  have "sw_sched w6 = (sw_sched w)\<lparr>m_fibers := q @ requeued sl a\<rparr>"
    using ab by (cases sl) (simp_all add: w6_def slice_result_state requeued_def ft_full_def)
  moreover have "fw_objs (sw_fw w6) = (fw_objs (sw_fw w))
      (a \<mapsto> settle (slice_result sl f), mn \<mapsto> mf\<lparr>f_ctx := Running\<rparr>)"
    by (cases sl) (simp_all add: w6_def slice_result_state settled_world [OF mn] unsettled_world)
  moreover have "sw_run (set_run tid ?l' w6) = (sw_run w)(tid \<mapsto> ?l')" using ab by (simp add: w6_def)
  ultimately show ?thesis
    using r ab by (intro exI [of _ "set_run tid ?l' w6"] exI [of _ ?l']) simp
qed

text \<open>The branch for a callback: the fiber it gets, and what becomes of that fiber.\<close>

definition cb_ready :: "nat \<Rightarrow> nat \<Rightarrow> 'cb run_local \<Rightarrow> 'cb sched_world \<Rightarrow> bool" where
  "cb_ready c mn l w \<longleftrightarrow>
     (case l_cb_fiber l of
        None \<Rightarrow> c \<noteq> mn
      | Some a \<Rightarrow> a \<noteq> mn \<and> (\<exists>f. fw_objs (sw_fw w) a = Some f \<and> f_stack f \<and> finished_or_new (f_state f)))"

definition cb_address :: "nat \<Rightarrow> 'cb run_local \<Rightarrow> nat" where
  "cb_address c l = (case l_cb_fiber l of None \<Rightarrow> c | Some a \<Rightarrow> a)"

definition fresh_for :: "'cb fn \<Rightarrow> 'cb fn hps_Fiber \<Rightarrow> bool" where
  "fresh_for k g \<longleftrightarrow> f_state g = INIT \<and> f_ctx g = AtEntry EMainFunc \<and> f_stack g \<and> f_cb g = Some k"

lemma prepare_cb_ok:
  assumes "cb_ready c mn l w" and "ft_cb (l_ft l) = Some k"
    and "GetMainFiber tid (sw_fw w) = Some mn" and "fw_objs (sw_fw w) mn = Some mf"
  shows "\<exists>fw1 g. prepare_cb c l w = Inr (cb_address c l, fw1) \<and> fresh_for k g \<and>
    can_switch tid mn mf (cb_address c l) g fw1 \<and> cb_address c l \<noteq> mn \<and>
    fw_objs fw1 = (fw_objs (sw_fw w))(cb_address c l \<mapsto> g) \<and>
    fw_fiber_id fw1 = fw_fiber_id (sw_fw w) + (if l_cb_fiber l = None then 1 else 0)"
proof (cases "l_cb_fiber l")
  case None
  let ?g = "\<lparr>f_id = fw_fiber_id (sw_fw w) + 1, f_stacksize = ucast (ucast (sw_stack_size w) :: u64),
     f_state = INIT, f_ctx = AtEntry EMainFunc, f_stack = True, f_cb = Some k\<rparr>"
  show ?thesis
    using assms None
    by (intro exI [of _ "Fiber_new c (Some k) 0 False (sw_stack_size w) (sw_fw w)"] exI [of _ ?g])
      (simp add: prepare_cb_def cb_ready_def cb_address_def Fiber_new_def fresh_for_def
        can_switch_def GetMainFiber_def)
next
  case (Some a)
  with assms(1) obtain f where f: "a \<noteq> mn" "fw_objs (sw_fw w) a = Some f" "f_stack f"
      "finished_or_new (f_state f)" by (auto simp: cb_ready_def)
  let ?h = "\<lambda>f. f\<lparr>f_cb := Some k, f_ctx := AtEntry EMainFunc, f_state := INIT\<rparr>"
  have "fw_objs (upd_fiber a ?h (sw_fw w)) = (fw_objs (sw_fw w))(a \<mapsto> ?h f)"
    using f(2) by (auto simp: fun_eq_iff)
  with Some f assms show ?thesis
    by (intro exI [of _ "upd_fiber a ?h (sw_fw w)"] exI [of _ "?h f"])
      (simp add: prepare_cb_def cb_address_def Fiber_reset_def fresh_for_def can_switch_def)
qed

definition ended :: "slice \<Rightarrow> bool" where
  "ended sl \<longleftrightarrow> (case sl of SEnd _ \<Rightarrow> True | _ \<Rightarrow> False)"

definition recycled :: "'cb hps_Fiber \<Rightarrow> 'cb hps_Fiber" where
  "recycled f = f\<lparr>f_cb := None, f_ctx := AtEntry EMainFunc, f_state := INIT\<rparr>"

lemma slice_world_id [simp]: "fw_fiber_id (slice_world tid mn mf a f sl fw) = fw_fiber_id fw"
  by (simp add: slice_world_def)

lemma slice_world_main [simp]:
  "GetMainFiber u (slice_world tid mn mf a f sl fw) = GetMainFiber u fw"
  by (simp add: slice_world_def GetMainFiber_def)

lemma recycled_world:
  assumes "mn \<noteq> a"
  shows "fw_objs (upd_fiber a (\<lambda>f. f\<lparr>f_cb := None, f_ctx := AtEntry EMainFunc, f_state := INIT\<rparr>)
      (slice_world tid mn mf a f sl fw)) =
    (fw_objs fw)(a \<mapsto> recycled (slice_result sl f), mn \<mapsto> mf\<lparr>f_ctx := Running\<rparr>)"
  using assms by (auto simp: fun_eq_iff slice_world_def recycled_def)

lemma cb_branch:
  assumes ab: "at_branch tid it q t l w l2 w2" and ft: "ft_fiber it = None" "ft_cb it = Some k"
    and rdy: "cb_ready c mn l w"
    and mn: "GetMainFiber tid (sw_fw w) = Some mn" "fw_objs (sw_fw w) mn = Some mf"
  shows "\<exists>w' l' g. from_branch tid c sl l2 w2 = Inr w' \<and> fresh_for k g \<and>
    sw_sched w' = (sw_sched w)\<lparr>m_fibers := q @ requeued sl (cb_address c l)\<rparr> \<and>
    fw_objs (sw_fw w') = (fw_objs (sw_fw w))
      (cb_address c l \<mapsto> (if ended sl then recycled (slice_result sl g) else settle (slice_result sl g)),
       mn \<mapsto> mf\<lparr>f_ctx := Running\<rparr>) \<and>
    fw_fiber_id (sw_fw w') = fw_fiber_id (sw_fw w) + (if l_cb_fiber l = None then 1 else 0) \<and>
    GetMainFiber tid (sw_fw w') = Some mn \<and>
    sw_run w' = (sw_run w)(tid \<mapsto> l') \<and> l_pc l' = LTop \<and> l_idle_fiber l' = l_idle_fiber l \<and>
    l_cb_fiber l' = (if ended sl then Some (cb_address c l) else None)"
proof -
  note ab = ab [unfolded at_branch_def]
  let ?a = "cb_address c l"
  have l2: "cb_address c l2 = ?a" "cb_ready c mn l2 w2" "l_cb_fiber l2 = l_cb_fiber l"
    using ab rdy by (simp_all add: cb_address_def cb_ready_def split: option.splits)
  obtain fw1 g where prep: "prepare_cb c l2 w2 = Inr (?a, fw1)" and g: "fresh_for k g"
    and sw: "can_switch tid mn mf ?a g fw1" and ne: "?a \<noteq> mn"
    and objs1: "fw_objs fw1 = (fw_objs (sw_fw w))(?a \<mapsto> g)"
    and id1: "fw_fiber_id fw1 = fw_fiber_id (sw_fw w) + (if l_cb_fiber l = None then 1 else 0)"
    using prepare_cb_ok [OF l2(2), of k tid mf] ab ft mn l2(1,3) by auto
  obtain fw3 where sin: "swapIn tid ?a fw1 = Inr fw3"
    and sl: "run_slice sl tid ?a fw3 = Inr (slice_world tid mn mf ?a g sl fw1)"
    by (rule switch_and_slice [OF sw])
  let ?st = "f_state (slice_result sl g)"
  let ?l3 = "l2\<lparr>l_pc := LIn BCb, l_cb_fiber := Some ?a, l_ft := FiberAndThread_reset\<rparr>"
  let ?w3 = "set_run tid ?l3 (w2\<lparr>sw_fw := fw3\<rparr>)"
  let ?fw = "slice_world tid mn mf ?a g sl fw1"
  let ?w4 = "set_run tid (?l3\<lparr>l_pc := LBack BCb\<rparr>) (?w3\<lparr>sw_fw := ?fw\<rparr>)"
  let ?w5 = "set_run tid (?l3\<lparr>l_pc := LAfter BCb\<rparr>)
     (upd_sched (\<lambda>s. s\<lparr>m_activeThreadCount := m_activeThreadCount s - 1\<rparr>) ?w4)"
  define w6 where "w6 = (if ?st = READY then schedule (FcFiber (Some ?a)) (-1) ?w5
      else if ?st = EXCEPT \<or> ?st = TERM' then ?w5\<lparr>sw_fw := upd_fiber ?a
             (\<lambda>f. f\<lparr>f_cb := None, f_ctx := AtEntry EMainFunc, f_state := INIT\<rparr>) ?fw\<rparr>
      else set_state ?a HOLD ?w5)"
  define l' where "l' = (if ended sl then ?l3\<lparr>l_pc := LTop\<rparr> else ?l3\<lparr>l_pc := LTop, l_cb_fiber := None\<rparr>)"
  have 3: "run_branch tid c l2 w2 = Inr ?w3"
    using ft prep sin ab by (simp add: run_branch_def run_cb_branch_def Let_def)
  have 4: "step_thread tid c sl ?w3 = Inr ?w4"
    using sl by (simp add: step_thread_def run_step_def run_in_def l_current_def)
  have 5: "step_thread tid c sl ?w4 = Inr ?w5"
    by (simp add: step_thread_def run_step_def run_back_def)
  have st: "ended sl \<longleftrightarrow> ?st = TERM' \<or> ?st = EXCEPT" "?st = READY \<longleftrightarrow> sl = SReady"
    by (cases sl; simp add: ended_def slice_result_state)+
  have stk: "f_stack (slice_result sl g)" using g by (simp add: fresh_for_def)
  have 6: "step_thread tid c sl ?w5 = Inr (set_run tid l' w6)"
    using ne stk st
    by (cases "?st = READY"; cases "?st = EXCEPT \<or> ?st = TERM'")
      (auto simp: step_thread_def run_step_def run_after_cb_def fiber_state_def l'_def w6_def
        Fiber_reset_def finished_or_new_def)
  have r: "from_branch tid c sl l2 w2 = Inr (set_run tid l' w6)"
    unfolding from_branch_def 3 obind_simps 4 5 6 by simp
  have "sw_sched w6 = (sw_sched w)\<lparr>m_fibers := q @ requeued sl ?a\<rparr>"
    using ab st(2) by (simp add: w6_def requeued_def ft_full_def)
  moreover have "fw_objs (sw_fw w6) = (fw_objs (sw_fw w))
      (?a \<mapsto> (if ended sl then recycled (slice_result sl g) else settle (slice_result sl g)),
       mn \<mapsto> mf\<lparr>f_ctx := Running\<rparr>)"
    by (cases sl) (auto simp: w6_def slice_result_state ended_def objs1 settled_world [OF ne [symmetric]]
        recycled_world [OF ne [symmetric]] unsettled_world)
  moreover have "fw_fiber_id (sw_fw w6) = fw_fiber_id fw1" "GetMainFiber tid (sw_fw w6) = Some mn"
    using sw by (simp_all add: w6_def can_switch_def)
  moreover have "sw_run (set_run tid l' w6) = (sw_run w)(tid \<mapsto> l')"
    using ab by (simp add: w6_def)
  moreover have "l_pc l' = LTop" "l_idle_fiber l' = l_idle_fiber l"
      "l_cb_fiber l' = (if ended sl then Some ?a else None)"
    using ab by (simp_all add: l'_def)
  ultimately show ?thesis
    using r g id1 by (intro exI [of _ "set_run tid l' w6"] exI [of _ l'] exI [of _ g]) simp
qed

text \<open>The idle branch: no entry for this thread.\<close>

definition at_idle ::
  "int \<Rightarrow> bool \<Rightarrow> 'cb run_local \<Rightarrow> 'cb sched_world \<Rightarrow> 'cb run_local \<Rightarrow> 'cb sched_world \<Rightarrow> bool" where
  "at_idle tid t l w l2 w2 \<longleftrightarrow>
     sw_sched w2 = sw_sched w \<and>
     sw_fw w2 = sw_fw w \<and> sw_run w2 = (sw_run w)(tid \<mapsto> l2) \<and>
     sw_tickles w2 = sw_tickles w + (if t then 1 else 0) \<and>
     l_pc l2 = LBranch \<and> l_ft l2 = FiberAndThread_reset \<and> \<not> l_is_active l2 \<and>
     l_idle_fiber l2 = l_idle_fiber l \<and> l_cb_fiber l2 = l_cb_fiber l"

lemma passed_all: "ahead objs tid q = [] \<Longrightarrow> passed objs tid q = q"
  by (simp add: passed_def ahead_def)

lemma two_steps_idle:
  assumes "sw_run w tid = Some l" and "l_pc l = LTop"
    and "queue_ok (fw_objs (sw_fw w)) (m_fibers (sw_sched w))"
    and none: "ahead (fw_objs (sw_fw w)) tid (m_fibers (sw_sched w)) = []"
  obtains w1 l1 l2 w2 where "step_thread tid c sl w = Inr w1" and "sw_run w1 tid = Some l1"
    and "l_pc l1 = LTickle" and "step_thread tid c sl w1 = Inr w2"
    and "at_idle tid (\<exists>it \<in> set (m_fibers (sw_sched w)). foreign tid it) l w l2 w2"
proof -
  define t where "t \<longleftrightarrow> (\<exists>it \<in> set (m_fibers (sw_sched w)). foreign tid it)"
  let ?l1 = "l\<lparr>l_pc := LTickle, l_ft := FiberAndThread_reset, l_tickle_me := t, l_is_active := False\<rparr>"
  let ?w1 = "set_run tid ?l1 (upd_sched (\<lambda>s. s\<lparr>m_fibers := m_fibers (sw_sched w)\<rparr>) w)"
  let ?l2 = "?l1\<lparr>l_pc := LBranch\<rparr>"
  let ?w2 = "set_run tid ?l2 (if t then tickle ?w1 else ?w1)"
  have "pick (fw_objs (sw_fw w)) tid (m_fibers (sw_sched w)) = Inr (None, t, m_fibers (sw_sched w))"
    using assms(3) by (simp add: pick_result none passed_all [OF none] t_def)
  then have 1: "step_thread tid c sl w = Inr ?w1"
    using assms(1,2) by (simp add: step_thread_def run_step_def run_pick_def)
  have 2: "step_thread tid c sl ?w1 = Inr ?w2"
    by (simp add: step_thread_def run_step_def run_tickle_def)
  have "at_idle tid t l w ?l2 ?w2" by (cases t) (simp_all add: at_idle_def)
  with that [OF 1 _ _ 2] show ?thesis unfolding t_def by simp
qed

lemma first_two_steps_idle:
  assumes "sw_run w tid = Some l" and "l_pc l = LTop"
    and "queue_ok (fw_objs (sw_fw w)) (m_fibers (sw_sched w))"
    and none: "ahead (fw_objs (sw_fw w)) tid (m_fibers (sw_sched w)) = []"
  shows "\<exists>l2 w2. run_iteration tid c sl w = from_branch tid c sl l2 w2 \<and>
    at_idle tid (\<exists>it \<in> set (m_fibers (sw_sched w)). foreign tid it) l w l2 w2"
proof -
  obtain w1 l1 l2 w2 where s: "step_thread tid c sl w = Inr w1" "step_thread tid c sl w1 = Inr w2"
    and ai: "at_idle tid (\<exists>it \<in> set (m_fibers (sw_sched w)). foreign tid it) l w l2 w2"
    by (rule two_steps_idle [OF assms])
  have "sw_run w2 tid = Some l2" "l_pc l2 = LBranch" using ai by (simp_all add: at_idle_def)
  then have "step_thread tid c sl w2 = run_branch tid c l2 w2"
    by (simp add: step_thread_def run_step_def)
  with s have "run_iteration tid c sl w = from_branch tid c sl l2 w2"
    by (simp add: run_iteration_def from_branch_def)
  with ai show ?thesis by blast
qed

lemma idle_branch:
  assumes ai: "at_idle tid t l w l2 w2" and i: "l_idle_fiber l = i"
    and sw: "can_switch tid mn mf i f (sw_fw w)" and nt: "f_state f \<noteq> TERM'"
  shows "\<exists>w' l'. from_branch tid c sl l2 w2 = Inr w' \<and> sw_sched w' = sw_sched w \<and>
    fw_objs (sw_fw w') = (fw_objs (sw_fw w))
      (i \<mapsto> slice_result (idle_slice (sw_sched w)) f, mn \<mapsto> mf\<lparr>f_ctx := Running\<rparr>) \<and>
    GetMainFiber tid (sw_fw w') = Some mn \<and>
    sw_run w' = (sw_run w)(tid \<mapsto> l') \<and>
    l_pc l' = LTop \<and> l_idle_fiber l' = i \<and> l_cb_fiber l' = l_cb_fiber l"
proof -
  note ai = ai [unfolded at_idle_def]
  let ?s = "idle_slice (sw_sched w)"
  obtain fw3 where sin: "swapIn tid i (sw_fw w) = Inr fw3"
    and sl: "run_slice ?s tid i fw3 = Inr (slice_world tid mn mf i f ?s (sw_fw w))"
    by (rule switch_and_slice [OF sw])
  have obj: "fw_objs (sw_fw w) i = Some f" and mn: "mn \<noteq> i" "GetMainFiber tid (sw_fw w) = Some mn"
    using sw by (simp_all add: can_switch_def)
  let ?w2 = "upd_sched (\<lambda>s. s\<lparr>m_idleThreadCount := m_idleThreadCount s + 1\<rparr>) w2"
  let ?w3 = "set_run tid (l2\<lparr>l_pc := LIn BIdle\<rparr>) (?w2\<lparr>sw_fw := fw3\<rparr>)"
  let ?fw = "slice_world tid mn mf i f ?s (sw_fw w)"
  let ?w4 = "set_run tid (l2\<lparr>l_pc := LBack BIdle\<rparr>) (?w3\<lparr>sw_fw := ?fw\<rparr>)"
  let ?w5 = "set_run tid (l2\<lparr>l_pc := LAfter BIdle\<rparr>)
     (upd_sched (\<lambda>s. s\<lparr>m_idleThreadCount := m_idleThreadCount s - 1\<rparr>) ?w4)"
  let ?st = "f_state (slice_result ?s f)"
  define w6 where "w6 = (if ?st \<noteq> TERM' \<and> ?st \<noteq> EXCEPT then set_state i HOLD ?w5 else ?w5)"
  let ?l' = "l2\<lparr>l_pc := LTop\<rparr>"
  have same: "idle_slice (sw_sched ?w3) = ?s"
    using ai by (simp add: idle_slice_def stopping_def)
  have 3: "run_branch tid c l2 w2 = Inr ?w3"
    using obj sin ai i nt by (simp add: run_branch_def run_idle_branch_def fiber_state_def Let_def)
  have 4: "step_thread tid c sl ?w3 = Inr ?w4"
    using ai i sl same by (simp add: step_thread_def run_step_def run_in_def l_current_def)
  have 5: "step_thread tid c sl ?w4 = Inr ?w5"
    by (simp add: step_thread_def run_step_def run_back_def)
  have 6: "step_thread tid c sl ?w5 = Inr (set_run tid ?l' w6)"
    using ai i mn by (simp add: step_thread_def run_step_def run_after_idle_def fiber_state_def w6_def)
  have r: "from_branch tid c sl l2 w2 = Inr (set_run tid ?l' w6)"
    unfolding from_branch_def 3 obind_simps 4 5 6 by simp
  have "sw_sched w6 = sw_sched w" using ai by (simp add: w6_def)
  moreover have "fw_objs (sw_fw w6) = (fw_objs (sw_fw w))(i \<mapsto> slice_result ?s f, mn \<mapsto> mf\<lparr>f_ctx := Running\<rparr>)"
    by (cases "stopping (sw_sched w)")
      (simp_all add: w6_def idle_slice_def slice_result_state settled_world [OF mn(1)],
       simp_all add: settle_def slice_result_state slice_world_def)
  moreover have "GetMainFiber tid (sw_fw w6) = Some mn"
    using mn(2) by (simp add: w6_def)
  moreover have "sw_run (set_run tid ?l' w6) = (sw_run w)(tid \<mapsto> ?l')" using ai by (simp add: w6_def)
  ultimately show ?thesis
    using r ai i by (intro exI [of _ "set_run tid ?l' w6"] exI [of _ ?l']) simp
qed

lemma idle_done:
  assumes ai: "at_idle tid t l w l2 w2"
    and "fw_objs (sw_fw w) (l_idle_fiber l) = Some f" and "f_state f = TERM'"
  shows "from_branch tid c sl l2 w2 = Inr (set_run tid (l2\<lparr>l_pc := LDone\<rparr>) w2)"
  using assms
  by (simp add: at_idle_def from_branch_def run_branch_def run_idle_branch_def fiber_state_def Let_def)

text \<open>A finished fiber in the queue: the guard lets it through.\<close>

lemma finished_fiber_branch:
  assumes ab: "at_branch tid it q t l w l2 w2" and a: "ft_fiber it = Some a"
    and "GetMainFiber tid (sw_fw w) = Some mn" "mn \<noteq> a" "fw_objs (sw_fw w) mn = Some mf"
    and "fw_objs (sw_fw w) a = Some f" "f_state f \<noteq> EXEC" "f_ctx f = AtNeverReach"
  shows "from_branch tid c sl l2 w2 = Inl (AssertFail ''never reach'')"
  using assms swapIn_finished [OF assms(3-8)]
  by (simp add: at_branch_def from_branch_def run_branch_def run_fiber_branch_def fiber_state_def
      fiber_guard_def Let_def)

end
