(* ===== verification/Hps_SchedulerRuns.thy ===== *)
theory Hps_SchedulerRuns
  imports Hps_SchedulerProps
begin

text \<open>
  The scheduler under every interleaving: any number of threads inside \<open>run\<close>, each advancing
  one step at a time, with other code scheduling work, starting and stopping the scheduler
  and handling fibers in between. The counters count, and the queue holds only entries with
  something to run.
\<close>

section \<open>Steps of the whole system\<close>

inductive sched_step :: "'cb sched_world \<Rightarrow> 'cb sched_world \<Rightarrow> bool" where
  enter: "sw_run w tid = None \<Longrightarrow> run_enter tid a i w = Inr w' \<Longrightarrow> sched_step w w'"
| advance: "step_thread tid c sl w = Inr w' \<Longrightarrow> sched_step w w'"
| leave: "sw_run w tid = Some l \<Longrightarrow> l_pc l = LDone \<Longrightarrow>
    sched_step w (w\<lparr>sw_run := (sw_run w)(tid := None)\<rparr>)"
| schedule: "sched_step w (schedule fc thr w)"
| schedule_range: "sched_step w (snd (schedule_range fcs w))"
| start: "Scheduler_start ids (sw_sched w) = Inr s \<Longrightarrow> sched_step w (w\<lparr>sw_sched := s\<rparr>)"
| stop: "stop_begin tid w = Inr (n, w') \<Longrightarrow> sched_step w w'"
| join: "sched_step w (w\<lparr>sw_sched := snd (stop_join (sw_sched w))\<rparr>)"
| fibers: "fiber_exec tid op (sw_fw w) = Inr fw \<Longrightarrow> sched_step w (w\<lparr>sw_fw := fw\<rparr>)"

inductive_cases sched_stepE: "sched_step w w'"

definition sched_start :: "'cb sched_world \<Rightarrow> bool" where
  "sched_start w \<longleftrightarrow>
     (\<exists>tid other a r threads use_caller name w0.
        Scheduler_new tid other a r threads use_caller name w0 = Inr w \<and> sw_run w0 = Map.empty)"

section \<open>Counting threads\<close>

definition running_task :: "'cb run_local \<Rightarrow> bool" where
  "running_task l \<longleftrightarrow>
     (case l_pc l of
        LTickle \<Rightarrow> l_is_active l
      | LBranch \<Rightarrow> l_is_active l
      | LIn b \<Rightarrow> b \<noteq> BIdle
      | LBack b \<Rightarrow> b \<noteq> BIdle
      | _ \<Rightarrow> False)"

definition idling :: "'cb run_local \<Rightarrow> bool" where
  "idling l \<longleftrightarrow> l_pc l = LIn BIdle \<or> l_pc l = LBack BIdle"

definition threads_that :: "('l \<Rightarrow> bool) \<Rightarrow> (int \<Rightarrow> 'l option) \<Rightarrow> int set" where
  "threads_that P R = {tid. \<exists>l. R tid = Some l \<and> P l}"

definition num :: "('l \<Rightarrow> bool) \<Rightarrow> (int \<Rightarrow> 'l option) \<Rightarrow> u64" where
  "num P R = of_nat (card (threads_that P R))"

lemma threads_that_subset: "threads_that P R \<subseteq> dom R"
  by (auto simp: threads_that_def)

lemma threads_that_upd:
  "threads_that P (R(tid \<mapsto> l)) = (if P l then insert tid else id) (threads_that P R - {tid})"
  "threads_that P (R(tid := None)) = threads_that P R - {tid}"
  by (auto simp: threads_that_def split: if_splits)

lemma card_without:
  assumes "finite A"
  shows "of_nat (card (A - {x})) = (of_nat (card A) - (if x \<in> A then 1 else 0) :: u64)"
proof (cases "x \<in> A")
  case True
  with assms have "Suc (card (A - {x})) = card A" by (rule card_Suc_Diff1)
  then have "of_nat (card A) = (1 + of_nat (card (A - {x})) :: u64)" by (metis of_nat_Suc)
  then show ?thesis using True by (simp only: if_True add_diff_cancel_left')
next
  case False
  then have "A - {x} = A" by blast
  with False show ?thesis by simp
qed

lemma num_upd:
  assumes "finite (dom R)"
  shows "num P (R(tid \<mapsto> l)) =
    num P R - (if tid \<in> threads_that P R then 1 else 0) + (if P l then 1 else 0)"
    and "num P (R(tid := None)) = num P R - (if tid \<in> threads_that P R then 1 else 0)"
proof -
  have fin: "finite (threads_that P R)"
    using assms threads_that_subset by (rule rev_finite_subset)
  note c = card_without [OF fin, of tid]
  show "num P (R(tid := None)) = num P R - (if tid \<in> threads_that P R then 1 else 0)"
    by (simp only: num_def threads_that_upd c)
  show "num P (R(tid \<mapsto> l)) =
    num P R - (if tid \<in> threads_that P R then 1 else 0) + (if P l then 1 else 0)"
  proof (cases "P l")
    case True
    have "card (insert tid (threads_that P R - {tid})) = Suc (card (threads_that P R - {tid}))"
      using fin by (intro card_insert_disjoint) simp_all
    then show ?thesis using True by (simp only: num_def threads_that_upd c if_True of_nat_Suc) simp
  next
    case False
    then show ?thesis by (simp only: num_def threads_that_upd c if_False id_apply) simp
  qed
qed

lemma threads_that_iff: "R tid = Some l \<Longrightarrow> tid \<in> threads_that P R \<longleftrightarrow> P l"
  "R tid = None \<Longrightarrow> tid \<notin> threads_that P R"
  by (auto simp: threads_that_def)

section \<open>The invariant\<close>

text \<open>An entry taken is in hand until the branch is chosen; nothing is in hand otherwise.\<close>

definition local_ok :: "'cb run_local \<Rightarrow> bool" where
  "local_ok l \<longleftrightarrow>
     (l_pc l = LTickle \<or> l_pc l = LBranch \<longrightarrow> (l_is_active l \<longleftrightarrow> ft_full (l_ft l)))"

definition sched_inv :: "'cb sched_world \<Rightarrow> bool" where
  "sched_inv w \<longleftrightarrow>
     finite (dom (sw_run w)) \<and>
     m_activeThreadCount (sw_sched w) = num running_task (sw_run w) \<and>
     m_idleThreadCount (sw_sched w) = num idling (sw_run w) \<and>
     (\<forall>it \<in> set (m_fibers (sw_sched w)). ft_full it) \<and>
     (\<forall>tid l. sw_run w tid = Some l \<longrightarrow> local_ok l)"

text \<open>A step that replaces the locals of one thread keeps the invariant if it moves the counters with them.\<close>

lemma sched_inv_local:
  assumes "sched_inv w" and "sw_run w tid = Some l" and "sw_run w' = (sw_run w)(tid \<mapsto> l')"
    and "m_activeThreadCount (sw_sched w') = m_activeThreadCount (sw_sched w)
      - (if running_task l then 1 else 0) + (if running_task l' then 1 else 0)"
    and "m_idleThreadCount (sw_sched w') = m_idleThreadCount (sw_sched w)
      - (if idling l then 1 else 0) + (if idling l' then 1 else 0)"
    and "\<forall>it \<in> set (m_fibers (sw_sched w')). ft_full it" and "local_ok l'"
  shows "sched_inv w'"
  using assms
  by (auto simp: sched_inv_def num_upd threads_that_iff(1) [where R = "sw_run w", OF assms(2)])

lemma sched_inv_set:
  assumes "sched_inv w" and "sw_run w tid = Some l" and "sw_run w2 = sw_run w"
    and "m_activeThreadCount (sw_sched w2) = m_activeThreadCount (sw_sched w)
      - (if running_task l then 1 else 0) + (if running_task l' then 1 else 0)"
    and "m_idleThreadCount (sw_sched w2) = m_idleThreadCount (sw_sched w)
      - (if idling l then 1 else 0) + (if idling l' then 1 else 0)"
    and "\<forall>it \<in> set (m_fibers (sw_sched w2)). ft_full it" and "local_ok l'"
  shows "sched_inv (set_run tid l' w2)"
  by (rule sched_inv_local [OF assms(1,2), where l' = l']) (simp_all add: assms(3-7))

lemma sched_inv_same:
  assumes "sched_inv w" and "sw_run w' = sw_run w"
    and "m_activeThreadCount (sw_sched w') = m_activeThreadCount (sw_sched w)"
    and "m_idleThreadCount (sw_sched w') = m_idleThreadCount (sw_sched w)"
    and "\<forall>it \<in> set (m_fibers (sw_sched w')). ft_full it"
  shows "sched_inv w'"
  using assms by (simp add: sched_inv_def)

lemma pick_full:
  "pick objs tid q = Inr (r, t, q') \<Longrightarrow>
     set q' \<subseteq> set q \<and> (\<forall>it. r = Some it \<longrightarrow> ft_full it)"
proof (induction q arbitrary: r t q')
  case Nil
  then show ?case by simp
next
  case (Cons it q)
  have later: "set q' \<subseteq> set (it # q) \<and> (\<forall>it. r = Some it \<longrightarrow> ft_full it)"
    if "obind (pick objs tid q) (\<lambda>(r, t', q'). Inr (r, f t', it # q')) = Inr (r, t, q')" for f
    using that Cons.IH by (fastforce simp: obind_eq_Inr)
  have here: "set q' \<subseteq> set (it # q) \<and> (\<forall>it. r = Some it \<longrightarrow> ft_full it)"
    if "Inr (Some it, False, q) = (Inr (r, t, q') :: _ outcome)" "ft_full it"
    using that by auto
  show ?case
  proof (cases "ft_thread it \<noteq> -1 \<and> ft_thread it \<noteq> tid")
    case True
    with Cons.prems show ?thesis by (intro later [of "\<lambda>_. True"]) simp
  next
    case False
    with Cons.prems have full: "ft_full it" by (auto simp: ft_full_def HPS_ASSERT_eq_Inr)
    show ?thesis
    proof (cases "ft_fiber it")
      case None
      with Cons.prems False full show ?thesis
        by (intro here) (auto simp: HPS_ASSERT_eq_Inr)
    next
      case (Some a)
      with Cons.prems False obtain f where "objs a = Some f"
        and r: "(if f_state f = EXEC then obind (pick objs tid q) (\<lambda>(r, t, q'). Inr (r, t, it # q'))
           else Inr (Some it, False, q)) = Inr (r, t, q')"
        by (auto simp: HPS_ASSERT_eq_Inr obind_eq_Inr deref_eq_Inr)
      show ?thesis
      proof (cases "f_state f = EXEC")
        case True
        with r show ?thesis by (intro later [of id]) simp
      next
        case False
        with r full show ?thesis by (intro here) simp_all
      qed
    qed
  qed
qed


named_theorems run_defs \<open>the steps of the worker loop\<close>

lemma run_local_sets [simp]:
  "running_task (l\<lparr>l_pc := LTop\<rparr>) = False" "idling (l\<lparr>l_pc := LTop\<rparr>) = False"
  "local_ok (l\<lparr>l_pc := LTop\<rparr>)"
  by (simp_all add: running_task_def idling_def local_ok_def)

lemma run_pick_inv:
  assumes inv: "sched_inv w" and l: "sw_run w tid = Some l" "l_pc l = LTop"
    and ex: "run_pick tid l w = Inr w'"
  shows "sched_inv w'"
proof -
  from ex obtain r t q where p: "pick (fw_objs (sw_fw w)) tid (m_fibers (sw_sched w)) = Inr (r, t, q)"
    by (auto simp: run_pick_def obind_eq_Inr)
  note full = pick_full [OF p]
  have q: "\<forall>it \<in> set q. ft_full it" using inv full by (auto simp: sched_inv_def)
  show ?thesis
  proof (cases r)
    case None
    with ex p have w': "w' = set_run tid (l\<lparr>l_pc := LTickle, l_ft := FiberAndThread_reset,
                               l_tickle_me := t, l_is_active := False\<rparr>)
                 (upd_sched (\<lambda>s. s\<lparr>m_fibers := q\<rparr>) w)" by (simp add: run_pick_def)
    show ?thesis unfolding w'
      by (rule sched_inv_set [OF inv l(1)])
        (use l q in \<open>simp_all add: running_task_def idling_def local_ok_def ft_full_def\<close>)
  next
    case (Some ft)
    with ex p have w': "w' = set_run tid (l\<lparr>l_pc := LTickle, l_ft := ft, l_tickle_me := t, l_is_active := True\<rparr>)
                 (upd_sched (\<lambda>s. s\<lparr>m_fibers := q,
                                   m_activeThreadCount := m_activeThreadCount s + 1\<rparr>) w)"
      by (simp add: run_pick_def)
    show ?thesis unfolding w'
      by (rule sched_inv_set [OF inv l(1)])
        (use l q full Some in \<open>simp_all add: running_task_def idling_def local_ok_def\<close>)
  qed
qed

lemma run_branch_result:
  assumes ex: "run_branch tid c l w = Inr w'"
  obtains
    (fiber) fw where "ft_full (l_ft l)"
      "w' = set_run tid (l\<lparr>l_pc := LIn BFiber\<rparr>) (w\<lparr>sw_fw := fw\<rparr>)"
  | (cb) fw cf where "ft_full (l_ft l)"
      "w' = set_run tid (l\<lparr>l_pc := LIn BCb, l_cb_fiber := Some cf, l_ft := FiberAndThread_reset\<rparr>)
              (w\<lparr>sw_fw := fw\<rparr>)"
  | (active) "l_is_active l" "\<not> ft_full (l_ft l)"
      "w' = set_run tid (l\<lparr>l_pc := LTop\<rparr>)
              (upd_sched (\<lambda>s. s\<lparr>m_activeThreadCount := m_activeThreadCount s - 1\<rparr>) w)"
  | (finished) "\<not> l_is_active l" "w' = set_run tid (l\<lparr>l_pc := LDone\<rparr>) w"
  | (idle) fw where "\<not> l_is_active l"
      "w' = set_run tid (l\<lparr>l_pc := LIn BIdle\<rparr>)
              ((upd_sched (\<lambda>s. s\<lparr>m_idleThreadCount := m_idleThreadCount s + 1\<rparr>) w)\<lparr>sw_fw := fw\<rparr>)"
proof -
  have always: "fiber_guard st" for st by (cases st) (simp_all add: fiber_guard_def)
  show ?thesis
  proof (cases "ft_fiber (l_ft l)")
    case (Some a)
    with ex show ?thesis
      by (auto simp: run_branch_def Let_def always outcome_simps run_fiber_branch_def ft_full_def
          intro: fiber)
  next
    case None
    show ?thesis
    proof (cases "ft_cb (l_ft l)")
      case (Some k)
      with None ex show ?thesis
        by (auto simp: run_branch_def Let_def outcome_simps run_cb_branch_def ft_full_def intro: cb)
    next
      case nocb: None
      with None have empty: "\<not> ft_full (l_ft l)" by (simp add: ft_full_def)
      from None nocb ex have i: "run_idle_branch tid l w = Inr w'"
        by (simp add: run_branch_def Let_def)
      with empty show ?thesis
        by (auto simp: run_idle_branch_def Let_def outcome_simps split: if_splits
            intro: active finished idle)
    qed
  qed
qed

lemma run_branch_inv:
  assumes inv: "sched_inv w" and l: "sw_run w tid = Some l" "l_pc l = LBranch"
    and ex: "run_branch tid c l w = Inr w'"
  shows "sched_inv w'"
proof -
  have lo: "l_is_active l \<longleftrightarrow> ft_full (l_ft l)" and full: "\<forall>it \<in> set (m_fibers (sw_sched w)). ft_full it"
    using inv l by (auto simp: sched_inv_def local_ok_def)
  note sets = running_task_def idling_def local_ok_def
  from ex show ?thesis
  proof (cases rule: run_branch_result)
    case (fiber fw)
    show ?thesis unfolding fiber(2)
      by (rule sched_inv_set [OF inv l(1)]) (use l lo full fiber(1) in \<open>simp_all add: sets\<close>)
  next
    case (cb fw cf)
    show ?thesis unfolding cb(2)
      by (rule sched_inv_set [OF inv l(1)]) (use l lo full cb(1) in \<open>simp_all add: sets\<close>)
  next
    case active
    with lo show ?thesis by simp
  next
    case finished
    show ?thesis unfolding finished(2)
      by (rule sched_inv_set [OF inv l(1)]) (use l lo full finished(1) in \<open>simp_all add: sets\<close>)
  next
    case (idle fw)
    show ?thesis unfolding idle(2)
      by (rule sched_inv_set [OF inv l(1)]) (use l lo full idle(1) in \<open>simp_all add: sets\<close>)
  qed
qed

lemma run_in_inv:
  assumes inv: "sched_inv w" and l: "sw_run w tid = Some l" "l_pc l = LIn b"
    and ex: "run_in tid sl b l w = Inr w'"
  shows "sched_inv w'"
proof -
  from ex obtain fw where w': "w' = set_run tid (l\<lparr>l_pc := LBack b\<rparr>) (w\<lparr>sw_fw := fw\<rparr>)"
    by (auto simp: run_in_def outcome_simps)
  show ?thesis unfolding w'
    by (rule sched_inv_set [OF inv l(1)])
      (use l inv in \<open>auto simp: running_task_def idling_def local_ok_def sched_inv_def\<close>)
qed

lemma run_back_inv:
  assumes inv: "sched_inv w" and l: "sw_run w tid = Some l" "l_pc l = LBack b"
  shows "sched_inv (run_back tid b l w)"
  unfolding run_back_def
  by (rule sched_inv_set [OF inv l(1)])
    (use l inv in \<open>auto simp: running_task_def idling_def local_ok_def sched_inv_def\<close>)

lemma run_after_inv:
  assumes inv: "sched_inv w" and l: "sw_run w tid = Some l" "l_pc l = LAfter b"
    and w': "sw_run w' = (sw_run w)(tid \<mapsto> l')" "l_pc l' = LTop"
      "m_activeThreadCount (sw_sched w') = m_activeThreadCount (sw_sched w)"
      "m_idleThreadCount (sw_sched w') = m_idleThreadCount (sw_sched w)"
      "\<forall>it \<in> set (m_fibers (sw_sched w')). ft_full it"
  shows "sched_inv w'"
  by (rule sched_inv_local [OF inv l(1) w'(1)])
    (use l w' in \<open>simp_all add: running_task_def idling_def local_ok_def\<close>)

lemma run_step_inv:
  assumes inv: "sched_inv w" and l: "sw_run w tid = Some l" and ex: "run_step tid c sl l w = Inr w'"
  shows "sched_inv w'"
proof -
  have full: "\<forall>it \<in> set (m_fibers (sw_sched w)). ft_full it" using inv by (simp add: sched_inv_def)
  show ?thesis
  proof (cases "l_pc l")
    case LTop
    with inv l ex show ?thesis by (auto simp: run_step_def intro: run_pick_inv)
  next
    case LTickle
    with ex have w': "w' = run_tickle tid l w" by (simp add: run_step_def)
    show ?thesis unfolding w' run_tickle_def
      by (rule sched_inv_set [OF inv l])
        (use LTickle inv l in \<open>auto simp: running_task_def idling_def local_ok_def sched_inv_def\<close>)
  next
    case LBranch
    with inv l ex show ?thesis by (auto simp: run_step_def intro: run_branch_inv)
  next
    case (LIn b)
    with inv l ex show ?thesis by (auto simp: run_step_def intro: run_in_inv)
  next
    case (LBack b)
    with inv l ex show ?thesis by (auto simp: run_step_def intro: run_back_inv)
  next
    case (LAfter b)
    show ?thesis
    proof (cases b)
      case BFiber
      with LAfter ex show ?thesis
        by (auto simp: run_step_def run_after_fiber_def outcome_simps Let_def full fc_empty_def split: if_splits
            intro!: run_after_inv [OF inv l LAfter])
    next
      case BCb
      with LAfter ex show ?thesis
        by (auto simp: run_step_def run_after_cb_def outcome_simps full fc_empty_def split: if_splits
            intro!: run_after_inv [OF inv l LAfter])
    next
      case BIdle
      with LAfter ex show ?thesis
        by (auto simp: run_step_def run_after_idle_def outcome_simps full split: if_splits
            intro!: run_after_inv [OF inv l LAfter])
    qed
  next
    case LDone
    with ex inv show ?thesis by (simp add: run_step_def)
  qed
qed


lemma funpow_tickle [simp]:
  "sw_sched ((tickle ^^ n) w) = sw_sched w"
  "sw_run ((tickle ^^ n) w) = sw_run w"
  "sw_fw ((tickle ^^ n) w) = sw_fw w"
  by (induction n) simp_all

lemma stop_begin_counters:
  assumes "stop_begin tid w = Inr (n, w')"
  shows "sw_run w' = sw_run w \<and> m_fibers (sw_sched w') = m_fibers (sw_sched w) \<and>
    m_activeThreadCount (sw_sched w') = m_activeThreadCount (sw_sched w) \<and>
    m_idleThreadCount (sw_sched w') = m_idleThreadCount (sw_sched w)"
  using assms
  by (auto simp: stop_begin_def Let_def outcome_simps split: if_splits option.splits)

lemma run_enter_result:
  assumes "run_enter tid a i w = Inr w'"
  shows "sw_sched w' = sw_sched w \<and> (\<exists>l. sw_run w' = (sw_run w)(tid \<mapsto> l) \<and> l_pc l = LTop)"
  using assms by (auto simp: run_enter_def Let_def obind_eq_Inr)

lemma sched_step_inv:
  assumes inv: "sched_inv w" and step: "sched_step w w'"
  shows "sched_inv w'"
proof -
  have full: "\<forall>it \<in> set (m_fibers (sw_sched w)). ft_full it" using inv by (simp add: sched_inv_def)
  note keep = sched_inv_same [OF inv]
  from step show ?thesis
  proof (cases rule: sched_step.cases)
    case (enter tid a i)
    then have e: "sw_run w tid = None" "run_enter tid a i w = Inr w'" by simp_all
    then obtain l where l: "sw_sched w' = sw_sched w" "sw_run w' = (sw_run w)(tid \<mapsto> l)" "l_pc l = LTop"
      using run_enter_result by blast
    with inv e(1) show ?thesis
      by (auto simp: sched_inv_def num_upd threads_that_iff(2) running_task_def idling_def local_ok_def)
  next
    case (advance tid c sl)
    with inv show ?thesis
      by (auto simp: step_thread_def outcome_simps intro: run_step_inv)
  next
    case (leave tid l)
    with inv show ?thesis
      by (auto simp: sched_inv_def num_upd threads_that_iff(1) running_task_def idling_def split: if_splits)
  next
    case (schedule fc thr)
    with full show ?thesis by (auto split: if_splits intro!: keep)
  next
    case (schedule_range fcs)
    with full show ?thesis by (auto split: if_splits intro!: keep)
  next
    case (start ids s)
    with full show ?thesis
      by (auto simp: Scheduler_start_def Let_def HPS_ASSERT_eq_Inr split: if_splits intro!: keep)
  next
    case (stop tid n)
    with full stop_begin_counters show ?thesis by (metis keep)
  next
    case join
    with full show ?thesis by (auto simp: stop_join_def intro!: keep)
  next
    case (fibers tid op fw)
    with full show ?thesis by (auto split: if_splits intro!: keep)
  qed
qed

lemma sched_start_inv: "sched_start w \<Longrightarrow> sched_inv w"
  by (auto simp: sched_start_def Scheduler_new_def Scheduler_fields_def Let_def outcome_simps
      sched_inv_def num_def threads_that_def split: if_splits)

interpretation scheduler: invariant_system sched_start sched_step sched_inv
  by unfold_locales (auto intro: sched_start_inv sched_step_inv)

text \<open>A count that is 0 means there is no such thread (the count has not wrapped).\<close>

lemma num_zero:
  assumes "finite (dom R)" and "card (dom R) < 2 ^ 64"
  shows "num P R = 0 \<longleftrightarrow> threads_that P R = {}"
proof -
  have "finite (threads_that P R)"
    using assms(1) threads_that_subset by (rule rev_finite_subset)
  moreover have "card (threads_that P R) < 2 ^ 64"
    using card_mono [OF assms(1) threads_that_subset] assms(2) by (rule le_less_trans)
  ultimately show ?thesis
    by (auto simp: num_def word_of_nat_eq_0_iff card_gt_0_iff dest: dvd_imp_le)
qed

text \<open>What \<open>stopping()\<close> promises.\<close>

lemma stopping_no_task:
  assumes "sched_inv w" and "stopping (sw_sched w)" and "card (dom (sw_run w)) < 2 ^ 64"
  shows "threads_that running_task (sw_run w) = {}"
  using assms num_zero [of "sw_run w" running_task] by (simp add: sched_inv_def stopping_def)

end
