(* ===== verification/Hps_SchedulerClaims.thy ===== *)
theory Hps_SchedulerClaims
  imports Hps_SchedulerRuns
begin

text \<open>
  The properties of the scheduler. The witnesses use one world: thread 7 is a worker at the
  top of its loop (main fiber at 1, idle fiber at 3), with a fiber at 2.
\<close>

section \<open>Draining a queue of callbacks\<close>

text \<open>
  A worker at the top of its loop, whose idle fiber is as \<open>P\<close> says and whose callback fiber,
  if any, was recycled; \<open>c\<close> is the address the next callback fiber gets.
\<close>

definition worker_with :: "('cb fn hps_Fiber \<Rightarrow> bool) \<Rightarrow> int \<Rightarrow> nat \<Rightarrow> nat \<Rightarrow> 'cb sched_world \<Rightarrow> bool" where
  "worker_with P tid c mn w \<longleftrightarrow>
     (\<exists>l i fi. sw_run w tid = Some l \<and> l_pc l = LTop \<and> l_idle_fiber l = i \<and> i \<noteq> mn \<and> i \<noteq> c \<and> c \<noteq> mn \<and>
        GetMainFiber tid (sw_fw w) = Some mn \<and> fw_objs (sw_fw w) mn \<noteq> None \<and>
        fw_objs (sw_fw w) i = Some fi \<and> P fi \<and>
        (case l_cb_fiber l of
           None \<Rightarrow> True
         | Some a \<Rightarrow> a = c \<and> (\<exists>f. fw_objs (sw_fw w) c = Some f \<and> f_stack f \<and> f_state f = INIT)))"

text \<open>A worker whose idle fiber has not run yet.\<close>

definition worker_ready :: "int \<Rightarrow> nat \<Rightarrow> nat \<Rightarrow> 'cb sched_world \<Rightarrow> bool" where
  "worker_ready = worker_with (\<lambda>fi. f_state fi = INIT \<and> f_ctx fi = AtEntry EMainFunc \<and> f_cb fi \<noteq> None)"

definition has_cb_fiber :: "int \<Rightarrow> 'cb sched_world \<Rightarrow> bool" where
  "has_cb_fiber tid w \<longleftrightarrow> (case sw_run w tid of None \<Rightarrow> False | Some l \<Rightarrow> l_cb_fiber l \<noteq> None)"

definition callbacks_for :: "int \<Rightarrow> 'cb hps_FiberAndThread list \<Rightarrow> bool" where
  "callbacks_for tid q \<longleftrightarrow>
     (\<forall>it \<in> set q. ft_fiber it = None \<and> ft_cb it \<noteq> None \<and> (ft_thread it = -1 \<or> ft_thread it = tid))"

lemma callbacks_queue_ok: "callbacks_for tid q \<Longrightarrow> queue_ok objs q"
  by (auto simp: callbacks_for_def queue_ok_def ft_full_def)

lemma callbacks_ahead: "callbacks_for tid q \<Longrightarrow> ahead objs tid q = q \<and> passed objs tid q = []"
  by (cases q) (auto simp: ahead_def passed_def callbacks_for_def eligible_def foreign_def busy_def)

lemma drain_one:
  assumes rdy: "worker_with P tid c mn w" and q: "m_fibers (sw_sched w) = it # rest"
    and cbs: "callbacks_for tid (it # rest)"
  shows "\<exists>w'. run_iteration tid c (SEnd e) w = Inr w' \<and> worker_with P tid c mn w' \<and>
    sw_sched w' = (sw_sched w)\<lparr>m_fibers := rest\<rparr> \<and> has_cb_fiber tid w' \<and>
    fw_fiber_id (sw_fw w') = fw_fiber_id (sw_fw w) + (if has_cb_fiber tid w then 0 else 1)"
proof -
  obtain l i fi mf where l: "sw_run w tid = Some l" "l_pc l = LTop" "l_idle_fiber l = i" "i \<noteq> mn" "i \<noteq> c"
      "c \<noteq> mn" and mn: "GetMainFiber tid (sw_fw w) = Some mn" "fw_objs (sw_fw w) mn = Some mf"
    and fi: "fw_objs (sw_fw w) i = Some fi" "P fi"
    and cf: "case l_cb_fiber l of None \<Rightarrow> True
         | Some a \<Rightarrow> a = c \<and> (\<exists>f. fw_objs (sw_fw w) c = Some f \<and> f_stack f \<and> f_state f = INIT)"
    using rdy by (auto simp: worker_with_def)
  obtain k where k: "ft_fiber it = None" "ft_cb it = Some k" using cbs by (auto simp: callbacks_for_def)
  obtain l2 w2 where it: "run_iteration tid c (SEnd e) w = from_branch tid c (SEnd e) l2 w2"
    and ab: "at_branch tid it rest False l w l2 w2"
    using first_two_steps [OF l(1,2), of it rest c "SEnd e"] callbacks_queue_ok [OF cbs]
      callbacks_ahead [OF cbs, of "fw_objs (sw_fw w)"] q by auto
  have addr: "cb_address c l = c" using cf by (auto simp: cb_address_def split: option.splits)
  have "cb_ready c mn l w"
    using cf l(6) by (auto simp: cb_ready_def finished_or_new_def split: option.splits)
  from cb_branch [OF ab k this mn, of "SEnd e"] obtain w' l' g where
    r: "from_branch tid c (SEnd e) l2 w2 = Inr w'" and g: "fresh_for k g"
    and s': "sw_sched w' = (sw_sched w)\<lparr>m_fibers := rest\<rparr>"
    and o': "fw_objs (sw_fw w') = (fw_objs (sw_fw w))
      (c \<mapsto> recycled (slice_result (SEnd e) g), mn \<mapsto> mf\<lparr>f_ctx := Running\<rparr>)"
    and id': "fw_fiber_id (sw_fw w') = fw_fiber_id (sw_fw w) + (if l_cb_fiber l = None then 1 else 0)"
    and m': "GetMainFiber tid (sw_fw w') = Some mn"
    and l': "sw_run w' = (sw_run w)(tid \<mapsto> l')" "l_pc l' = LTop" "l_idle_fiber l' = l_idle_fiber l"
      "l_cb_fiber l' = Some c"
    by (auto simp: addr ended_def requeued_def)
  have "worker_with P tid c mn w'"
    using l l' o' m' fi g by (auto simp: worker_with_def recycled_def fresh_for_def)
  moreover have "has_cb_fiber tid w'" "has_cb_fiber tid w \<longleftrightarrow> l_cb_fiber l \<noteq> None"
    using l l' by (simp_all add: has_cb_fiber_def)
  ultimately show ?thesis using it r s' id' by auto
qed

lemma drain_all:
  assumes "worker_with P tid c mn w" and "callbacks_for tid (m_fibers (sw_sched w))"
    and "length es = length (m_fibers (sw_sched w))"
  shows "\<exists>w'. ofold (run_iteration tid c) (map SEnd es) w = Inr w' \<and> worker_with P tid c mn w' \<and>
    sw_sched w' = (sw_sched w)\<lparr>m_fibers := []\<rparr> \<and>
    fw_fiber_id (sw_fw w') = fw_fiber_id (sw_fw w) + (if has_cb_fiber tid w \<or> es = [] then 0 else 1)"
  using assms
proof (induction es arbitrary: w)
  case Nil
  then show ?case by simp
next
  case (Cons e es)
  then obtain it rest where q: "m_fibers (sw_sched w) = it # rest" "length es = length rest"
    by (metis length_Suc_conv list.simps(3) length_Cons)
  with Cons.prems drain_one [of P tid c mn w it rest e] obtain w1 where
    w1: "run_iteration tid c (SEnd e) w = Inr w1" "worker_with P tid c mn w1"
      "sw_sched w1 = (sw_sched w)\<lparr>m_fibers := rest\<rparr>" "has_cb_fiber tid w1"
      "fw_fiber_id (sw_fw w1) = fw_fiber_id (sw_fw w) + (if has_cb_fiber tid w then 0 else 1)"
    by auto
  have "callbacks_for tid rest" using Cons.prems(2) q by (simp add: callbacks_for_def)
  with Cons.IH [of w1] w1 q show ?case by auto
qed

lemma drain_prefix:
  assumes "worker_with P tid c mn w" and "callbacks_for tid (m_fibers (sw_sched w))"
    and "length es \<le> length (m_fibers (sw_sched w))"
  shows "\<exists>v. ofold (run_iteration tid c) (map SEnd es) w = Inr v \<and>
    m_fibers (sw_sched v) = drop (length es) (m_fibers (sw_sched w))"
  using assms
proof (induction es arbitrary: w)
  case Nil
  then show ?case by simp
next
  case (Cons e es)
  then obtain it rest where q: "m_fibers (sw_sched w) = it # rest" "length es \<le> length rest"
    by (cases "m_fibers (sw_sched w)") auto
  with Cons.prems drain_one [of P tid c mn w it rest e] obtain w1 where
    w1: "run_iteration tid c (SEnd e) w = Inr w1" "worker_with P tid c mn w1"
      "sw_sched w1 = (sw_sched w)\<lparr>m_fibers := rest\<rparr>" by auto
  have "callbacks_for tid rest" using Cons.prems(2) q by (simp add: callbacks_for_def)
  with Cons.IH [of w1] w1 q show ?case by auto
qed

lemma drain_end:
  assumes rdy: "worker_ready tid c mn w" and q: "stopping (sw_sched w)"
  shows "\<exists>w'. ofold (run_iteration tid c) [s1, s2] w = Inr w' \<and>
    map_option l_pc (sw_run w' tid) = Some LDone \<and> sw_sched w' = sw_sched w \<and>
    (\<forall>u. u \<noteq> tid \<longrightarrow> sw_run w' u = sw_run w u)"
proof -
  obtain l i fi mf where l: "sw_run w tid = Some l" "l_pc l = LTop" "l_idle_fiber l = i" "i \<noteq> mn"
    and mn: "GetMainFiber tid (sw_fw w) = Some mn" "fw_objs (sw_fw w) mn = Some mf"
    and fi: "fw_objs (sw_fw w) i = Some fi" "f_state fi = INIT" "f_ctx fi = AtEntry EMainFunc" "f_cb fi \<noteq> None"
    using rdy by (auto simp: worker_ready_def worker_with_def)
  have e: "m_fibers (sw_sched w) = []" using q by (simp add: stopping_def)
  have qo: "queue_ok objs []" "ahead objs tid [] = []" for objs :: "nat \<Rightarrow> 'a fn hps_Fiber option"
    by (simp_all add: queue_ok_def ahead_def)
  obtain l2 w2 where 1: "run_iteration tid c s1 w = from_branch tid c s1 l2 w2"
    and a1: "at_idle tid False l w l2 w2"
    using first_two_steps_idle [OF l(1,2), of c s1] qo e by auto
  have "can_switch tid mn mf i fi (sw_fw w)" using l mn fi by (simp add: can_switch_def)
  from idle_branch [OF a1 l(3) this, of c s1] fi(2) obtain w3 l3 where
    w3: "from_branch tid c s1 l2 w2 = Inr w3" "sw_sched w3 = sw_sched w"
      "fw_objs (sw_fw w3) i = Some (slice_result (SEnd Returned) fi)"
      "sw_run w3 = (sw_run w)(tid \<mapsto> l3)" "l_pc l3 = LTop" "l_idle_fiber l3 = i"
    using l(4) q by (auto simp: idle_slice_def)
  have l3: "sw_run w3 tid = Some l3" using w3 by simp
  obtain l4 w4 where 2: "run_iteration tid c s2 w3 = from_branch tid c s2 l4 w4"
    and a2: "at_idle tid False l3 w3 l4 w4"
    using first_two_steps_idle [OF l3 w3(5), of c s2] qo e w3(2) by auto
  have "f_state (slice_result (SEnd Returned) fi) = TERM'"
    using fi(4) by (simp add: slice_result_state)
  with idle_done [OF a2] w3(3,6)
  have "from_branch tid c s2 l4 w4 = Inr (set_run tid (l4\<lparr>l_pc := LDone\<rparr>) w4)" by simp
  with 1 2 w3 a2 show ?thesis by (simp add: at_idle_def)
qed


section \<open>A world for the witnesses\<close>

definition main_fiber :: "nat fn hps_Fiber" where
  "main_fiber = \<lparr>f_id = 0, f_stacksize = 0, f_state = EXEC, f_ctx = Running, f_stack = False, f_cb = None\<rparr>"

definition held_fiber :: "nat fn hps_Fiber" where
  "held_fiber = \<lparr>f_id = 1, f_stacksize = 4096, f_state = HOLD, f_ctx = InCode, f_stack = True,
     f_cb = Some (FnUser 5)\<rparr>"

definition finished_fiber :: "nat fn hps_Fiber" where
  "finished_fiber = held_fiber\<lparr>f_state := TERM', f_ctx := AtNeverReach, f_cb := None\<rparr>"

definition idle_fiber :: "nat fn hps_Fiber" where
  "idle_fiber = \<lparr>f_id = 2, f_stacksize = 4096, f_state = INIT, f_ctx = AtEntry EMainFunc, f_stack = True,
     f_cb = Some FnIdle\<rparr>"

definition top_local :: "nat \<Rightarrow> nat run_local" where
  "top_local i = \<lparr>l_pc = LTop, l_idle_fiber = i, l_cb_fiber = None, l_ft = FiberAndThread_reset,
     l_tickle_me = False, l_is_active = False\<rparr>"

definition fiber_entry :: "nat \<Rightarrow> int \<Rightarrow> nat hps_FiberAndThread" where
  "fiber_entry a thr = \<lparr>ft_fiber = Some a, ft_cb = None, ft_thread = thr\<rparr>"

definition cb_entry :: "nat \<Rightarrow> int \<Rightarrow> nat hps_FiberAndThread" where
  "cb_entry k thr = \<lparr>ft_fiber = None, ft_cb = Some (FnUser k), ft_thread = thr\<rparr>"

definition demo_sched :: "nat hps_FiberAndThread list \<Rightarrow> nat hps_Scheduler" where
  "demo_sched q = (Scheduler_fields ''demo'')\<lparr>m_fibers := q, m_rootThread := -1, m_threadCount := 2,
     m_threads := [7, 8], m_threadIds := [7, 8], m_autoStop := True\<rparr>"

text \<open>Workers 7 and 8, their main fibers at 1 and 4, idle fibers at 3 and 5, \<open>f\<close> at 2.\<close>

definition demo_workers :: "nat fn hps_Fiber \<Rightarrow> nat hps_FiberAndThread list \<Rightarrow> nat sched_world" where
  "demo_workers f q =
     \<lparr>sw_sched = demo_sched q,
      sw_fw = \<lparr>fw_objs = [1 \<mapsto> main_fiber, 2 \<mapsto> f, 3 \<mapsto> idle_fiber, 4 \<mapsto> main_fiber, 5 \<mapsto> idle_fiber],
               fw_fiber_id = 3, fw_fiber_count = 5,
               fw_tls = (\<lambda>t. \<lparr>t_fiber = None, t_threadFiber = None, t_scheduler_fiber = None\<rparr>)
                 (7 := \<lparr>t_fiber = Some 1, t_threadFiber = Some 1, t_scheduler_fiber = Some 1\<rparr>,
                  8 := \<lparr>t_fiber = Some 4, t_threadFiber = Some 4, t_scheduler_fiber = Some 4\<rparr>),
               fw_running = [7 \<mapsto> 1, 8 \<mapsto> 4]\<rparr>,
      sw_t_scheduler = (\<lambda>t. t \<in> {7, 8}), sw_hook = (\<lambda>t. t \<in> {7, 8}), sw_tickles = 0,
      sw_stack_size = 1048576, sw_run = [7 \<mapsto> top_local 3, 8 \<mapsto> top_local 5]\<rparr>"

lemma demo_simps [simp]:
  "sw_sched (demo_workers f q) = demo_sched q"
  "fw_objs (sw_fw (demo_workers f q)) (Suc 0) = Some main_fiber"
  "fw_objs (sw_fw (demo_workers f q)) 2 = Some f"
  "fw_objs (sw_fw (demo_workers f q)) 3 = Some idle_fiber"
  "fw_objs (sw_fw (demo_workers f q)) 4 = Some main_fiber"
  "fw_objs (sw_fw (demo_workers f q)) 6 = None"
  "GetMainFiber 7 (sw_fw (demo_workers f q)) = Some (Suc 0)"
  "GetMainFiber 8 (sw_fw (demo_workers f q)) = Some 4"
  "sw_run (demo_workers f q) 7 = Some (top_local 3)"
  "sw_run (demo_workers f q) 8 = Some (top_local 5)"
  "fw_fiber_id (sw_fw (demo_workers f q)) = 3"
  by (simp_all add: demo_workers_def GetMainFiber_def)

lemma demo_parts [simp]:
  "m_fibers (demo_sched q) = q" "m_activeThreadCount (demo_sched q) = 0" "m_stopping (demo_sched q)"
  "m_autoStop (demo_sched q)"
  "l_pc (top_local i) = LTop" "l_cb_fiber (top_local i) = None" "l_idle_fiber (top_local i) = i"
  "ft_fiber (fiber_entry a thr) = Some a" "ft_thread (fiber_entry a thr) = thr"
  "ft_fiber (cb_entry k thr) = None" "ft_cb (cb_entry k thr) = Some (FnUser k)" "ft_thread (cb_entry k thr) = thr"
  "f_state held_fiber = HOLD" "f_ctx held_fiber = InCode" "f_cb held_fiber = Some (FnUser 5)"
  "f_state finished_fiber = TERM'" "f_ctx finished_fiber = AtNeverReach"
  "f_state idle_fiber = INIT" "f_ctx idle_fiber = AtEntry EMainFunc" "f_cb idle_fiber = Some FnIdle"
  "f_state main_fiber = EXEC"
  by (simp_all add: demo_sched_def Scheduler_fields_def top_local_def fiber_entry_def cb_entry_def
      held_fiber_def finished_fiber_def idle_fiber_def main_fiber_def)

section \<open>Properties\<close>

text \<open>
  C25: What a worker takes from the queue: the first entry that is not pinned to another
  thread and whose fiber is not executing; the entries before and behind it stay in order,
  the active count grows by one exactly if an entry was taken, and \<open>tickle_me\<close> is set exactly
  if an entry of another thread was passed over.
\<close>

theorem worker_takes_first_eligible:
  assumes "queue_ok (fw_objs (sw_fw w)) (m_fibers (sw_sched w))"
    and "m_fibers (sw_sched w) = front @ it # behind"
    and "\<forall>x \<in> set front. \<not> eligible (fw_objs (sw_fw w)) tid x" and "eligible (fw_objs (sw_fw w)) tid it"
  shows "run_pick tid l w =
    Inr (set_run tid (l\<lparr>l_pc := LTickle, l_ft := it,
           l_tickle_me := (\<exists>x \<in> set front. ft_thread x \<noteq> -1 \<and> ft_thread x \<noteq> tid), l_is_active := True\<rparr>)
         (upd_sched (\<lambda>s. s\<lparr>m_fibers := front @ behind,
            m_activeThreadCount := m_activeThreadCount (sw_sched w) + 1\<rparr>) w))"
proof -
  let ?P = "\<lambda>x. \<not> eligible (fw_objs (sw_fw w)) tid x"
  have "takeWhile ?P (front @ it # behind) = front" "dropWhile ?P (front @ it # behind) = it # behind"
    using assms(3,4) by (simp_all add: takeWhile_append2 dropWhile_append2)
  then show ?thesis
    using assms(2) pick_result [OF assms(1), of tid]
    by (simp add: run_pick_def passed_def ahead_def foreign_def upd_sched_def)
qed

theorem worker_takes_first_eligible_witness:
  "run_pick 7 (top_local 3) (demo_workers held_fiber [cb_entry 9 8, fiber_entry 1 (-1), fiber_entry 2 7]) =
    Inr (set_run 7 ((top_local 3)\<lparr>l_pc := LTickle, l_ft := fiber_entry 2 7, l_tickle_me := True, l_is_active := True\<rparr>)
         (upd_sched (\<lambda>s. s\<lparr>m_fibers := [cb_entry 9 8, fiber_entry 1 (-1)], m_activeThreadCount := 1\<rparr>)
           (demo_workers held_fiber [cb_entry 9 8, fiber_entry 1 (-1), fiber_entry 2 7])))"
  using worker_takes_first_eligible [of "demo_workers held_fiber [cb_entry 9 8, fiber_entry 1 (-1), fiber_entry 2 7]"
      "[cb_entry 9 8, fiber_entry 1 (-1)]" "fiber_entry 2 7" "[]" 7 "top_local 3"]
  by (simp add: queue_ok_def ft_full_def eligible_def foreign_def busy_def)

text \<open>
  Scheduling a range appends one entry for each element that is not empty, in order
  and unpinned, exactly as the single calls would, leaves every element of the range empty,
  and tickles once, and only if the queue was empty and the range is not.
\<close>

theorem schedule_range_like_single_calls:
  "m_fibers (sw_sched (snd (schedule_range fcs w))) =
     m_fibers (sw_sched (fold (\<lambda>fc. schedule fc (-1)) fcs w)) \<and>
   list_all fc_empty (fst (schedule_range fcs w)) \<and>
   length (fst (schedule_range fcs w)) = length fcs \<and>
   sw_tickles (snd (schedule_range fcs w)) =
     sw_tickles w + (if m_fibers (sw_sched w) = [] \<and> fcs \<noteq> [] then 1 else 0)"
proof -
  have "m_fibers (sw_sched (fold (\<lambda>fc. schedule fc (-1)) fcs w)) =
      m_fibers (sw_sched w) @ filter ft_full (map (\<lambda>fc. FiberAndThread_new fc (-1)) fcs)"
    by (induction fcs arbitrary: w) simp_all
  moreover have "fst (schedule_range fcs w) = map (\<lambda>fc. snd (FiberAndThread_swap fc (-1))) fcs"
    by (simp add: schedule_range_def schedule_loop_result Let_def)
  ultimately show ?thesis
    using FiberAndThread_swap_empty by (auto simp: list_all_iff)
qed




text \<open>
  C22: An iteration of a worker that takes a fiber which can be continued runs one slice of
  it: a fiber that yielded ready is put back at the end of the queue, not pinned to any
  thread whatever its entry said; any other is not; the fiber is left READY, on HOLD (also
  after a bare switch out), or finished; the counters are as before, and no other fiber but
  the worker's own saved context has changed.
\<close>

theorem worker_runs_fiber_slice:
  assumes "sw_run w tid = Some l" and "l_pc l = LTop"
    and "queue_ok (fw_objs (sw_fw w)) (m_fibers (sw_sched w))"
    and "m_fibers (sw_sched w) = front @ it # behind"
    and "\<forall>x \<in> set front. \<not> eligible (fw_objs (sw_fw w)) tid x" and "eligible (fw_objs (sw_fw w)) tid it"
    and "ft_fiber it = Some a" and "can_switch tid mn mf a f (sw_fw w)"
  shows "\<exists>w' f'. run_iteration tid c sl w = Inr w' \<and>
    sw_sched w' = (sw_sched w)\<lparr>m_fibers := front @ behind @
      (if sl = SReady then [\<lparr>ft_fiber = Some a, ft_cb = None, ft_thread = -1\<rparr>] else [])\<rparr> \<and>
    fw_objs (sw_fw w') = (fw_objs (sw_fw w))(a \<mapsto> f', mn \<mapsto> mf\<lparr>f_ctx := Running\<rparr>) \<and>
    f_id f' = f_id f \<and>
    f_state f' = (case sl of SReady \<Rightarrow> READY | SHold \<Rightarrow> HOLD | SOut \<Rightarrow> HOLD
                  | SEnd e \<Rightarrow> if e = Returned \<and> f_cb f \<noteq> None then TERM' else EXCEPT)"
proof -
  let ?P = "\<lambda>x. \<not> eligible (fw_objs (sw_fw w)) tid x"
  have ahd: "ahead (fw_objs (sw_fw w)) tid (m_fibers (sw_sched w)) = it # behind"
    and psd: "passed (fw_objs (sw_fw w)) tid (m_fibers (sw_sched w)) = front"
    using assms(4-6) by (simp_all add: ahead_def passed_def takeWhile_append2 dropWhile_append2)
  obtain l2 w2 t where 1: "run_iteration tid c sl w = from_branch tid c sl l2 w2"
    and ab: "at_branch tid it (front @ behind) t l w l2 w2"
    using first_two_steps [OF assms(1-3) ahd, of c sl] psd by auto
  have "f_id (settle (slice_result sl f)) = f_id f" by (simp add: settle_def)
  moreover have "f_state (settle (slice_result sl f)) =
      (case sl of SReady \<Rightarrow> READY | SHold \<Rightarrow> HOLD | SOut \<Rightarrow> HOLD
                  | SEnd e \<Rightarrow> if e = Returned \<and> f_cb f \<noteq> None then TERM' else EXCEPT)"
    by (cases sl) (simp_all add: settle_def slice_result_state)
  ultimately show ?thesis
    using fiber_branch [OF ab assms(7,8), of c sl] 1 by (fastforce simp: requeued_def)
qed

theorem worker_runs_fiber_slice_witness:
  "\<exists>w' f'. run_iteration 7 6 SReady (demo_workers held_fiber [fiber_entry 2 7, cb_entry 9 (-1)]) = Inr w' \<and>
     m_fibers (sw_sched w') = [cb_entry 9 (-1), \<lparr>ft_fiber = Some 2, ft_cb = None, ft_thread = -1\<rparr>] \<and>
     fw_objs (sw_fw w') 2 = Some f' \<and> f_state f' = READY"
  using worker_runs_fiber_slice [of "demo_workers held_fiber [fiber_entry 2 7, cb_entry 9 (-1)]" 7
      "top_local 3" "[]" "fiber_entry 2 7" "[cb_entry 9 (-1)]" 2 1 main_fiber held_fiber 6 SReady]
  by (force simp: queue_ok_def ft_full_def eligible_def foreign_def busy_def can_switch_def)

text \<open>
  A fiber that has finished and is scheduled again takes the process down: the guard
  in front of the switch (\<open>state != TERM || state != EXCEPT\<close>) lets every state through.
\<close>

theorem scheduled_finished_fiber_aborts:
  assumes "sw_run w tid = Some l" and "l_pc l = LTop"
    and "queue_ok (fw_objs (sw_fw w)) (m_fibers (sw_sched w))"
    and "m_fibers (sw_sched w) = it # behind" and "eligible (fw_objs (sw_fw w)) tid it"
    and "ft_fiber it = Some a" and "GetMainFiber tid (sw_fw w) = Some mn" and "mn \<noteq> a"
    and "fw_objs (sw_fw w) mn \<noteq> None" and "fw_objs (sw_fw w) a = Some f"
    and "f_state f = TERM' \<or> f_state f = EXCEPT" and "f_ctx f = AtNeverReach"
  shows "run_iteration tid c sl w = Inl (AssertFail ''never reach'')"
proof -
  have ahd: "ahead (fw_objs (sw_fw w)) tid (m_fibers (sw_sched w)) = it # behind"
    using assms(4,5) by (simp add: ahead_def)
  obtain q t l2 w2 where 1: "run_iteration tid c sl w = from_branch tid c sl l2 w2"
    and ab: "at_branch tid it q t l w l2 w2"
    using first_two_steps [OF assms(1-3) ahd, of c sl] by auto
  obtain mf where "fw_objs (sw_fw w) mn = Some mf" using assms(9) by blast
  with finished_fiber_branch [OF ab assms(6-8) _ assms(10)] assms(11,12) 1 show ?thesis by auto
qed

theorem scheduled_finished_fiber_aborts_witness:
  "run_iteration 7 6 SHold (demo_workers finished_fiber [fiber_entry 2 (-1)]) = Inl (AssertFail ''never reach'')"
  by (rule scheduled_finished_fiber_aborts [where l = "top_local 3" and it = "fiber_entry 2 (-1)" and
        behind = "[]" and a = 2 and mn = 1 and f = finished_fiber])
    (simp_all add: queue_ok_def ft_full_def eligible_def foreign_def busy_def)

text \<open>
  C19: A callback gets the worker's callback fiber, recycled from an earlier callback if
  there is one. A callback that ends leaves that fiber, whatever way it ended, empty and in
  INIT for the next one; a callback that yields takes the fiber with it: ready ones go to the
  end of the queue, unpinned, and the worker will make a new fiber for its next callback.
\<close>

theorem worker_runs_callback:
  assumes "sw_run w tid = Some l" and "l_pc l = LTop"
    and "queue_ok (fw_objs (sw_fw w)) (m_fibers (sw_sched w))"
    and "m_fibers (sw_sched w) = front @ it # behind"
    and "\<forall>x \<in> set front. \<not> eligible (fw_objs (sw_fw w)) tid x" and "eligible (fw_objs (sw_fw w)) tid it"
    and "ft_fiber it = None" and "ft_cb it = Some k" and "cb_ready c mn l w"
    and "GetMainFiber tid (sw_fw w) = Some mn" and "fw_objs (sw_fw w) mn = Some mf"
  shows "\<exists>w' l' f'. run_iteration tid c sl w = Inr w' \<and>
    sw_sched w' = (sw_sched w)\<lparr>m_fibers := front @ behind @
      (if sl = SReady then [\<lparr>ft_fiber = Some (cb_address c l), ft_cb = None, ft_thread = -1\<rparr>] else [])\<rparr> \<and>
    sw_run w' = (sw_run w)(tid \<mapsto> l') \<and>
    l_cb_fiber l' = (case sl of SEnd e \<Rightarrow> Some (cb_address c l) | _ \<Rightarrow> None) \<and>
    fw_objs (sw_fw w') (cb_address c l) = Some f' \<and>
    (case sl of SReady \<Rightarrow> f_state f' = READY \<and> f_cb f' = Some k
       | SHold \<Rightarrow> f_state f' = HOLD \<and> f_cb f' = Some k
       | SOut \<Rightarrow> f_state f' = HOLD \<and> f_cb f' = Some k
       | SEnd e \<Rightarrow> f_state f' = INIT \<and> f_cb f' = None) \<and>
    fw_fiber_id (sw_fw w') = fw_fiber_id (sw_fw w) + (if l_cb_fiber l = None then 1 else 0)"
proof -
  have ahd: "ahead (fw_objs (sw_fw w)) tid (m_fibers (sw_sched w)) = it # behind"
    and psd: "passed (fw_objs (sw_fw w)) tid (m_fibers (sw_sched w)) = front"
    using assms(4-6) by (simp_all add: ahead_def passed_def takeWhile_append2 dropWhile_append2)
  obtain l2 w2 t where 1: "run_iteration tid c sl w = from_branch tid c sl l2 w2"
    and ab: "at_branch tid it (front @ behind) t l w l2 w2"
    using first_two_steps [OF assms(1-3) ahd, of c sl] psd by auto
  have ne: "cb_address c l \<noteq> mn"
    using assms(9) by (auto simp: cb_ready_def cb_address_def split: option.splits)
  from cb_branch [OF ab assms(7-11), of sl] obtain w' l' g where
    r: "from_branch tid c sl l2 w2 = Inr w'" and g: "fresh_for k g"
    and s: "sw_sched w' = (sw_sched w)\<lparr>m_fibers := (front @ behind) @ requeued sl (cb_address c l)\<rparr>"
    and o: "fw_objs (sw_fw w') = (fw_objs (sw_fw w))
      (cb_address c l \<mapsto> (if ended sl then recycled (slice_result sl g) else settle (slice_result sl g)),
       mn \<mapsto> mf\<lparr>f_ctx := Running\<rparr>)"
    and i: "fw_fiber_id (sw_fw w') = fw_fiber_id (sw_fw w) + (if l_cb_fiber l = None then 1 else 0)"
    and l: "sw_run w' = (sw_run w)(tid \<mapsto> l')" "l_cb_fiber l' = (if ended sl then Some (cb_address c l) else None)"
    by auto
  show ?thesis
    using 1 r s o i l ne g
    by (intro exI [of _ w'] exI [of _ l'] exI [of _ "if ended sl then recycled (slice_result sl g)
           else settle (slice_result sl g)"])
      (cases sl; simp add: requeued_def ended_def recycled_def settle_def slice_result_def fresh_for_def)
qed

theorem worker_runs_callback_witness:
  "\<exists>w' l'. run_iteration 7 6 (SEnd ThrewOther) (demo_workers held_fiber [cb_entry 9 (-1)]) = Inr w' \<and>
     sw_run w' 7 = Some l' \<and> l_cb_fiber l' = Some 6 \<and> m_fibers (sw_sched w') = []"
  using worker_runs_callback [of "demo_workers held_fiber [cb_entry 9 (-1)]" 7 "top_local 3" "[]"
      "cb_entry 9 (-1)" "[]" "FnUser 9" 6 1 main_fiber "SEnd ThrewOther"]
  by (auto simp: queue_ok_def ft_full_def eligible_def foreign_def busy_def cb_ready_def cb_address_def)




text \<open>
  Between the decrement of the active count and the rescheduling of a fiber that
  yielded ready, that fiber is nowhere to be seen: \<open>stopping()\<close> is true, so an idle worker
  that looks now ends, although one step later the queue holds work again.
\<close>

theorem ready_fiber_invisible_to_stopping:
  assumes "sw_run w tid = Some l" and "l_pc l = LBack BFiber" and "ft_fiber (l_ft l) = Some a"
    and "fw_objs (sw_fw w) a = Some f" and "f_state f = READY"
    and "m_autoStop (sw_sched w)" and "m_stopping (sw_sched w)"
    and "m_fibers (sw_sched w) = []" and "m_activeThreadCount (sw_sched w) = 1"
  shows "\<exists>w1 w2. step_thread tid c sl w = Inr w1 \<and> step_thread tid c sl w1 = Inr w2 \<and>
    stopping (sw_sched w1) \<and> idle_slice (sw_sched w1) = SEnd Returned \<and>
    m_fibers (sw_sched w2) = [\<lparr>ft_fiber = Some a, ft_cb = None, ft_thread = -1\<rparr>] \<and>
    \<not> stopping (sw_sched w2)"
  using assms
  by (simp add: step_thread_def run_step_def run_back_def run_after_fiber_def fiber_state_def Let_def
      stopping_def idle_slice_def ft_full_def)

theorem ready_fiber_invisible_to_stopping_witness:
  "\<exists>v w1 w2. ofold (\<lambda>_. step_thread 7 6 SReady) [1::nat, 2, 3, 4]
       (demo_workers held_fiber [fiber_entry 2 (-1)]) = Inr v \<and>
     step_thread 7 6 SReady v = Inr w1 \<and> step_thread 7 6 SReady w1 = Inr w2 \<and>
     stopping (sw_sched w1) \<and> \<not> stopping (sw_sched w2)"
proof -
  let ?w = "demo_workers held_fiber [fiber_entry 2 (-1)]"
  obtain v l f where v: "ofold (\<lambda>_. step_thread 7 6 SReady) [1::nat, 2, 3, 4] ?w = Inr v"
    "sw_run v 7 = Some l" "l_pc l = LBack BFiber" "ft_fiber (l_ft l) = Some 2"
    "fw_objs (sw_fw v) 2 = Some f" "f_state f = READY"
    "m_autoStop (sw_sched v)" "m_stopping (sw_sched v)" "m_fibers (sw_sched v) = []"
    "m_activeThreadCount (sw_sched v) = 1"
    by (simp add: step_thread_def run_step_def run_pick_def run_tickle_def run_branch_def Let_def
        run_fiber_branch_def fiber_state_def fiber_guard_def run_in_def l_current_def
        swapIn_def swapcontext_def run_slice_def YieldToReady_def YieldTo_def GetThis_def swapOut_def
        GetMainFiber_def demo_workers_def SetThis_def upd_tls_def upd_fiber_def held_fiber_def main_fiber_def)
  from ready_fiber_invisible_to_stopping [OF v(2-10), of 6 SReady] v(1) show ?thesis by blast
qed

text \<open>
  A fiber that stands twice in the queue can be taken by two workers at once: both
  take it before either has switched to it, the first switch sets EXEC, and the second fails
  the assertion in \<open>swapIn\<close>, so the process aborts.
\<close>

theorem twice_scheduled_fiber_aborts:
  assumes "t1 \<noteq> t2" and "sw_run w t1 = Some l1" and "l_pc l1 = LTop" and "sw_run w t2 = Some l2" and "l_pc l2 = LTop"
    and "m_fibers (sw_sched w) = it # it # rest" and "ft_thread it = -1" and "ft_fiber it = Some a"
    and "can_switch t1 mn mf a f (sw_fw w)"
  shows "ofold (\<lambda>tid. step_thread tid c sl) [t1, t2, t1, t2, t1, t2] w =
    Inl (AssertFail ''m_state != EXEC'')"
proof -
  have f: "fw_objs (sw_fw w) a = Some f" "f_state f \<noteq> EXEC" using assms(9) by (simp_all add: can_switch_def)
  have "pick (fw_objs (sw_fw w)) t (it # q) = Inr (Some it, False, q)" for t q
    using assms(7,8) f by simp
  note pick = this
  obtain fw1 where s1: "swapIn t1 a (sw_fw w) = Inr fw1"
    and o1: "\<exists>f1. fw_objs fw1 a = Some f1 \<and> f_state f1 = EXEC"
    using assms(9) swapIn_ok [of t1 "sw_fw w" mn a mf f] by (auto simp: can_switch_def)
  have s2: "swapIn t2 a fw1 = Inl (AssertFail ''m_state != EXEC'')"
    using o1 swapIn_executing by blast
  show ?thesis
    using assms(1-6,8) f s1 s2 o1
    by (auto simp: step_thread_def run_step_def run_pick_def pick run_tickle_def run_branch_def
        run_fiber_branch_def fiber_state_def fiber_guard_def Let_def simp del: pick.simps)
qed

theorem twice_scheduled_fiber_aborts_witness:
  "ofold (\<lambda>tid. step_thread tid 6 SHold) [7, 8, 7, 8, 7, 8]
     (demo_workers held_fiber [fiber_entry 2 (-1), fiber_entry 2 (-1)]) = Inl (AssertFail ''m_state != EXEC'')"
  by (rule twice_scheduled_fiber_aborts [where ?l1.0 = "top_local 3" and ?l2.0 = "top_local 5" and
        it = "fiber_entry 2 (-1)" and rest = "[]" and a = 2 and mn = 1 and mf = main_fiber and f = held_fiber])
    (simp_all add: can_switch_def)

end
