(* ===== verification/Hps_IOManager.thy ===== *)
theory Hps_IOManager
  imports Hps_Scheduler Hps_Timer
begin

unbundle bit_operations_syntax

text \<open>
  hps_sf/iomanager.h and hps_sf/iomanager.cpp: the IO manager, a scheduler and a timer manager
  that waits for file descriptors with epoll. The kernel is outside the sources: \<open>epoll_ctl\<close> is
  a parameter of the operations (a function of the kernel's state), what \<open>epoll_wait\<close> returned
  is an argument, and the theorems that need to know what \<open>epoll_ctl\<close> does assume its
  documented effect.
\<close>

section \<open>Data\<close>

type_synonym hps_Event = u32

definition NONE :: hps_Event where "NONE = 0"
definition READ :: hps_Event where "READ = 1"
definition WRITE :: hps_Event where "WRITE = 4"

text \<open>Constants of \<open>sys/epoll.h\<close>.\<close>

definition EPOLLIN :: u32 where "EPOLLIN = 1"
definition EPOLLOUT :: u32 where "EPOLLOUT = 4"
definition EPOLLERR :: u32 where "EPOLLERR = 8"
definition EPOLLHUP :: u32 where "EPOLLHUP = 16"
definition EPOLLET :: u32 where "EPOLLET = 2147483648"

datatype ctl_op = CTL_ADD | CTL_MOD | CTL_DEL

text \<open>The scheduler of an event: this manager's (\<open>True\<close>) or null.\<close>

record 'cb hps_EventContext =
  ec_scheduler :: bool
  ec_fiber :: "nat option"
  ec_cb :: "'cb fn option"

record 'cb hps_FdContext =
  fd_read :: "'cb hps_EventContext"
  fd_write :: "'cb hps_EventContext"
  fd_fd :: int
  fd_events :: hps_Event

text \<open>
  The manager: its scheduler and timer parts, the pending count, the contexts by file
  descriptor, the bytes in the tickle pipe, and the kernel's state.
\<close>

record ('cb, 'k) hps_IOManager =
  io_sw :: "'cb sched_world"
  io_tm :: "'cb fn hps_TimerManager"
  io_pendingEventCount :: u64
  io_fdContexts :: "'cb hps_FdContext option list"
  io_pipe :: nat
  io_kernel :: 'k

type_synonym 'k epoll_ctl = "ctl_op \<Rightarrow> int \<Rightarrow> u32 \<Rightarrow> 'k \<Rightarrow> int \<times> 'k"

section \<open>Contexts\<close>

definition EventContext_empty :: "'cb hps_EventContext" where
  "EventContext_empty = \<lparr>ec_scheduler = False, ec_fiber = None, ec_cb = None\<rparr>"

definition FdContext_new :: "int \<Rightarrow> 'cb hps_FdContext" where
  "FdContext_new fd = \<lparr>fd_read = EventContext_empty, fd_write = EventContext_empty,
     fd_fd = fd, fd_events = NONE\<rparr>"

definition getContext :: "hps_Event \<Rightarrow> 'cb hps_FdContext \<Rightarrow> 'cb hps_EventContext outcome" where
  "getContext event c =
     (if event = READ then Inr (fd_read c)
      else if event = WRITE then Inr (fd_write c)
      else Inl (AssertFail ''getContext''))"

text \<open>Writing through the reference \<open>getContext\<close> returned.\<close>

definition putContext ::
  "hps_Event \<Rightarrow> 'cb hps_EventContext \<Rightarrow> 'cb hps_FdContext \<Rightarrow> 'cb hps_FdContext" where
  "putContext event e c = (if event = READ then c\<lparr>fd_read := e\<rparr> else c\<lparr>fd_write := e\<rparr>)"

definition resetContext :: "'cb hps_EventContext \<Rightarrow> 'cb hps_EventContext" where
  "resetContext e = e\<lparr>ec_scheduler := False, ec_fiber := None, ec_cb := None\<rparr>"

text \<open>\<open>m_fdContexts[fd]\<close> for an \<open>int\<close> index, and writing back to it.\<close>

definition ctx_at :: "int \<Rightarrow> ('cb, 'k) hps_IOManager \<Rightarrow> 'cb hps_FdContext outcome" where
  "ctx_at fd io =
     (if 0 \<le> fd \<and> nat fd < length (io_fdContexts io)
      then deref (io_fdContexts io ! nat fd) ''fd_ctx''
      else Inl (OutOfRange ''m_fdContexts[fd]''))"

definition put_ctx :: "int \<Rightarrow> 'cb hps_FdContext \<Rightarrow> ('cb, 'k) hps_IOManager \<Rightarrow> ('cb, 'k) hps_IOManager"
where
  "put_ctx fd c io = io\<lparr>io_fdContexts := (io_fdContexts io)[nat fd := Some c]\<rparr>"

definition contexts_size :: "('cb, 'k) hps_IOManager \<Rightarrow> int" where
  "contexts_size io = to_int32 (of_nat (length (io_fdContexts io)))"

text \<open>\<open>contextResize\<close>: \<open>resize((int)size)\<close>, then a new context for every null entry.\<close>

definition fill_contexts :: "'cb hps_FdContext option list \<Rightarrow> 'cb hps_FdContext option list" where
  "fill_contexts cs =
     map (\<lambda>(i, c). case c of None \<Rightarrow> Some (FdContext_new (int i)) | Some _ \<Rightarrow> c) (enumerate 0 cs)"

definition contextResize :: "u64 \<Rightarrow> ('cb, 'k) hps_IOManager \<Rightarrow> ('cb, 'k) hps_IOManager outcome" where
  "contextResize sz io =
     (let n = to_int32 sz; cs = io_fdContexts io in
      if n < 0 then Inl (Thrown ''std::length_error'')
      else Inr (io\<lparr>io_fdContexts :=
             fill_contexts (take (nat n) cs @ replicate (nat n - length cs) None)\<rparr>))"

section \<open>Waking and scheduling\<close>

text \<open>The override of \<open>tickle\<close>: one byte into the pipe if some thread is idle.\<close>

definition IOManager_tickle :: "('cb, 'k) hps_IOManager \<Rightarrow> ('cb, 'k) hps_IOManager" where
  "IOManager_tickle io =
     (if \<not> hasIdleThreads (sw_sched (io_sw io)) then io else io\<lparr>io_pipe := Suc (io_pipe io)\<rparr>)"

definition onTimerInsertedAtFront :: "('cb, 'k) hps_IOManager \<Rightarrow> ('cb, 'k) hps_IOManager" where
  "onTimerInsertedAtFront io = IOManager_tickle io"

definition set_sched :: "'cb hps_Scheduler \<Rightarrow> ('cb, 'k) hps_IOManager \<Rightarrow> ('cb, 'k) hps_IOManager" where
  "set_sched s io = io\<lparr>io_sw := upd_sched (\<lambda>_. s) (io_sw io)\<rparr>"

text \<open>The scheduler's \<open>schedule\<close> on an IO manager: its \<open>tickle\<close> is the override.\<close>

definition io_schedule ::
  "'cb hps_FiberAndThread \<Rightarrow> ('cb, 'k) hps_IOManager \<Rightarrow> ('cb, 'k) hps_IOManager" where
  "io_schedule ft io =
     (case scheduleNoLock ft (sw_sched (io_sw io)) of
        (need_tickle, s) \<Rightarrow>
          let io1 = set_sched s io in if need_tickle then IOManager_tickle io1 else io1)"

definition io_schedule_range ::
  "'cb fiber_or_cb list \<Rightarrow> ('cb, 'k) hps_IOManager \<Rightarrow> ('cb, 'k) hps_IOManager" where
  "io_schedule_range fcs io =
     (case schedule_loop fcs False (sw_sched (io_sw io)) of
        (need_tickle, _, s) \<Rightarrow>
          let io1 = set_sched s io in if need_tickle then IOManager_tickle io1 else io1)"

text \<open>
  \<open>triggerEvent\<close> on the context of descriptor \<open>fd\<close>: the callback or the fiber is swapped out of
  the context into the queue of the event's scheduler.
\<close>

definition triggerEvent ::
  "int \<Rightarrow> hps_Event \<Rightarrow> ('cb, 'k) hps_IOManager \<Rightarrow> ('cb, 'k) hps_IOManager outcome" where
  "triggerEvent fd event io =
     obind (ctx_at fd io) (\<lambda>c.
     HPS_ASSERT (fd_events c AND event \<noteq> 0) ''events & event''
       (let c1 = c\<lparr>fd_events := fd_events c AND NOT event\<rparr> in
        obind (getContext event c1) (\<lambda>ctx.
          if \<not> ec_scheduler ctx then Inl (NullDeref ''ctx.scheduler'')
          else
            let ft = (if ec_cb ctx \<noteq> None then fst (FiberAndThread_swap (FcCb (ec_cb ctx)) (-1))
                      else fst (FiberAndThread_swap (FcFiber (ec_fiber ctx)) (-1)));
                ctx1 = (if ec_cb ctx \<noteq> None then ctx\<lparr>ec_cb := None\<rparr> else ctx\<lparr>ec_fiber := None\<rparr>);
                ctx2 = ctx1\<lparr>ec_scheduler := False\<rparr> in
            Inr (io_schedule ft (put_ctx fd (putContext event ctx2 c1) io)))))"

section \<open>Registering and removing events\<close>

definition add_pending :: "u64 \<Rightarrow> ('cb, 'k) hps_IOManager \<Rightarrow> ('cb, 'k) hps_IOManager" where
  "add_pending n io = io\<lparr>io_pendingEventCount := io_pendingEventCount io + n\<rparr>"

text \<open>
  \<open>addEvent\<close> in its three critical sections: the look-up under the read lock (is the
  descriptor's context there?), the resize under the write lock if not, the registration
  under the context's lock. \<open>tid\<close> is the calling thread, \<open>a\<close> the address for its main fiber.
\<close>

definition addEvent_lookup :: "int \<Rightarrow> ('cb, 'k) hps_IOManager \<Rightarrow> bool outcome" where
  "addEvent_lookup fd io =
     (if contexts_size io > fd then obind (ctx_at fd io) (\<lambda>_. Inr True) else Inr False)"

definition addEvent_grow :: "int \<Rightarrow> ('cb, 'k) hps_IOManager \<Rightarrow> ('cb, 'k) hps_IOManager outcome" where
  "addEvent_grow fd io =
     obind (contextResize (word_of_int (fd * 3 div 2)) io) (\<lambda>io1.
     obind (ctx_at fd io1) (\<lambda>_. Inr io1))"

definition addEvent_register ::
  "'k epoll_ctl \<Rightarrow> int \<Rightarrow> nat \<Rightarrow> int \<Rightarrow> hps_Event \<Rightarrow> 'cb fn option \<Rightarrow> ('cb, 'k) hps_IOManager \<Rightarrow>
     (int \<times> ('cb, 'k) hps_IOManager) outcome" where
  "addEvent_register ctl tid a fd event cb io =
     obind (ctx_at fd io) (\<lambda>c.
     HPS_ASSERT (fd_events c AND event = 0) ''!(fd_ctx -> events & event)''
       (let op = (if fd_events c \<noteq> 0 then CTL_MOD else CTL_ADD);
            (rt, k) = ctl op fd (EPOLLET OR fd_events c OR event) (io_kernel io);
            io1 = io\<lparr>io_kernel := k\<rparr> in
        if rt \<noteq> 0 then Inr (-1, io1)
        else
          let io2 = add_pending 1 io1; c1 = c\<lparr>fd_events := fd_events c OR event\<rparr> in
          obind (getContext event c1) (\<lambda>ctx.
          HPS_ASSERT (\<not> ec_scheduler ctx \<and> ec_fiber ctx = None \<and> ec_cb ctx = None) ''event_ctx''
            (let ctx1 = ctx\<lparr>ec_scheduler := sw_t_scheduler (io_sw io2) tid\<rparr> in
             if cb \<noteq> None then
               Inr (0, put_ctx fd (putContext event (ctx1\<lparr>ec_cb := cb\<rparr>) c1) io2)
             else
               obind (GetThis tid a (sw_fw (io_sw io2))) (\<lambda>(p, fw).
               let io3 = io2\<lparr>io_sw := (io_sw io2)\<lparr>sw_fw := fw\<rparr>\<rparr> in
               HPS_ASSERT (map_option f_state (fw_objs fw p) = Some EXEC) ''getState() == EXEC''
                 (Inr (0, put_ctx fd (putContext event (ctx1\<lparr>ec_fiber := Some p\<rparr>) c1) io3)))))))"

definition addEvent ::
  "'k epoll_ctl \<Rightarrow> int \<Rightarrow> nat \<Rightarrow> int \<Rightarrow> hps_Event \<Rightarrow> 'cb fn option \<Rightarrow> ('cb, 'k) hps_IOManager \<Rightarrow>
     (int \<times> ('cb, 'k) hps_IOManager) outcome" where
  "addEvent ctl tid a fd event cb io =
     obind (addEvent_lookup fd io) (\<lambda>found.
     obind (if found then Inr io else addEvent_grow fd io) (\<lambda>io1.
       addEvent_register ctl tid a fd event cb io1))"

text \<open>
  The common part of \<open>delEvent\<close> and \<open>cancelEvent\<close>: look up, test, tell the kernel. \<open>None\<close>: the
  operation returns false.
\<close>

definition drop_interest ::
  "'k epoll_ctl \<Rightarrow> int \<Rightarrow> hps_Event \<Rightarrow> ('cb, 'k) hps_IOManager \<Rightarrow>
     (bool \<times> ('cb, 'k) hps_IOManager) outcome" where
  "drop_interest ctl fd event io =
     (if contexts_size io \<le> fd then Inr (False, io)
      else
        obind (ctx_at fd io) (\<lambda>c.
          if fd_events c AND event = 0 then Inr (False, io)
          else
            let new_events = fd_events c AND NOT event;
                op = (if new_events \<noteq> 0 then CTL_MOD else CTL_DEL);
                (rt, k) = ctl op fd (EPOLLET OR new_events) (io_kernel io) in
            Inr (rt = 0, io\<lparr>io_kernel := k\<rparr>)))"

definition delEvent ::
  "'k epoll_ctl \<Rightarrow> int \<Rightarrow> hps_Event \<Rightarrow> ('cb, 'k) hps_IOManager \<Rightarrow>
     (bool \<times> ('cb, 'k) hps_IOManager) outcome" where
  "delEvent ctl fd event io =
     obind (drop_interest ctl fd event io) (\<lambda>(ok, io1).
       if \<not> ok then Inr (False, io1)
       else
         let io2 = add_pending (-1) io1 in
         obind (ctx_at fd io2) (\<lambda>c.
           let c1 = c\<lparr>fd_events := fd_events c AND NOT event\<rparr> in
           obind (getContext event c1) (\<lambda>ctx.
             Inr (True, put_ctx fd (putContext event (resetContext ctx) c1) io2))))"

definition cancelEvent ::
  "'k epoll_ctl \<Rightarrow> int \<Rightarrow> hps_Event \<Rightarrow> ('cb, 'k) hps_IOManager \<Rightarrow>
     (bool \<times> ('cb, 'k) hps_IOManager) outcome" where
  "cancelEvent ctl fd event io =
     obind (drop_interest ctl fd event io) (\<lambda>(ok, io1).
       if \<not> ok then Inr (False, io1)
       else obind (triggerEvent fd event io1) (\<lambda>io2. Inr (True, add_pending (-1) io2)))"

text \<open>\<open>if (fd_ctx -> events & e) { triggerEvent(e); m_pendingEventCount --; }\<close>\<close>

definition trigger_if ::
  "bool \<Rightarrow> int \<Rightarrow> hps_Event \<Rightarrow> ('cb, 'k) hps_IOManager \<Rightarrow> ('cb, 'k) hps_IOManager outcome" where
  "trigger_if b fd event io =
     (if b then obind (triggerEvent fd event io) (\<lambda>io1. Inr (add_pending (-1) io1)) else Inr io)"

definition ctx_events :: "int \<Rightarrow> ('cb, 'k) hps_IOManager \<Rightarrow> hps_Event outcome" where
  "ctx_events fd io = obind (ctx_at fd io) (\<lambda>c. Inr (fd_events c))"

definition cancelAll ::
  "'k epoll_ctl \<Rightarrow> int \<Rightarrow> ('cb, 'k) hps_IOManager \<Rightarrow> (bool \<times> ('cb, 'k) hps_IOManager) outcome" where
  "cancelAll ctl fd io =
     (if contexts_size io \<le> fd then Inr (False, io)
      else
        obind (ctx_events fd io) (\<lambda>ev.
          if ev = 0 then Inr (False, io)
          else
            let (rt, k) = ctl CTL_DEL fd 0 (io_kernel io); io1 = io\<lparr>io_kernel := k\<rparr> in
            if rt \<noteq> 0 then Inr (False, io1)
            else
              obind (trigger_if (ev AND READ \<noteq> 0) fd READ io1) (\<lambda>io2.
              obind (ctx_events fd io2) (\<lambda>ev2.
              obind (trigger_if (ev2 AND WRITE \<noteq> 0) fd WRITE io2) (\<lambda>io3.
              obind (ctx_events fd io3) (\<lambda>ev3.
                HPS_ASSERT (ev3 = 0) ''fd_ctx -> events == 0'' (Inr (True, io3))))))))"

section \<open>Stopping and the idle loop\<close>

text \<open>\<open>stopping(timeout)\<close>: the timeout, the answer and the state (\<open>getNextTimer\<close> clears a flag).\<close>

definition IOManager_stopping ::
  "u64 \<Rightarrow> ('cb, 'k) hps_IOManager \<Rightarrow> u64 \<times> bool \<times> ('cb, 'k) hps_IOManager" where
  "IOManager_stopping now io =
     (case getNextTimer now (io_tm io) of
        (timeout, tm) \<Rightarrow>
          (timeout,
           timeout = u64_max \<and> io_pendingEventCount io = 0 \<and> stopping (sw_sched (io_sw io)),
           io\<lparr>io_tm := tm\<rparr>))"

text \<open>
  The head of the idle loop: \<open>None\<close>, it ends; otherwise the last argument of \<open>epoll_wait\<close>.
\<close>

definition idle_head ::
  "u64 \<Rightarrow> ('cb, 'k) hps_IOManager \<Rightarrow> u64 option \<times> ('cb, 'k) hps_IOManager" where
  "idle_head now io =
     (case IOManager_stopping now io of
        (_, stop, io1) \<Rightarrow>
          if stop then
            (case getNextTimer now (io_tm io1) of
               (next_timeout, tm) \<Rightarrow>
                 (if next_timeout = u64_max then None else Some next_timeout, io1\<lparr>io_tm := tm\<rparr>))
          else (Some 0, io1))"

definition clamp_timeout :: "u64 \<Rightarrow> u64" where
  "clamp_timeout next_timeout =
     (if next_timeout \<noteq> u64_max then (if to_int32 next_timeout > 3000 then 3000 else next_timeout)
      else 3000)"

text \<open>An element of the array \<open>epoll_wait\<close> filled: the tickle pipe or a context, and the mask.\<close>

datatype ev_data = EvTickle | EvCtx int

definition ready_mask :: "u32 \<Rightarrow> u32" where
  "ready_mask ev = (if ev AND (EPOLLERR OR EPOLLHUP) \<noteq> 0 then ev OR EPOLLIN OR EPOLLOUT else ev)"

definition real_events :: "u32 \<Rightarrow> hps_Event" where
  "real_events ev =
     (if ready_mask ev AND EPOLLIN \<noteq> 0 then READ else NONE) OR
     (if ready_mask ev AND EPOLLOUT \<noteq> 0 then WRITE else NONE)"

definition idle_event ::
  "'k epoll_ctl \<Rightarrow> ev_data \<times> u32 \<Rightarrow> ('cb, 'k) hps_IOManager \<Rightarrow> ('cb, 'k) hps_IOManager outcome" where
  "idle_event ctl e io =
     (case fst e of
        EvTickle \<Rightarrow> Inr (io\<lparr>io_pipe := 0\<rparr>)
      | EvCtx fd \<Rightarrow>
          obind (ctx_at fd io) (\<lambda>c.
            let real = real_events (snd e) in
            if fd_events c AND real = NONE then Inr io
            else
              let left_events = fd_events c AND NOT real;
                  op = (if left_events \<noteq> 0 then CTL_MOD else CTL_DEL);
                  (rt2, k) = ctl op (fd_fd c) (EPOLLET OR left_events) (io_kernel io);
                  io1 = io\<lparr>io_kernel := k\<rparr> in
              if rt2 \<noteq> 0 then Inr io1
              else
                obind (trigger_if (real AND READ \<noteq> 0) fd READ io1) (\<lambda>io2.
                  trigger_if (real AND WRITE \<noteq> 0) fd WRITE io2)))"

text \<open>
  From the return of \<open>epoll_wait\<close> to the switch out: the timers due at \<open>now\<close>, their callbacks
  into the queue, then the events in the order of the array.
\<close>

definition idle_round ::
  "'k epoll_ctl \<Rightarrow> u64 \<Rightarrow> (ev_data \<times> u32) list \<Rightarrow> ('cb, 'k) hps_IOManager \<Rightarrow>
     ('cb, 'k) hps_IOManager outcome" where
  "idle_round ctl now evs io =
     obind (listExpiredCb now [] (io_tm io)) (\<lambda>(cbs, tm).
       let io1 = io\<lparr>io_tm := tm\<rparr>;
           io2 = (if cbs \<noteq> [] then io_schedule_range (map FcCb cbs) io1 else io1) in
       ofold (idle_event ctl) evs io2)"

text \<open>
  The constructor: the epoll descriptor and the tickle pipe are made and the pipe is registered,
  32 contexts are made, the scheduler starts. \<open>epfd\<close>, \<open>pipe\<close> and \<open>fcntl\<close> are what those three
  calls returned.
\<close>

definition IOManager_new ::
  "'k epoll_ctl \<Rightarrow> int \<times> int \<times> int \<Rightarrow> int \<Rightarrow> bool \<Rightarrow> nat \<Rightarrow> nat \<Rightarrow> u64 \<Rightarrow> bool \<Rightarrow> string \<Rightarrow> u64 \<Rightarrow>
     int \<Rightarrow> int list \<Rightarrow> 'k \<Rightarrow> 'cb sched_world \<Rightarrow> ('cb, 'k) hps_IOManager outcome" where
  "IOManager_new ctl opened tid other a r threads use_caller name now tickle_fd ids k w =
     obind (Scheduler_new tid other a r threads use_caller name w) (\<lambda>w1.
       let (epfd, pipe, fcntl) = opened in
       HPS_ASSERT (0 < epfd) ''m_epfd > 0'' (HPS_ASSERT (pipe = 0) ''!rt'' (HPS_ASSERT (fcntl = 0) ''!rt''
       (let (rt, k1) = ctl CTL_ADD tickle_fd (EPOLLIN OR EPOLLET) k in
       HPS_ASSERT (rt = 0) ''!rt''
         (obind (contextResize 32
             \<lparr>io_sw = w1, io_tm = TimerManager_new now, io_pendingEventCount = 0,
              io_fdContexts = [], io_pipe = 0, io_kernel = k1\<rparr>) (\<lambda>io.
          obind (Scheduler_start ids (sw_sched (io_sw io))) (\<lambda>s. Inr (set_sched s io))))))))"

end
