(* ===== verification/Hps_IOManagerProps.thy ===== *)
theory Hps_IOManagerProps
  imports Hps_IOManager Hps_SchedulerProps
begin

unbundle bit_operations_syntax

text \<open>
  The IO manager keeps three things in step: the events each context has registered, the
  interest the kernel has recorded, and the count of pending events. This theory states that
  as an invariant and proves it for every operation.
\<close>

section \<open>Event masks\<close>

text \<open>The masks a context can have: none, READ, WRITE, both.\<close>

definition event_mask :: "hps_Event \<Rightarrow> bool" where
  "event_mask ev \<longleftrightarrow> ev = 0 \<or> ev = 1 \<or> ev = 4 \<or> ev = 5"

definition single_event :: "hps_Event \<Rightarrow> bool" where
  "single_event ev \<longleftrightarrow> ev = READ \<or> ev = WRITE"

lemmas event_consts = READ_def WRITE_def NONE_def

lemma real_events_mask: "event_mask (real_events ev)"
  by (simp add: real_events_def event_mask_def event_consts)

definition event_count :: "hps_Event \<Rightarrow> u64" where
  "event_count ev = (if ev AND READ \<noteq> 0 then 1 else 0) + (if ev AND WRITE \<noteq> 0 then 1 else 0)"

definition wanted :: "hps_Event \<Rightarrow> u32 option" where
  "wanted ev = (if ev = 0 then None else Some (EPOLLET OR ev))"

lemma add_event_mask:
  assumes "event_mask ev" and "single_event e" and "ev AND e = 0"
  shows "event_mask (ev OR e)" and "event_count (ev OR e) = event_count ev + 1" and "ev OR e \<noteq> 0"
    and "(ev OR e) AND READ \<noteq> 0 \<longleftrightarrow> ev AND READ \<noteq> 0 \<or> e = READ"
    and "(ev OR e) AND WRITE \<noteq> 0 \<longleftrightarrow> ev AND WRITE \<noteq> 0 \<or> e = WRITE"
  using assms by (auto simp: event_mask_def single_event_def event_count_def event_consts)

lemma drop_event_mask:
  assumes "event_mask ev" and "single_event e" and "ev AND e \<noteq> 0"
  shows "event_mask (ev AND NOT e)" and "event_count (ev AND NOT e) = event_count ev - 1"
    and "(ev AND NOT e) AND READ \<noteq> 0 \<longleftrightarrow> ev AND READ \<noteq> 0 \<and> e \<noteq> READ"
    and "(ev AND NOT e) AND WRITE \<noteq> 0 \<longleftrightarrow> ev AND WRITE \<noteq> 0 \<and> e \<noteq> WRITE"
  using assms by (auto simp: event_mask_def single_event_def event_count_def event_consts)

section \<open>Contexts\<close>

text \<open>An event context is empty, or holds exactly one of a fiber and a callback.\<close>

definition ec_empty :: "'cb hps_EventContext \<Rightarrow> bool" where
  "ec_empty e \<longleftrightarrow> \<not> ec_scheduler e \<and> ec_fiber e = None \<and> ec_cb e = None"

definition ec_full :: "'cb hps_EventContext \<Rightarrow> bool" where
  "ec_full e \<longleftrightarrow> (ec_fiber e = None \<longleftrightarrow> ec_cb e \<noteq> None)"

definition ctx_ok :: "'cb hps_FdContext \<Rightarrow> bool" where
  "ctx_ok c \<longleftrightarrow> event_mask (fd_events c) \<and>
     (if fd_events c AND READ \<noteq> 0 then ec_full (fd_read c) else ec_empty (fd_read c)) \<and>
     (if fd_events c AND WRITE \<noteq> 0 then ec_full (fd_write c) else ec_empty (fd_write c))"

lemma FdContext_new_ok: "ctx_ok (FdContext_new fd)" "fd_events (FdContext_new fd) = 0"
  "fd_fd (FdContext_new fd) = fd"
  by (simp_all add: ctx_ok_def FdContext_new_def event_mask_def event_consts ec_empty_def
      EventContext_empty_def)

lemma putContext_simps [simp]:
  "fd_events (putContext ev e c) = fd_events c" "fd_fd (putContext ev e c) = fd_fd c"
  by (simp_all add: putContext_def)

lemma ctx_add:
  assumes "ctx_ok c" and "single_event ev" and "fd_events c AND ev = 0" and "ec_full e"
  shows "ctx_ok (putContext ev e (c\<lparr>fd_events := fd_events c OR ev\<rparr>))"
  using assms add_event_mask [OF _ assms(2,3)]
  by (auto simp: ctx_ok_def putContext_def single_event_def event_consts)

lemma ctx_drop:
  assumes "ctx_ok c" and "single_event ev" and "fd_events c AND ev \<noteq> 0" and "ec_empty e"
  shows "ctx_ok (putContext ev e (c\<lparr>fd_events := fd_events c AND NOT ev\<rparr>))"
  using assms drop_event_mask [OF _ assms(2,3)]
  by (auto simp: ctx_ok_def putContext_def single_event_def event_consts)

lemma getContext_state:
  assumes "ctx_ok c" and "single_event ev" and "getContext ev c = Inr e"
  shows "if fd_events c AND ev \<noteq> 0 then ec_full e else ec_empty e"
  using assms by (auto simp: ctx_ok_def getContext_def single_event_def split: if_splits)

section \<open>The table of contexts\<close>

lemma ctx_at_put [simp]:
  "0 \<le> fd \<Longrightarrow> nat fd < length (io_fdContexts io) \<Longrightarrow> ctx_at fd (put_ctx fd c io) = Inr c"
  by (simp add: ctx_at_def put_ctx_def)

lemma ctx_at_InrD:
  assumes "ctx_at fd io = Inr c"
  shows "0 \<le> fd" and "nat fd < length (io_fdContexts io)" and "io_fdContexts io ! nat fd = Some c"
  using assms by (auto simp: ctx_at_def deref_eq_Inr split: if_splits)

lemma io_schedule_simps [simp]:
  "io_fdContexts (io_schedule ft io) = io_fdContexts io"
  "io_kernel (io_schedule ft io) = io_kernel io"
  "io_pendingEventCount (io_schedule ft io) = io_pendingEventCount io"
  "io_tm (io_schedule ft io) = io_tm io"
  "m_fibers (sw_sched (io_sw (io_schedule ft io))) =
     m_fibers (sw_sched (io_sw io)) @ filter ft_full [ft]"
  by (auto simp: io_schedule_def scheduleNoLock_def Let_def set_sched_def IOManager_tickle_def ft_full_def)

lemma io_schedule_range_simps [simp]:
  "io_fdContexts (io_schedule_range fcs io) = io_fdContexts io"
  "io_kernel (io_schedule_range fcs io) = io_kernel io"
  "io_pendingEventCount (io_schedule_range fcs io) = io_pendingEventCount io"
  by (auto simp: io_schedule_range_def schedule_loop_result Let_def set_sched_def IOManager_tickle_def)

lemma put_ctx_simps [simp]:
  "io_fdContexts (put_ctx fd c io) = (io_fdContexts io)[nat fd := Some c]"
  "io_kernel (put_ctx fd c io) = io_kernel io"
  "io_pendingEventCount (put_ctx fd c io) = io_pendingEventCount io"
  "io_sw (put_ctx fd c io) = io_sw io"
  by (simp_all add: put_ctx_def)

lemma add_pending_simps [simp]:
  "io_fdContexts (add_pending n io) = io_fdContexts io"
  "io_kernel (add_pending n io) = io_kernel io"
  "io_pendingEventCount (add_pending n io) = io_pendingEventCount io + n"
  "io_sw (add_pending n io) = io_sw io"
  "ctx_at fd (add_pending n io) = ctx_at fd io"
  by (simp_all add: add_pending_def ctx_at_def)

lemma ctx_at_kernel [simp]: "ctx_at fd (io\<lparr>io_kernel := k\<rparr>) = ctx_at fd io"
  by (simp add: ctx_at_def)

text \<open>What \<open>triggerEvent\<close> does to the table.\<close>

lemma triggerEvent_effect:
  assumes "triggerEvent fd ev io = Inr io'" and "ctx_at fd io = Inr c"
  shows "\<exists>c'. io_fdContexts io' = (io_fdContexts io)[nat fd := Some c'] \<and>
    io_kernel io' = io_kernel io \<and> io_pendingEventCount io' = io_pendingEventCount io \<and>
    fd_events c AND ev \<noteq> 0 \<and> fd_events c' = fd_events c AND NOT ev \<and> fd_fd c' = fd_fd c \<and>
    single_event ev \<and> (ctx_ok c \<longrightarrow> ctx_ok c')"
proof -
  let ?c1 = "c\<lparr>fd_events := fd_events c AND NOT ev\<rparr>"
  from assms obtain e where on: "fd_events c AND ev \<noteq> 0" and e: "getContext ev ?c1 = Inr e"
    and ok: "(if \<not> ec_scheduler e then Inl (NullDeref ''ctx.scheduler'')
          else
            let ft = (if ec_cb e \<noteq> None then fst (FiberAndThread_swap (FcCb (ec_cb e)) (-1))
                      else fst (FiberAndThread_swap (FcFiber (ec_fiber e)) (-1)));
                ctx1 = (if ec_cb e \<noteq> None then e\<lparr>ec_cb := None\<rparr> else e\<lparr>ec_fiber := None\<rparr>);
                ctx2 = ctx1\<lparr>ec_scheduler := False\<rparr> in
            Inr (io_schedule ft (put_ctx fd (putContext ev ctx2 ?c1) io))) = Inr io'"
    by (auto simp: triggerEvent_def Let_def outcome_simps)
  let ?e2 = "(if ec_cb e \<noteq> None then e\<lparr>ec_cb := None\<rparr> else e\<lparr>ec_fiber := None\<rparr>)\<lparr>ec_scheduler := False\<rparr>"
  have single: "single_event ev"
    using e by (auto simp: getContext_def single_event_def split: if_splits)
  have "ec_empty ?e2" if "ctx_ok c"
  proof -
    have "getContext ev c = Inr e" using e by (auto simp: getContext_def split: if_splits)
    with getContext_state [OF that single] on have "ec_full e" by simp
    then show ?thesis by (auto simp: ec_full_def ec_empty_def)
  qed
  then have "ctx_ok c \<longrightarrow> ctx_ok (putContext ev ?e2 ?c1)" using ctx_drop [OF _ single on] by blast
  then show ?thesis
    using ok on single
    by (intro exI [of _ "putContext ev ?e2 ?c1"]) (auto simp: Let_def split: if_splits)
qed

lemma trigger_if_effect:
  assumes "trigger_if b fd ev io = Inr io'" and "ctx_at fd io = Inr c" and "ctx_ok c"
  shows "\<exists>c'. io_fdContexts io' = (io_fdContexts io)[nat fd := Some c'] \<and>
    io_kernel io' = io_kernel io \<and>
    io_pendingEventCount io' = io_pendingEventCount io - (if b then 1 else 0) \<and>
    fd_events c' = (if b then fd_events c AND NOT ev else fd_events c) \<and>
    (b \<longrightarrow> fd_events c AND ev \<noteq> 0) \<and> fd_fd c' = fd_fd c \<and> ctx_ok c' \<and> ctx_at fd io' = Inr c'"
proof (cases b)
  case True
  with assms(1) obtain io1 where 1: "triggerEvent fd ev io = Inr io1" "io' = add_pending (-1) io1"
    by (auto simp: trigger_if_def outcome_simps)
  note at = ctx_at_InrD [OF assms(2)]
  from triggerEvent_effect [OF 1(1) assms(2)] obtain c' where
    c': "io_fdContexts io1 = (io_fdContexts io)[nat fd := Some c']" "io_kernel io1 = io_kernel io"
      "io_pendingEventCount io1 = io_pendingEventCount io" "fd_events c' = fd_events c AND NOT ev"
      "fd_fd c' = fd_fd c" "ctx_ok c'" "fd_events c AND ev \<noteq> 0" using assms(3) by blast
  then have "ctx_at fd io1 = Inr c'" using at by (simp add: ctx_at_def)
  with c' 1 True show ?thesis by (intro exI [of _ c']) simp
next
  case False
  have "(io_fdContexts io)[nat fd := Some c] = io_fdContexts io"
    using ctx_at_InrD(3) [OF assms(2)] by (metis list_update_id)
  moreover have "io' = io" using assms(1) False by (simp add: trigger_if_def)
  ultimately show ?thesis using False assms by (intro exI [of _ c]) simp
qed

section \<open>The kernel\<close>

text \<open>
  What epoll_ctl(2) documents, for a kernel whose state says which mask is recorded for which
  descriptor: a call that fails changes nothing; ADD succeeds only on a descriptor that is not
  there, MOD and DEL only on one that is.
\<close>

definition documented_ctl :: "'k epoll_ctl \<Rightarrow> ('k \<Rightarrow> int \<Rightarrow> u32 option) \<Rightarrow> bool" where
  "documented_ctl ctl interest \<longleftrightarrow>
     (\<forall>op fd ev k rt k'. ctl op fd ev k = (rt, k') \<longrightarrow>
        (if rt \<noteq> 0 then interest k' = interest k
         else case op of
           CTL_ADD \<Rightarrow> interest k fd = None \<and> interest k' = (interest k)(fd := Some ev)
         | CTL_MOD \<Rightarrow> interest k fd \<noteq> None \<and> interest k' = (interest k)(fd := Some ev)
         | CTL_DEL \<Rightarrow> interest k fd \<noteq> None \<and> interest k' = (interest k)(fd := None)))"

lemma documented_failed:
  "documented_ctl ctl interest \<Longrightarrow> ctl op fd ev k = (rt, k') \<Longrightarrow> rt \<noteq> 0 \<Longrightarrow> interest k' = interest k"
  by (auto simp: documented_ctl_def)

lemma documented_set:
  assumes "documented_ctl ctl interest" and "ctl op fd ev k = (0, k')"
  shows "interest k' = (interest k)(fd := (if op = CTL_DEL then None else Some ev))"
proof -
  have "case op of
           CTL_ADD \<Rightarrow> interest k fd = None \<and> interest k' = (interest k)(fd := Some ev)
         | CTL_MOD \<Rightarrow> interest k fd \<noteq> None \<and> interest k' = (interest k)(fd := Some ev)
         | CTL_DEL \<Rightarrow> interest k fd \<noteq> None \<and> interest k' = (interest k)(fd := None)"
    using assms(1) [unfolded documented_ctl_def, rule_format, OF assms(2)] by simp
  then show ?thesis by (cases op) simp_all
qed

lemma documented_add_free:
  assumes "documented_ctl ctl interest" and "ctl CTL_ADD fd ev k = (0, k')"
  shows "interest k fd = None"
  using assms(1) [unfolded documented_ctl_def, rule_format, OF assms(2)] by simp

section \<open>The invariant\<close>

definition pending_sum :: "'cb hps_FdContext option list \<Rightarrow> u64" where
  "pending_sum cs = sum_list (map (\<lambda>c. case c of None \<Rightarrow> 0 | Some c \<Rightarrow> event_count (fd_events c)) cs)"

definition table_ok :: "'cb hps_FdContext option list \<Rightarrow> bool" where
  "table_ok cs \<longleftrightarrow>
     2 \<le> length cs \<and> length cs < 2 ^ 31 \<and>
     (\<forall>i < length cs. \<exists>c. cs ! i = Some c \<and> fd_fd c = int i \<and> ctx_ok c)"

definition interest_of :: "'cb hps_FdContext option list \<Rightarrow> int \<Rightarrow> u32 option" where
  "interest_of cs fd =
     (if 0 \<le> fd \<and> nat fd < length cs
      then (case cs ! nat fd of None \<Rightarrow> None | Some c \<Rightarrow> wanted (fd_events c)) else None)"

definition io_inv :: "('k \<Rightarrow> int \<Rightarrow> u32 option) \<Rightarrow> int \<Rightarrow> ('cb, 'k) hps_IOManager \<Rightarrow> bool" where
  "io_inv interest tick io \<longleftrightarrow>
     table_ok (io_fdContexts io) \<and>
     io_pendingEventCount io = pending_sum (io_fdContexts io) \<and>
     (\<forall>fd. fd \<noteq> tick \<longrightarrow> interest (io_kernel io) fd = interest_of (io_fdContexts io) fd)"

lemma pending_sum_update:
  assumes "i < length cs" and "cs ! i = Some c"
  shows "pending_sum (cs[i := Some c']) = pending_sum cs - event_count (fd_events c) + event_count (fd_events c')"
proof -
  have cs: "cs = take i cs @ Some c # drop (Suc i) cs"
    using id_take_nth_drop [OF assms(1)] assms(2) by simp
  have upd: "cs[i := Some c'] = take i cs @ Some c' # drop (Suc i) cs"
    using assms(1) by (simp add: upd_conv_take_nth_drop)
  show ?thesis
    by (subst (2) cs, subst upd) (simp add: pending_sum_def)
qed

lemma table_ok_at:
  assumes "table_ok (io_fdContexts io)" and "ctx_at fd io = Inr c"
  shows "ctx_ok c \<and> fd_fd c = fd"
proof -
  note d = ctx_at_InrD [OF assms(2)]
  from assms(1) d(2) obtain c' where "io_fdContexts io ! nat fd = Some c'" "fd_fd c' = int (nat fd)" "ctx_ok c'"
    unfolding table_ok_def by blast
  with d show ?thesis by simp
qed

text \<open>The lemma all operations use: one context, its interest and the count change together.\<close>

lemma io_inv_update:
  assumes inv: "io_inv interest tick io" and at: "ctx_at fd io = Inr c" and "fd \<noteq> tick"
    and tab: "io_fdContexts io' = (io_fdContexts io)[nat fd := Some c']"
    and c': "ctx_ok c'" "fd_fd c' = fd_fd c"
    and pend: "io_pendingEventCount io' = io_pendingEventCount io
      - event_count (fd_events c) + event_count (fd_events c')"
    and ker: "interest (io_kernel io') = (interest (io_kernel io))(fd := wanted (fd_events c'))"
  shows "io_inv interest tick io'"
proof -
  note d = ctx_at_InrD [OF at]
  have "table_ok (io_fdContexts io')"
    using inv table_ok_at [OF _ at] c' d
    by (auto simp: io_inv_def table_ok_def tab nth_list_update)
  moreover have "io_pendingEventCount io' = pending_sum (io_fdContexts io')"
    using inv pend by (simp add: io_inv_def tab pending_sum_update [OF d(2,3)])
  moreover have "interest (io_kernel io') g = interest_of (io_fdContexts io') g" if "g \<noteq> tick" for g
  proof (cases "g = fd")
    case True
    then show ?thesis using d by (simp add: ker interest_of_def tab)
  next
    case False
    then have "interest_of (io_fdContexts io') g = interest_of (io_fdContexts io) g"
      using d(1) by (auto simp: interest_of_def tab nth_list_update)
    with False that inv show ?thesis by (simp add: ker io_inv_def)
  qed
  ultimately show ?thesis by (simp add: io_inv_def)
qed

lemma io_inv_kernel:
  "io_inv interest tick io \<Longrightarrow> interest k = interest (io_kernel io) \<Longrightarrow>
     io_inv interest tick (io\<lparr>io_kernel := k\<rparr>)"
  by (simp add: io_inv_def)

section \<open>The operations keep it\<close>

lemma fill_contexts_nth:
  "i < length cs \<Longrightarrow> fill_contexts cs ! i =
     (case cs ! i of None \<Rightarrow> Some (FdContext_new (int i)) | Some c \<Rightarrow> Some c)"
  by (simp add: fill_contexts_def nth_enumerate_eq split: option.split)

lemma fill_contexts_length [simp]: "length (fill_contexts cs) = length cs"
  by (simp add: fill_contexts_def)

lemma grown_entry:
  "length cs \<le> i \<Longrightarrow> i < n \<Longrightarrow>
     fill_contexts (take n cs @ replicate (n - length cs) None) ! i = Some (FdContext_new (int i))"
  by (subst fill_contexts_nth) (simp_all add: nth_append)

lemma contextResize_grow:
  assumes "contextResize sz io = Inr io'" and "length (io_fdContexts io) \<le> nat (to_int32 sz)"
    and "table_ok (io_fdContexts io)"
  shows "length (io_fdContexts io') = nat (to_int32 sz)"
    and "i < length (io_fdContexts io) \<Longrightarrow> io_fdContexts io' ! i = io_fdContexts io ! i"
    and "length (io_fdContexts io) \<le> i \<Longrightarrow> i < length (io_fdContexts io') \<Longrightarrow>
      io_fdContexts io' ! i = Some (FdContext_new (int i))"
    and "io_kernel io' = io_kernel io" and "io_pendingEventCount io' = io_pendingEventCount io"
    and "io_sw io' = io_sw io"
proof -
  let ?cs = "io_fdContexts io" and ?n = "nat (to_int32 sz)"
  have io': "io' = io\<lparr>io_fdContexts := fill_contexts (?cs @ replicate (?n - length ?cs) None)\<rparr>"
    using assms(1,2) by (auto simp: contextResize_def Let_def split: if_splits)
  show len: "length (io_fdContexts io') = ?n" using assms(2) by (simp add: io')
  show "io_fdContexts io' ! i = ?cs ! i" if "i < length ?cs"
    using that assms(3) by (auto simp: io' fill_contexts_nth nth_append table_ok_def)
  show "io_fdContexts io' ! i = Some (FdContext_new (int i))"
    if "length ?cs \<le> i" "i < length (io_fdContexts io')"
    using that len assms(2) by (simp add: io' fill_contexts_nth nth_append)
qed (use assms(1) in \<open>auto simp: contextResize_def Let_def split: if_splits\<close>)

lemma pending_sum_new:
  assumes "length cs \<le> length cs'" and "\<And>i. i < length cs \<Longrightarrow> cs' ! i = cs ! i"
    and "\<And>i. length cs \<le> i \<Longrightarrow> i < length cs' \<Longrightarrow> cs' ! i = Some (FdContext_new (int i))"
  shows "pending_sum cs' = pending_sum cs"
proof -
  have "cs' = cs @ map (\<lambda>i. Some (FdContext_new (int i))) [length cs..<length cs']"
    using assms by (intro nth_equalityI) (simp_all add: nth_append)
  moreover have "pending_sum (map (\<lambda>i. Some (FdContext_new (int i))) xs) = 0" for xs
    by (induction xs) (simp_all add: pending_sum_def FdContext_new_ok event_count_def)
  moreover have "pending_sum (xs @ ys) = pending_sum xs + pending_sum ys" for xs ys :: "'a hps_FdContext option list"
    by (simp add: pending_sum_def)
  ultimately show ?thesis by (metis add.right_neutral)
qed

lemma contextResize_inv:
  assumes inv: "io_inv interest tick io" and r: "contextResize sz io = Inr io'"
    and len: "length (io_fdContexts io) \<le> nat (to_int32 sz)"
  shows "io_inv interest tick io'"
proof -
  have tab: "table_ok (io_fdContexts io)" using inv by (simp add: io_inv_def)
  note g = contextResize_grow [OF r len tab]
  have "to_int32 sz < 2 ^ 31" using sint_lt [of "ucast sz :: u32"] by (simp add: to_int32_def)
  then have n: "nat (to_int32 sz) < 2 ^ 31" by simp
  have "table_ok (io_fdContexts io')"
    unfolding table_ok_def
  proof (intro conjI allI impI)
    show "2 \<le> length (io_fdContexts io')" using tab len g(1) by (simp add: table_ok_def)
    show "length (io_fdContexts io') < 2 ^ 31" using g(1) n by simp
    show "\<exists>c. io_fdContexts io' ! i = Some c \<and> fd_fd c = int i \<and> ctx_ok c"
      if "i < length (io_fdContexts io')" for i
      using that tab g(2,3) FdContext_new_ok
      by (cases "i < length (io_fdContexts io)") (auto simp: table_ok_def)
  qed
  moreover have "pending_sum (io_fdContexts io') = pending_sum (io_fdContexts io)"
    by (rule pending_sum_new) (use g len in simp_all)
  moreover have "interest_of (io_fdContexts io') fd = interest_of (io_fdContexts io) fd" for fd
  proof (cases "nat fd < length (io_fdContexts io)")
    case True
    then have "nat fd < length (io_fdContexts io')" using g(1) len by linarith
    with True g(2) [OF True] show ?thesis unfolding interest_of_def by presburger
  next
    case False
    then show ?thesis
      using g(3) [of "nat fd"] by (simp add: interest_of_def FdContext_new_ok wanted_def)
  qed
  ultimately show ?thesis using inv g by (simp add: io_inv_def)
qed


lemma addEvent_register_inv:
  assumes doc: "documented_ctl ctl interest" and inv: "io_inv interest tick io"
    and fd: "fd \<noteq> tick" and ev: "single_event ev"
    and r: "addEvent_register ctl tid a fd ev cb io = Inr (res, io')"
  shows "io_inv interest tick io'"
proof -
  from r obtain c where at: "ctx_at fd io = Inr c" and free: "fd_events c AND ev = 0"
    by (auto simp: addEvent_register_def outcome_simps)
  have c: "ctx_ok c" "fd_fd c = fd" using table_ok_at [OF _ at] inv by (auto simp: io_inv_def)
  let ?op = "if fd_events c \<noteq> 0 then CTL_MOD else CTL_ADD"
  obtain rt k where k: "ctl ?op fd (EPOLLET OR fd_events c OR ev) (io_kernel io) = (rt, k)"
    by (cases "ctl ?op fd (EPOLLET OR fd_events c OR ev) (io_kernel io)")
  have mask: "event_mask (fd_events c)" using c(1) by (simp add: ctx_ok_def)
  note am = add_event_mask [OF mask ev free]
  show ?thesis
  proof (cases "rt = 0")
    case False
    with r at free k have "io' = io\<lparr>io_kernel := k\<rparr>"
      by (auto simp: addEvent_register_def Let_def)
    with io_inv_kernel [OF inv documented_failed [OF doc k False]] show ?thesis by simp
  next
    case True
    let ?c1 = "c\<lparr>fd_events := fd_events c OR ev\<rparr>"
    have "\<exists>e'. ec_full e' \<and> io_fdContexts io' = (io_fdContexts io)[nat fd := Some (putContext ev e' ?c1)] \<and>
        io_pendingEventCount io' = io_pendingEventCount io + 1 \<and> io_kernel io' = k"
    proof (cases cb)
      case None
      with r at free k True obtain e p where "ec_cb e = None"
        "io_fdContexts io' = (io_fdContexts io)[nat fd := Some (putContext ev
           (e\<lparr>ec_scheduler := sw_t_scheduler (io_sw io) tid, ec_fiber := Some p\<rparr>) ?c1)]"
        "io_pendingEventCount io' = io_pendingEventCount io + 1" "io_kernel io' = k"
        by (auto simp: addEvent_register_def Let_def outcome_simps)
      then show ?thesis
        by (intro exI [of _ "e\<lparr>ec_scheduler := sw_t_scheduler (io_sw io) tid, ec_fiber := Some p\<rparr>"])
          (simp add: ec_full_def)
    next
      case (Some f)
      with r at free k True obtain e where "ec_fiber e = None"
        "io_fdContexts io' = (io_fdContexts io)[nat fd := Some (putContext ev
           (e\<lparr>ec_scheduler := sw_t_scheduler (io_sw io) tid, ec_cb := Some f\<rparr>) ?c1)]"
        "io_pendingEventCount io' = io_pendingEventCount io + 1" "io_kernel io' = k"
        by (auto simp: addEvent_register_def Let_def outcome_simps)
      then show ?thesis
        by (intro exI [of _ "e\<lparr>ec_scheduler := sw_t_scheduler (io_sw io) tid, ec_cb := Some f\<rparr>"])
          (simp add: ec_full_def)
    qed
    then obtain e' where full: "ec_full e'"
      and io': "io_fdContexts io' = (io_fdContexts io)[nat fd := Some (putContext ev e' ?c1)]"
        "io_pendingEventCount io' = io_pendingEventCount io + 1" "io_kernel io' = k" by blast
    have "ctx_ok (putContext ev e' ?c1)" by (rule ctx_add [OF c(1) ev free full])
    moreover have "interest k = (interest (io_kernel io))(fd := wanted (fd_events c OR ev))"
      using documented_set [OF doc k [unfolded True]] am(3) by (auto simp: wanted_def or.assoc)
    ultimately show ?thesis
      using am(2) by (intro io_inv_update [OF inv at fd io'(1)]) (simp_all add: io'(2,3) c(2))
  qed
qed

lemma drop_interest_result:
  assumes "drop_interest ctl fd ev io = Inr (ok, io1)"
  shows "(\<not> ok \<and> io1 = io) \<or>
    (\<exists>c rt k. ctx_at fd io = Inr c \<and> fd_events c AND ev \<noteq> 0 \<and> ok = (rt = 0) \<and>
       ctl (if fd_events c AND NOT ev \<noteq> 0 then CTL_MOD else CTL_DEL) fd
         (EPOLLET OR (fd_events c AND NOT ev)) (io_kernel io) = (rt, k) \<and>
       io1 = io\<lparr>io_kernel := k\<rparr>)"
proof (cases "contexts_size io \<le> fd")
  case True
  with assms show ?thesis by (simp add: drop_interest_def)
next
  case False
  with assms obtain c where at: "ctx_at fd io = Inr c" by (auto simp: drop_interest_def obind_eq_Inr)
  show ?thesis
  proof (cases "fd_events c AND ev = 0")
    case True
    with False at assms show ?thesis by (simp add: drop_interest_def)
  next
    case on: False
    let ?op = "if fd_events c AND NOT ev \<noteq> 0 then CTL_MOD else CTL_DEL"
    obtain rt k where k: "ctl ?op fd (EPOLLET OR (fd_events c AND NOT ev)) (io_kernel io) = (rt, k)"
      by (cases "ctl ?op fd (EPOLLET OR (fd_events c AND NOT ev)) (io_kernel io)")
    from False at on k assms have "ok = (rt = 0)" "io1 = io\<lparr>io_kernel := k\<rparr>"
      by (simp_all add: drop_interest_def Let_def)
    with at on k show ?thesis by blast
  qed
qed

lemma dropped_wanted:
  "documented_ctl ctl interest \<Longrightarrow>
   ctl (if ev \<noteq> 0 then CTL_MOD else CTL_DEL) fd (EPOLLET OR ev) k = (0, k') \<Longrightarrow>
   interest k' = (interest k)(fd := wanted ev)"
  using documented_set [of ctl interest] by (fastforce simp: wanted_def)

lemma delEvent_inv:
  assumes doc: "documented_ctl ctl interest" and inv: "io_inv interest tick io"
    and fd: "fd \<noteq> tick" and ev: "single_event ev" and r: "delEvent ctl fd ev io = Inr (res, io')"
  shows "io_inv interest tick io'"
proof -
  from r obtain ok io1 where d: "drop_interest ctl fd ev io = Inr (ok, io1)"
    by (auto simp: delEvent_def obind_eq_Inr)
  from drop_interest_result [OF this] show ?thesis
  proof (elim disjE exE conjE)
    assume "\<not> ok" "io1 = io"
    with r d inv show ?thesis by (simp add: delEvent_def)
  next
    fix c rt k
    assume at: "ctx_at fd io = Inr c" and on: "fd_events c AND ev \<noteq> 0" and ok: "ok = (rt = 0)"
      and k: "ctl (if fd_events c AND NOT ev \<noteq> 0 then CTL_MOD else CTL_DEL) fd
         (EPOLLET OR (fd_events c AND NOT ev)) (io_kernel io) = (rt, k)"
      and io1: "io1 = io\<lparr>io_kernel := k\<rparr>"
    have c: "ctx_ok c" "fd_fd c = fd" using table_ok_at [OF _ at] inv by (auto simp: io_inv_def)
    have mask: "event_mask (fd_events c)" using c(1) by (simp add: ctx_ok_def)
    show ?thesis
    proof (cases "rt = 0")
      case False
      with r d io1 ok have "io' = io\<lparr>io_kernel := k\<rparr>" by (auto simp: delEvent_def)
      with io_inv_kernel [OF inv documented_failed [OF doc k False]] show ?thesis by simp
    next
      case True
      let ?c1 = "c\<lparr>fd_events := fd_events c AND NOT ev\<rparr>"
      from r d ok True at io1 obtain e where
        io': "io' = put_ctx fd (putContext ev (resetContext e) ?c1) (add_pending (-1) io1)"
        by (auto simp: delEvent_def Let_def outcome_simps)
      have "ctx_ok (putContext ev (resetContext e) ?c1)"
        by (rule ctx_drop [OF c(1) ev on]) (simp add: resetContext_def ec_empty_def)
      then show ?thesis
        using drop_event_mask(2) [OF mask ev on] dropped_wanted [OF doc k [unfolded True]]
        by (intro io_inv_update [OF inv at fd, where c' = "putContext ev (resetContext e) ?c1"])
          (simp_all add: io' io1 c(2))
    qed
  qed
qed

lemma cancelEvent_inv:
  assumes doc: "documented_ctl ctl interest" and inv: "io_inv interest tick io"
    and fd: "fd \<noteq> tick" and ev: "single_event ev" and r: "cancelEvent ctl fd ev io = Inr (res, io')"
  shows "io_inv interest tick io'"
proof -
  from r obtain ok io1 where d: "drop_interest ctl fd ev io = Inr (ok, io1)"
    by (auto simp: cancelEvent_def obind_eq_Inr)
  from drop_interest_result [OF this] show ?thesis
  proof (elim disjE exE conjE)
    assume "\<not> ok" "io1 = io"
    with r d inv show ?thesis by (simp add: cancelEvent_def)
  next
    fix c rt k
    assume at: "ctx_at fd io = Inr c" and on: "fd_events c AND ev \<noteq> 0" and ok: "ok = (rt = 0)"
      and k: "ctl (if fd_events c AND NOT ev \<noteq> 0 then CTL_MOD else CTL_DEL) fd
         (EPOLLET OR (fd_events c AND NOT ev)) (io_kernel io) = (rt, k)"
      and io1: "io1 = io\<lparr>io_kernel := k\<rparr>"
    have c: "ctx_ok c" "fd_fd c = fd" using table_ok_at [OF _ at] inv by (auto simp: io_inv_def)
    have mask: "event_mask (fd_events c)" using c(1) by (simp add: ctx_ok_def)
    show ?thesis
    proof (cases "rt = 0")
      case False
      with r d io1 ok have "io' = io\<lparr>io_kernel := k\<rparr>" by (auto simp: cancelEvent_def)
      with io_inv_kernel [OF inv documented_failed [OF doc k False]] show ?thesis by simp
    next
      case True
      with r d ok obtain io2 where t: "triggerEvent fd ev io1 = Inr io2" "io' = add_pending (-1) io2"
        by (auto simp: cancelEvent_def obind_eq_Inr)
      from triggerEvent_effect [OF t(1), of c] at io1 obtain c' where
        c': "io_fdContexts io2 = (io_fdContexts io)[nat fd := Some c']" "io_kernel io2 = k"
          "io_pendingEventCount io2 = io_pendingEventCount io" "fd_events c' = fd_events c AND NOT ev"
          "fd_fd c' = fd_fd c" "ctx_ok c'" using c(1) by auto
      then show ?thesis
        using drop_event_mask(2) [OF mask ev on] dropped_wanted [OF doc k [unfolded True]]
        by (intro io_inv_update [OF inv at fd, where c' = c']) (simp_all add: t(2))
    qed
  qed
qed


text \<open>Both events of one descriptor, one after the other.\<close>

lemma count_drop_both:
  assumes "event_mask ev" and "r \<longrightarrow> ev AND READ \<noteq> 0" and "w \<longrightarrow> ev AND WRITE \<noteq> 0"
  shows "event_count (ev AND NOT ((if r then READ else 0) OR (if w then WRITE else 0))) =
    event_count ev - (if r then 1 else 0) - (if w then 1 else 0)"
  using assms unfolding event_mask_def
  by (cases r; cases w; elim disjE; simp add: event_consts event_count_def)

lemma trigger_both_effect:
  assumes "trigger_if r fd READ io = Inr io1" and "trigger_if w fd WRITE io1 = Inr io2"
    and "ctx_at fd io = Inr c" and "ctx_ok c"
  shows "\<exists>c'. io_fdContexts io2 = (io_fdContexts io)[nat fd := Some c'] \<and>
    io_kernel io2 = io_kernel io \<and> ctx_ok c' \<and> fd_fd c' = fd_fd c \<and>
    (r \<longrightarrow> fd_events c AND READ \<noteq> 0) \<and> (w \<longrightarrow> fd_events c AND WRITE \<noteq> 0) \<and>
    fd_events c' = fd_events c AND NOT ((if r then READ else 0) OR (if w then WRITE else 0)) \<and>
    io_pendingEventCount io2 = io_pendingEventCount io
      - event_count (fd_events c) + event_count (fd_events c') \<and> ctx_at fd io2 = Inr c'"
proof -
  from trigger_if_effect [OF assms(1,3,4)] obtain c1 where
    c1: "io_fdContexts io1 = (io_fdContexts io)[nat fd := Some c1]" "io_kernel io1 = io_kernel io"
      "io_pendingEventCount io1 = io_pendingEventCount io - (if r then 1 else 0)"
      "fd_events c1 = (if r then fd_events c AND NOT READ else fd_events c)"
      "r \<longrightarrow> fd_events c AND READ \<noteq> 0" "fd_fd c1 = fd_fd c" "ctx_ok c1" "ctx_at fd io1 = Inr c1" by blast
  from trigger_if_effect [OF assms(2) c1(8,7)] obtain c2 where
    c2: "io_fdContexts io2 = (io_fdContexts io1)[nat fd := Some c2]" "io_kernel io2 = io_kernel io1"
      "io_pendingEventCount io2 = io_pendingEventCount io1 - (if w then 1 else 0)"
      "fd_events c2 = (if w then fd_events c1 AND NOT WRITE else fd_events c1)"
      "w \<longrightarrow> fd_events c1 AND WRITE \<noteq> 0" "fd_fd c2 = fd_fd c1" "ctx_ok c2" "ctx_at fd io2 = Inr c2" by blast
  have mask: "event_mask (fd_events c)" using assms(4) by (simp add: ctx_ok_def)
  have ev: "fd_events c2 = fd_events c AND NOT ((if r then READ else 0) OR (if w then WRITE else 0))"
    using mask c1(4) c2(4) by (auto simp: event_mask_def event_consts)
  have won: "w \<longrightarrow> fd_events c AND WRITE \<noteq> 0"
    using mask c1(4) c2(5) by (auto simp: event_mask_def event_consts split: if_splits)
  have "event_count (fd_events c2) = event_count (fd_events c) - (if r then 1 else 0) - (if w then 1 else 0)"
    unfolding ev by (rule count_drop_both [OF mask c1(5) won])
  then have "io_pendingEventCount io2 = io_pendingEventCount io
      - event_count (fd_events c) + event_count (fd_events c2)"
    by (simp add: c1(3) c2(3))
  moreover have "io_fdContexts io2 = (io_fdContexts io)[nat fd := Some c2]" "io_kernel io2 = io_kernel io"
    "fd_fd c2 = fd_fd c"
    by (simp_all add: c1(1,2,6) c2(1,2,6))
  ultimately show ?thesis
    using c1(5) c2(7,8) ev won by blast
qed

lemma cancelAll_inv:
  assumes doc: "documented_ctl ctl interest" and inv: "io_inv interest tick io"
    and fd: "fd \<noteq> tick" and r: "cancelAll ctl fd io = Inr (res, io')"
  shows "io_inv interest tick io'"
proof (cases "contexts_size io \<le> fd")
  case True
  with r inv show ?thesis by (simp add: cancelAll_def)
next
  case False
  with r obtain c where at: "ctx_at fd io = Inr c" by (auto simp: cancelAll_def ctx_events_def obind_eq_Inr)
  have c: "ctx_ok c" using table_ok_at [OF _ at] inv by (auto simp: io_inv_def)
  show ?thesis
  proof (cases "fd_events c = 0")
    case True
    with False r at inv show ?thesis by (simp add: cancelAll_def ctx_events_def)
  next
    case on: False
    obtain rt k where k: "ctl CTL_DEL fd 0 (io_kernel io) = (rt, k)" by (cases "ctl CTL_DEL fd 0 (io_kernel io)")
    show ?thesis
    proof (cases "rt = 0")
      case False
      with \<open>\<not> contexts_size io \<le> fd\<close> r at on k have "io' = io\<lparr>io_kernel := k\<rparr>"
        by (simp add: cancelAll_def ctx_events_def Let_def)
      with io_inv_kernel [OF inv documented_failed [OF doc k False]] show ?thesis by simp
    next
      case True
      let ?io1 = "io\<lparr>io_kernel := k\<rparr>"
      have at1: "ctx_at fd ?io1 = Inr c" using at by simp
      from False r at on k True obtain io2 ev2 where
        2: "trigger_if (fd_events c AND READ \<noteq> 0) fd READ ?io1 = Inr io2" "ctx_events fd io2 = Inr ev2"
          "trigger_if (ev2 AND WRITE \<noteq> 0) fd WRITE io2 = Inr io'" "ctx_events fd io' = Inr 0"
        by (auto simp: cancelAll_def ctx_events_def [of fd io] Let_def outcome_simps)
      from trigger_both_effect [OF 2(1,3) at1 c] obtain c' where
        c': "io_fdContexts io' = (io_fdContexts ?io1)[nat fd := Some c']" "io_kernel io' = io_kernel ?io1" "ctx_ok c'"
          "fd_fd c' = fd_fd c" "ctx_at fd io' = Inr c'"
          "io_pendingEventCount io' = io_pendingEventCount ?io1 - event_count (fd_events c) + event_count (fd_events c')"
        by blast
      with 2(4) have "fd_events c' = 0" by (simp add: ctx_events_def)
      then show ?thesis
        using c' documented_set [OF doc k [unfolded True]]
        by (intro io_inv_update [OF inv at fd, where c' = c']) (simp_all add: wanted_def)
    qed
  qed
qed

lemma idle_event_inv:
  assumes doc: "documented_ctl ctl interest" and inv: "io_inv interest tick io"
    and fd: "fst e \<noteq> EvCtx tick" and r: "idle_event ctl e io = Inr io'"
  shows "io_inv interest tick io'"
proof (cases "fst e")
  case EvTickle
  with r inv show ?thesis by (simp add: idle_event_def) (auto simp: io_inv_def)
next
  case (EvCtx g)
  let ?real = "real_events (snd e)"
  from r EvCtx obtain c where at: "ctx_at g io = Inr c" by (auto simp: idle_event_def obind_eq_Inr)
  have c: "ctx_ok c" "fd_fd c = g" using table_ok_at [OF _ at] inv by (auto simp: io_inv_def)
  have gt: "g \<noteq> tick" using fd EvCtx by simp
  let ?left = "fd_events c AND NOT ?real"
  obtain rt k where k: "ctl (if ?left \<noteq> 0 then CTL_MOD else CTL_DEL) g (EPOLLET OR ?left) (io_kernel io) = (rt, k)"
    by (cases "ctl (if ?left \<noteq> 0 then CTL_MOD else CTL_DEL) g (EPOLLET OR ?left) (io_kernel io)")
  consider "fd_events c AND ?real = 0" | "fd_events c AND ?real \<noteq> 0" "rt \<noteq> 0" | "fd_events c AND ?real \<noteq> 0" "rt = 0"
    by blast
  then show ?thesis
  proof cases
    case 1
    with r EvCtx at inv show ?thesis by (simp add: idle_event_def Let_def NONE_def)
  next
    case 2
    with r EvCtx at k c have "io' = io\<lparr>io_kernel := k\<rparr>" by (simp add: idle_event_def Let_def NONE_def)
    with io_inv_kernel [OF inv documented_failed [OF doc k 2(2)]] show ?thesis by simp
  next
    case 3
    let ?io1 = "io\<lparr>io_kernel := k\<rparr>"
    have at1: "ctx_at g ?io1 = Inr c" using at by simp
    from 3 r EvCtx at k c obtain io2 where
      2: "trigger_if (?real AND READ \<noteq> 0) g READ ?io1 = Inr io2" "trigger_if (?real AND WRITE \<noteq> 0) g WRITE io2 = Inr io'"
      by (auto simp: idle_event_def Let_def NONE_def outcome_simps)
    from trigger_both_effect [OF 2 at1 c(1)] obtain c' where
      c': "io_fdContexts io' = (io_fdContexts ?io1)[nat g := Some c']" "io_kernel io' = io_kernel ?io1" "ctx_ok c'"
        "fd_fd c' = fd_fd c"
        "fd_events c' = fd_events c AND NOT ((if ?real AND READ \<noteq> 0 then READ else 0) OR (if ?real AND WRITE \<noteq> 0 then WRITE else 0))"
        "io_pendingEventCount io' = io_pendingEventCount ?io1 - event_count (fd_events c) + event_count (fd_events c')"
      by blast
    have "(if ?real AND READ \<noteq> 0 then READ else 0) OR (if ?real AND WRITE \<noteq> 0 then WRITE else 0) = ?real"
      using real_events_mask [of "snd e"] by (auto simp: event_mask_def event_consts)
    with c'(5) have "fd_events c' = ?left" by simp
    then show ?thesis
      using c' dropped_wanted [OF doc k [unfolded 3(2)]]
      by (intro io_inv_update [OF inv at gt, where c' = c']) simp_all
  qed
qed


lemma to_int32_word_of_int: "to_int32 (word_of_int i) = signed_take_bit 31 i"
  unfolding to_int32_def by transfer (simp add: signed_take_bit_take_bit)

lemma to_int32_small: "0 \<le> i \<Longrightarrow> i < 2 ^ 31 \<Longrightarrow> to_int32 (word_of_int i) = i"
  by (simp add: to_int32_word_of_int signed_take_bit_int_eq_self)

lemma contexts_size_length: "table_ok (io_fdContexts io) \<Longrightarrow> contexts_size io = int (length (io_fdContexts io))"
  using to_int32_small [of "int (length (io_fdContexts io))"]
  by (simp add: contexts_size_def table_ok_def)

lemma addEvent_grow_inv:
  assumes inv: "io_inv interest tick io" and fd: "contexts_size io \<le> fd" "fd < 2 ^ 30"
    and r: "addEvent_grow fd io = Inr io'"
  shows "io_inv interest tick io'"
proof -
  have tab: "table_ok (io_fdContexts io)" using inv by (simp add: io_inv_def)
  have "to_int32 (word_of_int (fd * 3 div 2)) = fd * 3 div 2"
    using fd contexts_size_length [OF tab] by (intro to_int32_small) simp_all
  then have "length (io_fdContexts io) \<le> nat (to_int32 (word_of_int (fd * 3 div 2)))"
    using fd(1) contexts_size_length [OF tab] by linarith
  with r inv show ?thesis
    by (auto simp: addEvent_grow_def obind_eq_Inr intro: contextResize_inv)
qed

lemma addEvent_inv:
  assumes doc: "documented_ctl ctl interest" and inv: "io_inv interest tick io"
    and fd: "fd \<noteq> tick" "fd < 2 ^ 30" and ev: "single_event ev"
    and r: "addEvent ctl tid a fd ev cb io = Inr (res, io')"
  shows "io_inv interest tick io'"
proof -
  from r obtain io1 where 1: "(if contexts_size io > fd then io1 = io else addEvent_grow fd io = Inr io1)"
    and 2: "addEvent_register ctl tid a fd ev cb io1 = Inr (res, io')"
    by (auto simp: addEvent_def addEvent_lookup_def obind_eq_Inr split: if_splits)
  have "io_inv interest tick io1"
    using 1 inv fd(2) addEvent_grow_inv [of interest tick io fd io1] by (auto split: if_splits)
  with 2 doc fd(1) ev show ?thesis by (auto intro: addEvent_register_inv)
qed

lemma io_inv_schedule: "io_inv interest tick io \<Longrightarrow> io_inv interest tick (io_schedule ft io)"
  by (simp add: io_inv_def)

lemma idle_round_inv:
  assumes doc: "documented_ctl ctl interest" and inv: "io_inv interest tick io"
    and evs: "EvCtx tick \<notin> fst ` set evs" and r: "idle_round ctl now evs io = Inr io'"
  shows "io_inv interest tick io'"
proof -
  from r obtain io2 where 2: "ofold (idle_event ctl) evs io2 = Inr io'" "io_inv interest tick io2"
  proof -
    from r obtain cbs tm where "listExpiredCb now [] (io_tm io) = Inr (cbs, tm)"
      "ofold (idle_event ctl) evs
        (if cbs \<noteq> [] then io_schedule_range (map FcCb cbs) (io\<lparr>io_tm := tm\<rparr>) else io\<lparr>io_tm := tm\<rparr>) = Inr io'"
      by (auto simp: idle_round_def Let_def obind_eq_Inr)
    moreover have "io_inv interest tick (io\<lparr>io_tm := tm\<rparr>)" using inv by (simp add: io_inv_def)
    moreover from this have "io_inv interest tick (io_schedule_range fcs (io\<lparr>io_tm := tm\<rparr>))" for fcs
      by (simp add: io_inv_def)
    ultimately show ?thesis using that by (cases "cbs = []") auto
  qed
  show ?thesis
  proof (rule ofold_invariant [OF 2(1), where P = "io_inv interest tick"])
    show "io_inv interest tick io2" by (rule 2(2))
    show "io_inv interest tick s'" if "e \<in> set evs" "io_inv interest tick s" "idle_event ctl e s = Inr s'" for e s s'
      using idle_event_inv [OF doc that(2) _ that(3)] evs that(1) by force
  qed
qed

section \<open>Runs\<close>

datatype 'cb io_op =
    IoAdd int nat int hps_Event "'cb fn option"
  | IoDel int hps_Event
  | IoCancel int hps_Event
  | IoCancelAll int
  | IoIdle u64 "(ev_data \<times> u32) list"

fun io_exec :: "'k epoll_ctl \<Rightarrow> 'cb io_op \<Rightarrow> ('cb, 'k) hps_IOManager \<Rightarrow> ('cb, 'k) hps_IOManager outcome" where
  "io_exec ctl (IoAdd tid a fd ev cb) io = obind (addEvent ctl tid a fd ev cb io) (\<lambda>(_, io'). Inr io')"
| "io_exec ctl (IoDel fd ev) io = obind (delEvent ctl fd ev io) (\<lambda>(_, io'). Inr io')"
| "io_exec ctl (IoCancel fd ev) io = obind (cancelEvent ctl fd ev io) (\<lambda>(_, io'). Inr io')"
| "io_exec ctl (IoCancelAll fd) io = obind (cancelAll ctl fd io) (\<lambda>(_, io'). Inr io')"
| "io_exec ctl (IoIdle now evs) io = idle_round ctl now evs io"

text \<open>
  Legal use: one of the two events, descriptors below \<open>2 ^ 30\<close>, and nobody touches the
  manager's own pipe.
\<close>

fun io_legal :: "int \<Rightarrow> 'cb io_op \<Rightarrow> bool" where
  "io_legal tick (IoAdd tid a fd ev cb) \<longleftrightarrow> fd \<noteq> tick \<and> fd < 2 ^ 30 \<and> single_event ev"
| "io_legal tick (IoDel fd ev) \<longleftrightarrow> fd \<noteq> tick \<and> single_event ev"
| "io_legal tick (IoCancel fd ev) \<longleftrightarrow> fd \<noteq> tick \<and> single_event ev"
| "io_legal tick (IoCancelAll fd) \<longleftrightarrow> fd \<noteq> tick"
| "io_legal tick (IoIdle now evs) \<longleftrightarrow> EvCtx tick \<notin> fst ` set evs"

text \<open>Between the operations, other code may change the scheduler and the timers.\<close>

inductive io_step :: "'k epoll_ctl \<Rightarrow> int \<Rightarrow> ('cb, 'k) hps_IOManager \<Rightarrow> ('cb, 'k) hps_IOManager \<Rightarrow> bool"
  for ctl tick where
  exec: "io_legal tick op \<Longrightarrow> io_exec ctl op io = Inr io' \<Longrightarrow> io_step ctl tick io io'"
| other: "io_step ctl tick io (io\<lparr>io_sw := sw, io_tm := tm, io_pipe := n\<rparr>)"

inductive_cases io_stepE: "io_step ctl tick io io'"

lemma io_step_inv:
  assumes doc: "documented_ctl ctl interest" and inv: "io_inv interest tick io" and st: "io_step ctl tick io io'"
  shows "io_inv interest tick io'"
  using st
proof (cases rule: io_step.cases)
  case (exec op)
  then show ?thesis
    by (cases op)
      (auto simp: obind_eq_Inr intro: addEvent_inv [OF doc inv] delEvent_inv [OF doc inv]
        cancelEvent_inv [OF doc inv] cancelAll_inv [OF doc inv] idle_round_inv [OF doc inv])
next
  case (other sw tm n)
  with inv show ?thesis by (simp add: io_inv_def)
qed

interpretation io_runs: invariant_system
  "\<lambda>io. documented_ctl ctl interest \<longrightarrow> io_inv interest tick io" "io_step ctl tick"
  "\<lambda>io. documented_ctl ctl interest \<longrightarrow> io_inv interest tick io" for ctl interest tick
  by unfold_locales (auto intro: io_step_inv)

text \<open>The constructor establishes the invariant.\<close>

lemma IOManager_new_inv:
  assumes doc: "documented_ctl ctl interest" and empty: "interest k = Map.empty"
    and r: "IOManager_new ctl opened tid other a r threads use_caller name now tick ids k w = Inr io"
  shows "io_inv interest tick io"
proof -
  obtain rt k0 where k0: "ctl CTL_ADD tick (EPOLLIN OR EPOLLET) k = (rt, k0)"
    by (cases "ctl CTL_ADD tick (EPOLLIN OR EPOLLET) k")
  with r obtain w1 k1 io1 s where k: "ctl CTL_ADD tick (EPOLLIN OR EPOLLET) k = (0, k1)"
    and c: "contextResize 32 \<lparr>io_sw = w1, io_tm = TimerManager_new now, io_pendingEventCount = 0,
              io_fdContexts = [], io_pipe = 0, io_kernel = k1\<rparr> = Inr io1"
    and io: "io = set_sched s io1"
    by (cases opened) (auto simp: IOManager_new_def Let_def outcome_simps)
  have "to_int32 32 = 32" using to_int32_small [of 32] by simp
  with c have io1: "io1 = \<lparr>io_sw = w1, io_tm = TimerManager_new now, io_pendingEventCount = 0,
      io_fdContexts = fill_contexts (replicate 32 None), io_pipe = 0, io_kernel = k1\<rparr>"
    by (simp add: contextResize_def Let_def)
  have nth: "io_fdContexts io1 ! i = Some (FdContext_new (int i))" if "i < 32" for i
    using that by (simp add: io1 fill_contexts_nth)
  have len: "length (io_fdContexts io1) = 32" by (simp add: io1)
  have "pending_sum (io_fdContexts io1) = 0"
    by (subst pending_sum_new [of "[]"]) (simp_all add: len nth, simp add: pending_sum_def)
  moreover have "interest k1 fd = None" if "fd \<noteq> tick" for fd
    using documented_set [OF doc k] empty that by simp
  moreover have "io_kernel io1 = k1" "io_pendingEventCount io1 = 0" by (simp_all add: io1)
  ultimately show ?thesis
    using nth by (auto simp: io set_sched_def io_inv_def table_ok_def interest_of_def len
        FdContext_new_ok wanted_def nat_less_iff)
qed

end
