(* ===== verification/Hps_IOManagerClaims.thy ===== *)
theory Hps_IOManagerClaims
  imports Hps_IOManagerProps
begin

unbundle bit_operations_syntax

text \<open>
  The properties of the IO manager. The witnesses use a kernel that is exactly the documented
  one (a map from descriptors to masks) and a small manager with two contexts.
\<close>

section \<open>A kernel and a manager for the witnesses\<close>

definition demo_ctl :: "(int \<Rightarrow> u32 option) epoll_ctl" where
  "demo_ctl op fd ev k =
     (case op of
        CTL_ADD \<Rightarrow> if k fd = None then (0, k(fd := Some ev)) else (-1, k)
      | CTL_MOD \<Rightarrow> if k fd \<noteq> None then (0, k(fd := Some ev)) else (-1, k)
      | CTL_DEL \<Rightarrow> if k fd \<noteq> None then (0, k(fd := None)) else (-1, k))"

lemma demo_ctl_documented: "documented_ctl demo_ctl id"
  by (auto simp: documented_ctl_def demo_ctl_def split: ctl_op.splits if_splits)

definition demo_sw :: "nat sched_world" where
  "demo_sw = \<lparr>sw_sched = Scheduler_fields ''io'', sw_fw = fiber_world_init, sw_t_scheduler = (\<lambda>t. t = 7),
     sw_hook = (\<lambda>_. False), sw_tickles = 0, sw_stack_size = 4096, sw_run = Map.empty\<rparr>"

definition demo_io :: "(nat, int \<Rightarrow> u32 option) hps_IOManager" where
  "demo_io = \<lparr>io_sw = demo_sw, io_tm = TimerManager_new 0, io_pendingEventCount = 0,
     io_fdContexts = [Some (FdContext_new 0), Some (FdContext_new 1)], io_pipe = 0, io_kernel = Map.empty\<rparr>"

lemma demo_io_inv: "io_inv id 99 demo_io"
  by (auto simp: io_inv_def demo_io_def table_ok_def pending_sum_def interest_of_def wanted_def
      event_count_def less_2_cases_iff FdContext_new_ok nth_Cons split: nat.splits)

section \<open>Two concurrent registrations\<close>

lemma registered_interest:
  assumes doc: "documented_ctl ctl interest"
    and reg: "addEvent_register ctl tid a f ev (Some cb) io = Inr (0, io')"
  shows "interest (io_kernel io') f \<noteq> None"
proof -
  from reg obtain c where at: "ctx_at f io = Inr c" "fd_events c AND ev = 0"
    by (auto simp: addEvent_register_def outcome_simps)
  let ?op = "if fd_events c \<noteq> 0 then CTL_MOD else CTL_ADD"
  obtain rt k where k0: "ctl ?op f (EPOLLET OR fd_events c OR ev) (io_kernel io) = (rt, k)"
    by (cases "ctl ?op f (EPOLLET OR fd_events c OR ev) (io_kernel io)")
  with reg at have "rt = 0" by (auto simp: addEvent_register_def Let_def split: if_splits)
  then have k: "ctl ?op f (EPOLLET OR fd_events c OR ev) (io_kernel io) = (0, k)" using k0 by simp
  with reg at have "io_kernel io' = k" by (auto simp: addEvent_register_def Let_def outcome_simps)
  then show ?thesis using documented_set [OF doc k] by simp
qed

text \<open>What \<open>addEvent_grow\<close> leaves, also when it shrinks the table.\<close>

lemma addEvent_grow_effect:
  assumes r: "addEvent_grow g io = Inr io'" and g: "2 \<le> g" "g * 3 div 2 < 2 ^ 31"
  shows "io_kernel io' = io_kernel io" and "length (io_fdContexts io') = nat (g * 3 div 2)"
    and "contexts_size io' = g * 3 div 2"
    and "length (io_fdContexts io) \<le> nat g \<Longrightarrow> ctx_at g io' = Inr (FdContext_new g)"
proof -
  have n: "to_int32 (word_of_int (g * 3 div 2)) = g * 3 div 2"
    using g by (intro to_int32_small) simp_all
  with r g have io': "io' = io\<lparr>io_fdContexts := fill_contexts
      (take (nat (g * 3 div 2)) (io_fdContexts io) @ replicate (nat (g * 3 div 2) - length (io_fdContexts io)) None)\<rparr>"
    by (auto simp: addEvent_grow_def contextResize_def Let_def obind_eq_Inr split: if_splits)
  then show "io_kernel io' = io_kernel io" and len: "length (io_fdContexts io') = nat (g * 3 div 2)"
    by (simp_all add: min_def)
  show "contexts_size io' = g * 3 div 2"
    using to_int32_small [of "g * 3 div 2"] g by (simp add: contexts_size_def len)
  show "ctx_at g io' = Inr (FdContext_new g)" if "length (io_fdContexts io) \<le> nat g"
  proof -
    have lt: "nat g < nat (g * 3 div 2)" using g by linarith
    have "io_fdContexts io' ! nat g = Some (FdContext_new (int (nat g)))"
      unfolding io' using grown_entry [OF that lt] by simp
    with lt len g show ?thesis by (simp add: ctx_at_def)
  qed
qed

lemma addEvent_refused:
  assumes doc: "documented_ctl ctl interest" and known: "interest (io_kernel io) f \<noteq> None"
    and size: "contexts_size io \<le> f" "length (io_fdContexts io) \<le> nat f" and f: "2 \<le> f" "f < 2 ^ 30"
    and ad: "addEvent ctl tid b f ev (Some cb) io = Inr (res, io')"
  shows "res = -1"
proof -
  from ad size(1) obtain io1 where grow: "addEvent_grow f io = Inr io1"
    and reg: "addEvent_register ctl tid b f ev (Some cb) io1 = Inr (res, io')"
    by (auto simp: addEvent_def addEvent_lookup_def obind_eq_Inr)
  have "f * 3 div 2 < 2 ^ 31" using f by simp
  note e = addEvent_grow_effect [OF grow f(1) this]
  obtain rt k where k: "ctl CTL_ADD f (EPOLLET OR ev) (io_kernel io) = (rt, k)"
    by (cases "ctl CTL_ADD f (EPOLLET OR ev) (io_kernel io)")
  have "rt \<noteq> 0" using documented_add_free [OF doc] k known by (metis)
  with reg e(1) e(4) [OF size(2)] k show ?thesis
    by (simp add: addEvent_register_def Let_def FdContext_new_ok)
qed

section \<open>Registration\<close>

lemma pending_sum_bound:
  "\<exists>n. pending_sum cs = of_nat n \<and> n \<le> 2 * length cs \<and>
     (n = 0 \<longrightarrow> (\<forall>c. Some c \<in> set cs \<longrightarrow> event_count (fd_events c) = 0))"
proof (induction cs)
  case Nil
  then show ?case by (simp add: pending_sum_def)
next
  case (Cons x cs)
  then obtain n where n: "pending_sum cs = of_nat n" "n \<le> 2 * length cs"
      "n = 0 \<longrightarrow> (\<forall>c. Some c \<in> set cs \<longrightarrow> event_count (fd_events c) = 0)" by blast
  obtain m where m: "(case x of None \<Rightarrow> 0 | Some c \<Rightarrow> event_count (fd_events c)) = of_nat m" "m \<le> 2"
      "m = 0 \<longrightarrow> (\<forall>c. x = Some c \<longrightarrow> event_count (fd_events c) = 0)"
  proof (cases x)
    case None
    then show ?thesis by (intro that [of 0]) simp_all
  next
    case (Some c)
    let ?m = "(if fd_events c AND READ \<noteq> 0 then 1 else 0) + (if fd_events c AND WRITE \<noteq> 0 then 1 else 0) :: nat"
    show ?thesis by (rule that [of ?m]) (simp_all add: Some event_count_def)
  qed
  have "pending_sum (x # cs) = of_nat (m + n)" using n(1) m(1) by (simp add: pending_sum_def)
  with n m show ?case by (intro exI [of _ "m + n"]) auto
qed

lemma event_count_zero: "event_mask ev \<Longrightarrow> event_count ev = 0 \<longleftrightarrow> ev = 0"
  by (auto simp: event_mask_def event_count_def event_consts)

lemma nothing_pending:
  assumes "table_ok cs" and "pending_sum cs = 0" and "i < length cs" and "cs ! i = Some c"
  shows "fd_events c = 0"
proof -
  obtain n where n: "pending_sum cs = of_nat n" "n \<le> 2 * length cs"
      "n = 0 \<longrightarrow> (\<forall>c. Some c \<in> set cs \<longrightarrow> event_count (fd_events c) = 0)"
    using pending_sum_bound by blast
  have "n < 2 ^ 32" using n(2) assms(1) by (simp add: table_ok_def)
  moreover have "(of_nat n :: u64) = 0" using n(1) assms(2) by simp
  ultimately have "n = 0" by (auto simp: word_of_nat_eq_0_iff dest!: dvd_imp_le)
  moreover have "Some c \<in> set cs" using assms(3,4) nth_mem by force
  ultimately have "event_count (fd_events c) = 0" using n(3) by blast
  moreover have "event_mask (fd_events c)" using assms by (auto simp: table_ok_def ctx_ok_def)
  ultimately show ?thesis by (simp add: event_count_zero)
qed



text \<open>
  The idle loop never waits: whenever it does not end, the timeout it gives to
  \<open>epoll_wait\<close> is 0, however far the next timer is; it ends exactly when no timer is armed, no
  event is pending and the scheduler is stopping.
\<close>

theorem idle_never_waits:
  "(case fst (idle_head now io) of
      None \<Rightarrow> fst (snd (IOManager_stopping now io))
    | Some next_timeout \<Rightarrow>
        \<not> fst (snd (IOManager_stopping now io)) \<and> clamp_timeout next_timeout = 0)"
proof -
  have again: "fst (getNextTimer now (snd (getNextTimer now m))) = fst (getNextTimer now m)" for m :: "'a fn hps_TimerManager"
    by (auto simp: getNextTimer_def Let_def split: list.splits)
  obtain t tm where g: "getNextTimer now (io_tm io) = (t, tm)"
    by (cases "getNextTimer now (io_tm io)")
  then have g2: "fst (getNextTimer now tm) = t" using again [of "io_tm io"] by simp
  have z: "clamp_timeout 0 = 0" by (simp add: clamp_timeout_def u64_max_def to_int32_def)
  show ?thesis
    using g g2 z by (auto simp: idle_head_def IOManager_stopping_def split: prod.splits)
qed


text \<open>
  C21: An event's life: a callback registered for one event of a descriptor with no events,
  from a thread of the scheduler, goes into the queue (unpinned, at the end) when the kernel
  reports that event, and only then; afterwards the contexts and the pending count are what
  they were, so an event fires once per registration.
\<close>

theorem registered_event_fires_once:
  assumes at: "ctx_at fd io = Inr c" and size: "fd < contexts_size io" and c: "fd_events c = 0" "ctx_ok c" "fd_fd c = fd"
    and ev: "single_event ev" and t: "sw_t_scheduler (io_sw io) tid"
    and k1: "ctl CTL_ADD fd (EPOLLET OR ev) (io_kernel io) = (0, k1)"
    and k2: "ctl CTL_DEL fd EPOLLET k1 = (0, k2)"
  shows "\<exists>io1 io2. addEvent ctl tid a fd ev (Some f) io = Inr (0, io1) \<and>
    m_fibers (sw_sched (io_sw io1)) = m_fibers (sw_sched (io_sw io)) \<and>
    io_pendingEventCount io1 = io_pendingEventCount io + 1 \<and>
    idle_event ctl (EvCtx fd, ev) io1 = Inr io2 \<and>
    m_fibers (sw_sched (io_sw io2)) = m_fibers (sw_sched (io_sw io)) @
      [\<lparr>ft_fiber = None, ft_cb = Some f, ft_thread = -1\<rparr>] \<and>
    io_fdContexts io2 = io_fdContexts io \<and> io_pendingEventCount io2 = io_pendingEventCount io \<and>
    io_kernel io2 = k2"
proof -
  note d = ctx_at_InrD [OF at]
  obtain e where e: "getContext ev c = Inr e" "ec_empty e"
    using ev c(1,2) by (auto simp: single_event_def getContext_def ctx_ok_def event_consts)
  let ?e1 = "e\<lparr>ec_scheduler := True, ec_cb := Some f\<rparr>"
  let ?c1 = "putContext ev ?e1 (c\<lparr>fd_events := ev\<rparr>)"
  let ?io1 = "put_ctx fd ?c1 (add_pending 1 (io\<lparr>io_kernel := k1\<rparr>))"
  have get: "getContext ev (c\<lparr>fd_events := x\<rparr>) = Inr e" for x
    using e(1) by (auto simp: getContext_def split: if_splits)
  have reg: "addEvent_register ctl tid a fd ev (Some f) io = Inr (0, ?io1)"
    using at c k1 t e(2) get by (simp add: addEvent_register_def Let_def ec_empty_def)
  have add: "addEvent ctl tid a fd ev (Some f) io = Inr (0, ?io1)"
    using size at reg by (simp add: addEvent_def addEvent_lookup_def)
  have at1: "ctx_at fd ?io1 = Inr ?c1" using d by simp
  have get1: "getContext ev (?c1\<lparr>fd_events := x\<rparr>) = Inr ?e1" for x
    using ev by (auto simp: getContext_def putContext_def single_event_def event_consts)
  have "putContext ev (?e1\<lparr>ec_cb := None, ec_scheduler := False\<rparr>) (?c1\<lparr>fd_events := 0\<rparr>) = c"
    using e c(1) ev
    by (cases c; cases e) (auto simp: putContext_def getContext_def single_event_def event_consts ec_empty_def split: if_splits)
  then have restored: "(io_fdContexts io)[nat fd := Some (putContext ev (?e1\<lparr>ec_cb := None, ec_scheduler := False\<rparr>)
      (?c1\<lparr>fd_events := 0\<rparr>))] = io_fdContexts io"
    using d(3) by (metis list_update_id)
  let ?ft = "\<lparr>ft_fiber = None, ft_cb = Some f, ft_thread = -1\<rparr>"
  let ?c2 = "putContext ev (?e1\<lparr>ec_cb := None, ec_scheduler := False\<rparr>) (?c1\<lparr>fd_events := 0\<rparr>)"
  have bits: "ev AND ev = ev" "ev \<noteq> 0" "ev AND NOT ev = 0" "real_events ev = ev"
    using ev by (auto simp: single_event_def real_events_def ready_mask_def event_consts EPOLLIN_def
        EPOLLOUT_def EPOLLERR_def EPOLLHUP_def)
  have trig: "triggerEvent fd ev (?io1\<lparr>io_kernel := k\<rparr>) = Inr (io_schedule ?ft (put_ctx fd ?c2 (?io1\<lparr>io_kernel := k\<rparr>)))" for k
    using at1 bits get1 by (simp add: triggerEvent_def Let_def)
  let ?io2 = "add_pending (-1) (io_schedule ?ft (put_ctx fd ?c2 (?io1\<lparr>io_kernel := k2\<rparr>)))"
  have "idle_event ctl (EvCtx fd, ev) ?io1 =
      obind (trigger_if (ev AND READ \<noteq> 0) fd READ (?io1\<lparr>io_kernel := k2\<rparr>)) (trigger_if (ev AND WRITE \<noteq> 0) fd WRITE)"
    using at1 bits k2 c(3) by (simp add: idle_event_def Let_def NONE_def)
  also have "\<dots> = Inr ?io2"
    using ev trig by (auto simp: single_event_def trigger_if_def event_consts)
  finally have idle: "idle_event ctl (EvCtx fd, ev) ?io1 = Inr ?io2" .
  show ?thesis
    using add idle restored
    by (intro exI [of _ ?io1] exI [of _ ?io2]) (simp add: ft_full_def)
qed

theorem registered_event_fires_once_witness:
  "\<exists>io1 io2. addEvent demo_ctl 7 50 1 READ (Some (FnUser 3)) demo_io = Inr (0, io1) \<and>
     idle_event demo_ctl (EvCtx 1, READ) io1 = Inr io2 \<and>
     m_fibers (sw_sched (io_sw io2)) = [\<lparr>ft_fiber = None, ft_cb = Some (FnUser 3), ft_thread = -1\<rparr>]"
  using registered_event_fires_once [of 1 demo_io "FdContext_new 1" READ 7 demo_ctl
      "[1 \<mapsto> EPOLLET OR READ]" Map.empty 50 "FnUser 3"] to_int32_small [of 2]
  by (auto simp: ctx_at_def demo_io_def demo_sw_def contexts_size_def FdContext_new_ok single_event_def
      demo_ctl_def Scheduler_fields_def)

text \<open>
  A hang-up or an error on a descriptor that is registered for one event only takes the
  process down: the handler turns it into both events, and triggering the one that is not
  registered fails the assertion.
\<close>

theorem hangup_with_one_event_aborts:
  assumes at: "ctx_at fd io = Inr c" and c: "fd_events c = ev" "fd_fd c = fd" and ev: "single_event ev"
    and sched: "\<forall>e. getContext ev c = Inr e \<longrightarrow> ec_scheduler e"
    and hup: "msk AND (EPOLLERR OR EPOLLHUP) \<noteq> 0"
    and k: "ctl CTL_DEL fd EPOLLET (io_kernel io) = (0, k')"
  shows "idle_event ctl (EvCtx fd, msk) io = Inl (AssertFail ''events & event'')"
proof -
  note d = ctx_at_InrD [OF at]
  have "(msk OR EPOLLIN OR EPOLLOUT) AND EPOLLIN = EPOLLIN" "(msk OR EPOLLIN OR EPOLLOUT) AND EPOLLOUT = EPOLLOUT"
    by (simp_all add: bit.conj_disj_distrib2)
  then have real: "real_events msk = 5"
    using hup by (simp add: real_events_def ready_mask_def event_consts) (simp add: EPOLLIN_def EPOLLOUT_def)
  have left: "ev AND NOT 5 = 0" "ev AND 5 \<noteq> 0" using ev by (auto simp: single_event_def event_consts)
  have e: "idle_event ctl (EvCtx fd, msk) io =
      obind (trigger_if True fd READ (io\<lparr>io_kernel := k'\<rparr>)) (trigger_if True fd WRITE)"
    using at c k real left by (simp add: idle_event_def Let_def event_consts)
  from ev consider "ev = READ" | "ev = WRITE" by (auto simp: single_event_def)
  then show ?thesis
  proof cases
    case 1
    let ?c1 = "putContext READ ((if ec_cb (fd_read c) \<noteq> None then (fd_read c)\<lparr>ec_cb := None\<rparr>
        else (fd_read c)\<lparr>ec_fiber := None\<rparr>)\<lparr>ec_scheduler := False\<rparr>) (c\<lparr>fd_events := 0\<rparr>)"
    have "ec_scheduler (fd_read c)" using sched 1 by (simp add: getContext_def)
    then obtain ft where t: "triggerEvent fd READ (io\<lparr>io_kernel := k'\<rparr>) =
        Inr (io_schedule ft (put_ctx fd ?c1 (io\<lparr>io_kernel := k'\<rparr>)))"
      using at 1 c
      by (cases "ec_cb (fd_read c)") (auto simp: triggerEvent_def Let_def getContext_def event_consts)
    have at2: "ctx_at fd (add_pending (-1) (io_schedule ft (put_ctx fd ?c1 (io\<lparr>io_kernel := k'\<rparr>)))) = Inr ?c1"
      using d by (simp add: ctx_at_def)
    show ?thesis using e t at2 by (simp add: trigger_if_def triggerEvent_def)
  next
    case 2
    then show ?thesis using e at c by (simp add: trigger_if_def triggerEvent_def event_consts)
  qed
qed

theorem hangup_with_one_event_aborts_witness:
  "\<exists>io1. addEvent demo_ctl 7 50 1 READ (Some (FnUser 3)) demo_io = Inr (0, io1) \<and>
     idle_event demo_ctl (EvCtx 1, EPOLLHUP) io1 = Inl (AssertFail ''events & event'')"
proof -
  let ?c = "(FdContext_new 1)\<lparr>fd_read := \<lparr>ec_scheduler = True, ec_fiber = None, ec_cb = Some (FnUser 3)\<rparr>,
     fd_events := READ\<rparr> :: nat hps_FdContext"
  obtain io1 where io1: "addEvent demo_ctl 7 50 1 READ (Some (FnUser 3)) demo_io = Inr (0, io1)"
    "ctx_at 1 io1 = Inr ?c" "io_kernel io1 = [1 \<mapsto> EPOLLET OR READ]"
    using to_int32_small [of 2]
    by (simp add: addEvent_def addEvent_lookup_def addEvent_register_def contexts_size_def ctx_at_def Let_def
        demo_io_def demo_sw_def demo_ctl_def FdContext_new_def EventContext_empty_def getContext_def
        putContext_def event_consts put_ctx_def add_pending_def)
  have "idle_event demo_ctl (EvCtx 1, EPOLLHUP) io1 = Inl (AssertFail ''events & event'')"
    by (rule hangup_with_one_event_aborts [OF io1(2), of READ])
      (simp_all add: FdContext_new_def single_event_def getContext_def EPOLLHUP_def EPOLLERR_def
        demo_ctl_def io1(3))
  with io1(1) show ?thesis by blast
qed


text \<open>
  Two threads add events for new descriptors \<open>f\<close> and \<open>g\<close>, the second look-up running before
  the first resize: the second resize cuts the table back, so the first registration is lost
  while the kernel still watches \<open>f\<close>. Deleting it then does nothing, and adding it again is
  refused by the kernel.
\<close>

theorem concurrent_addEvent_loses_registration:
  assumes doc: "documented_ctl ctl interest" and inv: "io_inv interest tick io"
    and g: "contexts_size io \<le> g" "g * 3 div 2 \<le> f" and f: "f < 2 ^ 30"
    and run: "addEvent_grow f io = Inr io1" "addEvent_register ctl t1 a f ev (Some cb) io1 = Inr (0, io2)"
      "addEvent_grow g io2 = Inr io3"
  shows "addEvent_lookup f io = Inr False \<and> addEvent_lookup g io = Inr False \<and>
    interest (io_kernel io3) f \<noteq> None \<and> ctx_at f io3 = Inl (OutOfRange ''m_fdContexts[fd]'') \<and>
    delEvent ctl f ev io3 = Inr (False, io3) \<and>
    (\<forall>res io4. addEvent ctl t2 b f ev (Some cb) io3 = Inr (res, io4) \<longrightarrow> res = -1)"
proof -
  have tab: "table_ok (io_fdContexts io)" using inv by (simp add: io_inv_def)
  have g2: "2 \<le> g" using g(1) contexts_size_length [OF tab] tab by (simp add: table_ok_def)
  then have gf: "g \<le> f" using g(2) by linarith
  have bound: "g * 3 div 2 < 2 ^ 31" using f(1) g(2) by simp
  note e = addEvent_grow_effect [OF run(3) g2 bound]
  have known: "interest (io_kernel io3) f \<noteq> None" using registered_interest [OF doc run(2)] e(1) by simp
  have lost: "ctx_at f io3 = Inl (OutOfRange ''m_fdContexts[fd]'')"
    using g(2) g2 e(2) by (simp add: ctx_at_def)
  have "contexts_size io3 \<le> f" "length (io_fdContexts io3) \<le> nat f" "2 \<le> f"
    using e(2,3) g(2) gf g2 by simp_all
  then have "\<forall>res io4. addEvent ctl t2 b f ev (Some cb) io3 = Inr (res, io4) \<longrightarrow> res = -1"
    using addEvent_refused [OF doc known _ _ _ f(1)] by blast
  with g gf e known lost show ?thesis
    by (simp add: addEvent_lookup_def delEvent_def drop_interest_def)
qed

theorem concurrent_addEvent_loses_registration_witness:
  "\<exists>io1 io2 io3. addEvent_grow 3 demo_io = Inr io1 \<and>
     addEvent_register demo_ctl 7 50 3 READ (Some (FnUser 1)) io1 = Inr (0, io2) \<and>
     addEvent_grow 2 io2 = Inr io3 \<and> delEvent demo_ctl 3 READ io3 = Inr (False, io3) \<and> io_kernel io3 3 \<noteq> None"
proof -
  obtain io1 io2 io3 where r: "addEvent_grow 3 demo_io = Inr io1"
    "addEvent_register demo_ctl 7 50 3 READ (Some (FnUser 1)) io1 = Inr (0, io2)" "addEvent_grow 2 io2 = Inr io3"
    using to_int32_small [of 4] to_int32_small [of 3]
    by (simp add: addEvent_grow_def addEvent_register_def contextResize_def fill_contexts_def ctx_at_def Let_def
        demo_io_def demo_sw_def demo_ctl_def FdContext_new_def EventContext_empty_def getContext_def
        putContext_def event_consts put_ctx_def add_pending_def numeral_2_eq_2 numeral_3_eq_3)
  have "contexts_size demo_io \<le> 2"
    using to_int32_small [of 2] by (simp add: contexts_size_def demo_io_def)
  from concurrent_addEvent_loses_registration [OF demo_ctl_documented demo_io_inv this _ _ r]
  show ?thesis using r by simp
qed

end
