(* ===== verification/Hps_IdleLoop.thy ===== *)
theory Hps_IdleLoop
  imports Hps_IOManagerClaims Hps_SchedulerClaims Hps_TimerClaims
begin

text \<open>
  The three parts of an IO manager together: the worker loop of the scheduler, the idle fiber
  of \<open>hps_IOManager::idle\<close> and the timers. The virtual calls of the scheduler, \<open>idle\<close> and
  \<open>tickle\<close>, go to the overrides of the IO manager.
\<close>

section \<open>A turn of the idle loop\<close>

text \<open>
  What \<open>epoll_wait\<close> does when it is called: it is interrupted by a signal, fails otherwise, or
  fills the array. The loop calls again after an interruption, with the timeout it has clamped
  before; \<open>None\<close>: it has not returned yet.
\<close>

datatype wait_answer = Interrupted | WaitFailed | Ready "(ev_data \<times> u32) list"

fun epoll_wait_loop :: "wait_answer list \<Rightarrow> u64 \<Rightarrow> (ev_data \<times> u32) list option" where
  "epoll_wait_loop [] next_timeout = None"
| "epoll_wait_loop (Interrupted # answers) next_timeout = epoll_wait_loop answers (clamp_timeout next_timeout)"
| "epoll_wait_loop (WaitFailed # answers) next_timeout = Some []"
| "epoll_wait_loop (Ready evs # answers) next_timeout = Some evs"

text \<open>
  A slice of the idle fiber: a turn of the loop up to \<open>swapOut\<close>, or the return from \<open>idle\<close>; no
  slice as long as \<open>epoll_wait\<close> does not return. \<open>now1\<close> and \<open>now2\<close> are the clock at the test of
  \<open>stopping\<close> and at \<open>listExpiredCb\<close>.
\<close>

definition IOManager_idle ::
  "'k epoll_ctl \<Rightarrow> u64 \<Rightarrow> u64 \<Rightarrow> wait_answer list \<Rightarrow> ('cb, 'k) hps_IOManager \<Rightarrow>
     (slice option \<times> ('cb, 'k) hps_IOManager) outcome" where
  "IOManager_idle ctl now1 now2 answers io =
     (case idle_head now1 io of
        (None, io1) \<Rightarrow> Inr (Some (SEnd Returned), io1)
      | (Some next_timeout, io1) \<Rightarrow>
          (case epoll_wait_loop answers next_timeout of
             None \<Rightarrow> Inr (None, io)
           | Some evs \<Rightarrow> obind (idle_round ctl now2 evs io1) (\<lambda>io2. Inr (Some SOut, io2))))"

section \<open>The worker loop on an IO manager\<close>

text \<open>
  A step of the scheduler on the scheduler part: every \<open>tickle\<close> it makes writes a byte into the
  pipe if there are idle threads (no step that makes one changes their number).
\<close>

definition on_sched ::
  "('cb sched_world \<Rightarrow> 'cb sched_world outcome) \<Rightarrow> ('cb, 'k) hps_IOManager \<Rightarrow> ('cb, 'k) hps_IOManager outcome"
where
  "on_sched f io = obind (f (io_sw io)) (\<lambda>w.
     Inr (io\<lparr>io_sw := w,
             io_pipe := io_pipe io + (if hasIdleThreads (sw_sched w)
                                      then sw_tickles w - sw_tickles (io_sw io) else 0)\<rparr>))"

definition io_step_thread ::
  "'k epoll_ctl \<Rightarrow> int \<Rightarrow> nat \<Rightarrow> slice \<Rightarrow> u64 \<Rightarrow> u64 \<Rightarrow> wait_answer list \<Rightarrow>
     ('cb, 'k) hps_IOManager \<Rightarrow> ('cb, 'k) hps_IOManager outcome" where
  "io_step_thread ctl tid c sl now1 now2 answers io =
     obind (deref (sw_run (io_sw io) tid) ''not in run'') (\<lambda>l.
       if l_pc l = LIn BIdle then
         obind (IOManager_idle ctl now1 now2 answers io) (\<lambda>(r, io1). case r of
           None \<Rightarrow> Inr io1
         | Some s \<Rightarrow> on_sched (run_in tid s BIdle l) io1)
       else on_sched (step_thread tid c sl) io)"

text \<open>An iteration without interference, as in Hps_Scheduler.\<close>

definition io_iteration ::
  "'k epoll_ctl \<Rightarrow> int \<Rightarrow> nat \<Rightarrow> slice \<Rightarrow> u64 \<Rightarrow> u64 \<Rightarrow> wait_answer list \<Rightarrow>
     ('cb, 'k) hps_IOManager \<Rightarrow> ('cb, 'k) hps_IOManager outcome" where
  "io_iteration ctl tid c sl now1 now2 answers io =
     (let step = io_step_thread ctl tid c sl now1 now2 answers in
      obind (step io) (\<lambda>io1. obind (step io1) (\<lambda>io2. obind (step io2) (\<lambda>io3.
      if map_option l_pc (sw_run (io_sw io3) tid) \<in> {Some LTop, Some LDone} then Inr io3
      else obind (step io3) (\<lambda>io4. obind (step io4) step)))))"

section \<open>The end of an IO manager\<close>

text \<open>
  The destructor: \<open>stop\<close> of the scheduler, up to where Hps_Scheduler leaves it, and after the
  threads are joined the closing of the epoll descriptor and the pipe and the deletion of the
  contexts. \<open>close\<close> acts on the kernel's state.
\<close>

definition IOManager_stop ::
  "int \<Rightarrow> ('cb, 'k) hps_IOManager \<Rightarrow> (stop_next \<times> ('cb, 'k) hps_IOManager) outcome" where
  "IOManager_stop tid io = obind (stop_begin tid (io_sw io)) (\<lambda>(next, w).
     obind (on_sched (\<lambda>_. Inr w) io) (\<lambda>io1. Inr (next, io1)))"

definition IOManager_free ::
  "(int \<Rightarrow> 'k \<Rightarrow> 'k) \<Rightarrow> int \<Rightarrow> int \<Rightarrow> int \<Rightarrow> ('cb, 'k) hps_IOManager \<Rightarrow> ('cb, 'k) hps_IOManager" where
  "IOManager_free close epfd fd0 fd1 io =
     io\<lparr>io_kernel := close fd1 (close fd0 (close epfd (io_kernel io))), io_fdContexts := []\<rparr>"

section \<open>Steps that are the scheduler's\<close>

text \<open>What a scheduler step leaves alone in the IO manager.\<close>

definition same_io :: "('cb, 'k) hps_IOManager \<Rightarrow> ('cb, 'k) hps_IOManager \<Rightarrow> bool" where
  "same_io io io' \<longleftrightarrow> io_tm io' = io_tm io \<and> io_pendingEventCount io' = io_pendingEventCount io \<and>
     io_fdContexts io' = io_fdContexts io \<and> io_kernel io' = io_kernel io"

lemma same_io_refl [simp]: "same_io io io"
  by (simp add: same_io_def)

lemma same_io_trans: "same_io a b \<Longrightarrow> same_io b c \<Longrightarrow> same_io a c"
  by (simp add: same_io_def)

lemma on_sched_ok:
  assumes "f (io_sw io) = Inr w"
  obtains io' where "on_sched f io = Inr io'" and "io_sw io' = w" and "same_io io io'"
  using assms by (simp add: on_sched_def same_io_def)

lemma io_step_ok:
  assumes "same_io io j" and "sw_run (io_sw j) tid = Some l" and "l_pc l \<noteq> LIn BIdle"
    and "step_thread tid c sl (io_sw j) = Inr w"
  shows "\<exists>j'. io_step_thread ctl tid c sl now1 now2 answers j = Inr j' \<and> io_sw j' = w \<and> same_io io j'"
proof -
  obtain j' where "on_sched (step_thread tid c sl) j = Inr j'" "io_sw j' = w" "same_io j j'"
    using on_sched_ok [of "step_thread tid c sl" j w] assms(4) by blast
  with assms show ?thesis by (auto simp: io_step_thread_def intro: same_io_trans)
qed

text \<open>
  From the loop top to a branch that is not the idle one, an iteration is the scheduler's.
\<close>

lemma branch_not_idle:
  assumes "sw_run w tid = Some l" and "l_pc l = LBranch" and "ft_full (l_ft l)"
    and "step_thread tid c sl w = Inr w'"
  shows "\<exists>l' b. sw_run w' tid = Some l' \<and> l_pc l' = LIn b \<and> b \<noteq> BIdle"
  using assms
  by (auto simp: step_thread_def run_step_def run_branch_def run_fiber_branch_def run_cb_branch_def fiber_guard_def
      ft_full_def obind_eq_Inr Let_def split: option.splits if_splits)

lemma io_iteration_of_task:
  assumes l: "sw_run (io_sw io) tid = Some l" "l_pc l = LTop"
    and pick: "pick (fw_objs (sw_fw (io_sw io))) tid (m_fibers (sw_sched (io_sw io))) = Inr (Some it, t, q)"
    and full: "ft_full it" and run: "run_iteration tid c sl (io_sw io) = Inr w"
  obtains io' where "io_iteration ctl tid c sl now1 now2 answers io = Inr io'"
    and "io_sw io' = w" and "same_io io io'"
proof -
  let ?st = "step_thread tid c sl"
  let ?io = "io_step_thread ctl tid c sl now1 now2 answers"
  obtain w1 l1 where 1: "?st (io_sw io) = Inr w1" "sw_run w1 tid = Some l1" "l_pc l1 = LTickle" "l_ft l1 = it"
    using l pick by (simp add: step_thread_def run_step_def run_pick_def)
  obtain w2 l2 where 2: "?st w1 = Inr w2" "sw_run w2 tid = Some l2" "l_pc l2 = LBranch" "l_ft l2 = it"
    using 1(2-4) by (simp add: step_thread_def run_step_def run_tickle_def)
  obtain w3 where 3: "?st w2 = Inr w3" using run 1(1) 2(1) by (auto simp: run_iteration_def obind_eq_Inr)
  obtain l3 b where l3: "sw_run w3 tid = Some l3" "l_pc l3 = LIn b" "b \<noteq> BIdle"
    using branch_not_idle [OF 2(2,3) _ 3] 2(4) full by auto
  obtain w4 w5 where 4: "?st w3 = Inr w4" and 5: "?st w4 = Inr w5" and 6: "?st w5 = Inr w"
    using run 1(1) 2(1) 3 l3(1,2) by (auto simp: run_iteration_def obind_eq_Inr)
  obtain l4 where l4: "sw_run w4 tid = Some l4" "l_pc l4 = LBack b"
    using 4 l3 by (auto simp: step_thread_def run_step_def run_in_def obind_eq_Inr)
  obtain l5 where l5: "sw_run w5 tid = Some l5" "l_pc l5 = LAfter b"
    using 5 l4 by (auto simp: step_thread_def run_step_def run_back_def)
  obtain io1 where s1: "?io io = Inr io1" "io_sw io1 = w1" "same_io io io1"
    using io_step_ok [OF same_io_refl l(1) _ 1(1), of ctl now1 now2 answers] l(2) by auto
  obtain io2 where s2: "?io io1 = Inr io2" "io_sw io2 = w2" "same_io io io2"
    using io_step_ok [OF s1(3), of tid l1 c sl w2 ctl now1 now2 answers] 1 2(1) s1(2) by auto
  obtain io3 where s3: "?io io2 = Inr io3" "io_sw io3 = w3" "same_io io io3"
    using io_step_ok [OF s2(3), of tid l2 c sl w3 ctl now1 now2 answers] 2 3 s2(2) by auto
  obtain io4 where s4: "?io io3 = Inr io4" "io_sw io4 = w4" "same_io io io4"
    using io_step_ok [OF s3(3), of tid l3 c sl w4 ctl now1 now2 answers] l3 4 s3(2) by auto
  obtain io5 where s5: "?io io4 = Inr io5" "io_sw io5 = w5" "same_io io io5"
    using io_step_ok [OF s4(3), of tid l4 c sl w5 ctl now1 now2 answers] l4 5 s4(2) by auto
  obtain io6 where s6: "?io io5 = Inr io6" "io_sw io6 = w" "same_io io io6"
    using io_step_ok [OF s5(3), of tid l5 c sl w ctl now1 now2 answers] l5 6 s5(2) by auto
  have "io_iteration ctl tid c sl now1 now2 answers io = Inr io6"
    using s1(1) s2(1) s3(1,2) s4(1) s5(1) s6(1) l3(1,2) by (simp add: io_iteration_def)
  with s6(2,3) that show ?thesis by blast
qed

section \<open>Callbacks of the queue\<close>

lemma io_drain:
  assumes "worker_with P tid c mn (io_sw io)" and "callbacks_for tid (m_fibers (sw_sched (io_sw io)))"
    and "length es = length (m_fibers (sw_sched (io_sw io)))"
  shows "\<exists>io'. ofold (\<lambda>e. io_iteration ctl tid c (SEnd e) now1 now2 answers) es io = Inr io' \<and>
    worker_with P tid c mn (io_sw io') \<and> same_io io io' \<and>
    sw_sched (io_sw io') = (sw_sched (io_sw io))\<lparr>m_fibers := []\<rparr>"
  using assms
proof (induction es arbitrary: io)
  case Nil
  then show ?case by simp
next
  case (Cons e es)
  then obtain it rest where q: "m_fibers (sw_sched (io_sw io)) = it # rest" "length es = length rest"
    by (metis length_Suc_conv list.simps(3) length_Cons)
  with Cons.prems drain_one [of P tid c mn "io_sw io" it rest e] obtain w1 where
    w1: "run_iteration tid c (SEnd e) (io_sw io) = Inr w1" "worker_with P tid c mn w1"
      "sw_sched w1 = (sw_sched (io_sw io))\<lparr>m_fibers := rest\<rparr>" by auto
  obtain l where l: "sw_run (io_sw io) tid = Some l" "l_pc l = LTop"
    using Cons.prems(1) by (auto simp: worker_with_def)
  have cb: "callbacks_for tid (it # rest)" using Cons.prems(2) q by simp
  then have full: "ft_full it" by (simp add: callbacks_for_def ft_full_def)
  have "pick (fw_objs (sw_fw (io_sw io))) tid (m_fibers (sw_sched (io_sw io))) = Inr (Some it, False, rest)"
    using cb q(1) by (auto simp: callbacks_for_def)
  from io_iteration_of_task [OF l this full w1(1)] obtain io1 where
    io1: "io_iteration ctl tid c (SEnd e) now1 now2 answers io = Inr io1" "io_sw io1 = w1" "same_io io io1"
    by blast
  have "callbacks_for tid rest" using cb by (simp add: callbacks_for_def)
  with Cons.IH [of io1] w1 q(2) io1 show ?case by (auto intro: same_io_trans)
qed

section \<open>A turn of the idle fiber\<close>

text \<open>An idle fiber that can be switched into: new, or left at its \<open>swapOut\<close>.\<close>

definition parked :: "'cb fn hps_Fiber \<Rightarrow> bool" where
  "parked fi \<longleftrightarrow> f_state fi \<noteq> EXEC \<and> f_state fi \<noteq> TERM' \<and> resumable (f_ctx fi)"

lemma parked_settled: "parked (settle (slice_result SOut f))"
  by (simp add: parked_def settle_def slice_result_def)

lemma idle_in:
  assumes ai: "at_idle tid t l w l2 w2" and i: "l_idle_fiber l = i"
    and sw: "can_switch tid mn mf i f (sw_fw w)" and nt: "f_state f \<noteq> TERM'"
  obtains w3 l3 where "step_thread tid c sl w2 = Inr w3" and "sw_run w3 = (sw_run w)(tid \<mapsto> l3)"
    and "l_pc l3 = LIn BIdle" and "l_idle_fiber l3 = i" and "l_cb_fiber l3 = l_cb_fiber l"
    and "sw_sched w3 = (sw_sched w)\<lparr>m_idleThreadCount := m_idleThreadCount (sw_sched w) + 1\<rparr>"
    and "run_slice SOut tid i (sw_fw w3) = Inr (slice_world tid mn mf i f SOut (sw_fw w))"
proof -
  note ai = ai [unfolded at_idle_def]
  obtain fw3 where sin: "swapIn tid i (sw_fw w) = Inr fw3"
    and sl: "run_slice SOut tid i fw3 = Inr (slice_world tid mn mf i f SOut (sw_fw w))"
    by (rule switch_and_slice [OF sw])
  have obj: "fw_objs (sw_fw w) i = Some f" using sw by (simp add: can_switch_def)
  let ?w2 = "upd_sched (\<lambda>s. s\<lparr>m_idleThreadCount := m_idleThreadCount s + 1\<rparr>) w2"
  let ?l3 = "l2\<lparr>l_pc := LIn BIdle\<rparr>"
  let ?w3 = "set_run tid ?l3 (?w2\<lparr>sw_fw := fw3\<rparr>)"
  have "step_thread tid c sl w2 = Inr ?w3"
    using obj sin ai i nt
    by (simp add: step_thread_def run_step_def run_branch_def run_idle_branch_def fiber_state_def Let_def)
  with ai i sl show ?thesis by (intro that [of ?w3 ?l3]) simp_all
qed

lemma idle_out:
  assumes l: "sw_run v tid = Some l" "l_idle_fiber l = i"
    and sl: "run_slice SOut tid i (sw_fw v) = Inr (slice_world tid mn mf i f SOut fw)" and mn: "mn \<noteq> i"
  obtains v4 l4 v5 l5 v6 l6 where "run_in tid SOut BIdle l v = Inr v4"
    and "sw_run v4 tid = Some l4" and "l_pc l4 = LBack BIdle"
    and "step_thread tid c s v4 = Inr v5" and "sw_run v5 tid = Some l5" and "l_pc l5 = LAfter BIdle"
    and "step_thread tid c s v5 = Inr v6" and "sw_run v6 = (sw_run v)(tid \<mapsto> l6)" and "l_pc l6 = LTop"
    and "l_idle_fiber l6 = i" and "l_cb_fiber l6 = l_cb_fiber l"
    and "sw_sched v6 = (sw_sched v)\<lparr>m_idleThreadCount := m_idleThreadCount (sw_sched v) - 1\<rparr>"
    and "fw_objs (sw_fw v6) = (fw_objs fw)(i \<mapsto> settle (slice_result SOut f), mn \<mapsto> mf\<lparr>f_ctx := Running\<rparr>)"
    and "GetMainFiber tid (sw_fw v6) = GetMainFiber tid fw"
proof -
  let ?fw = "slice_world tid mn mf i f SOut fw"
  let ?v4 = "set_run tid (l\<lparr>l_pc := LBack BIdle\<rparr>) (v\<lparr>sw_fw := ?fw\<rparr>)"
  let ?v5 = "set_run tid (l\<lparr>l_pc := LAfter BIdle\<rparr>)
     (upd_sched (\<lambda>s. s\<lparr>m_idleThreadCount := m_idleThreadCount s - 1\<rparr>) ?v4)"
  let ?v6 = "set_run tid (l\<lparr>l_pc := LTop\<rparr>) (set_state i HOLD ?v5)"
  have st: "f_state (slice_result SOut f) = EXEC" by (simp add: slice_result_state)
  have 1: "run_in tid SOut BIdle l v = Inr ?v4"
    using l(2) sl by (simp add: run_in_def l_current_def)
  have 2: "step_thread tid c s ?v4 = Inr ?v5"
    by (simp add: step_thread_def run_step_def run_back_def)
  have 3: "step_thread tid c s ?v5 = Inr ?v6"
    using l(2) mn st by (simp add: step_thread_def run_step_def run_after_idle_def fiber_state_def)
  show ?thesis
    by (rule that [of ?v4 "l\<lparr>l_pc := LBack BIdle\<rparr>" ?v5 "l\<lparr>l_pc := LAfter BIdle\<rparr>" ?v6
        "l\<lparr>l_pc := LTop\<rparr>", OF 1 _ _ 2 _ _ 3])
      (use l mn st in \<open>simp_all add: settled_world\<close>)
qed

lemma tickle_event: "fst e = EvTickle \<Longrightarrow> idle_event ctl e io = Inr (io\<lparr>io_pipe := 0\<rparr>)"
  by (simp add: idle_event_def)

lemma tickle_events:
  "list_all (\<lambda>e. fst e = EvTickle) evs \<Longrightarrow> \<exists>p. ofold (idle_event ctl) evs io = Inr (io\<lparr>io_pipe := p\<rparr>)"
proof (induction evs arbitrary: io)
  case Nil
  show ?case by (simp, intro exI [of _ "io_pipe io"]) simp
next
  case (Cons e evs)
  then show ?case using Cons.IH [of "io\<lparr>io_pipe := 0\<rparr>"] by (auto simp: tickle_event)
qed

text \<open>The callbacks of a poll, as entries of the queue.\<close>

definition poll_entry :: "'cb fn option \<Rightarrow> 'cb hps_FiberAndThread" where
  "poll_entry cb = \<lparr>ft_fiber = None, ft_cb = cb, ft_thread = -1\<rparr>"

lemma idle_round_timers:
  assumes exp: "listExpiredCb now [] (io_tm io) = Inr (cbs, tm)" and full: "list_all (\<lambda>cb. cb \<noteq> None) cbs"
    and evs: "list_all (\<lambda>e. fst e = EvTickle) evs"
  shows "\<exists>io'. idle_round ctl now evs io = Inr io' \<and> io_tm io' = tm \<and>
    io_sw io' = upd_sched (\<lambda>s. s\<lparr>m_fibers := m_fibers s @ map poll_entry cbs\<rparr>) (io_sw io) \<and>
    io_fdContexts io' = io_fdContexts io \<and> io_pendingEventCount io' = io_pendingEventCount io \<and>
    io_kernel io' = io_kernel io"
proof -
  let ?io1 = "io\<lparr>io_tm := tm\<rparr>"
  define io2 where "io2 = (if cbs \<noteq> [] then io_schedule_range (map FcCb cbs) ?io1 else ?io1)"
  have "filter ft_full (map (\<lambda>fc. FiberAndThread_new fc (-1)) (map FcCb cbs)) = map poll_entry cbs"
    using full by (induction cbs) (auto simp: ft_full_def poll_entry_def fc_empty_def)
  then have 2: "io_sw io2 = upd_sched (\<lambda>s. s\<lparr>m_fibers := m_fibers s @ map poll_entry cbs\<rparr>) (io_sw io)"
    "io_tm io2 = tm" "io_fdContexts io2 = io_fdContexts io"
    "io_pendingEventCount io2 = io_pendingEventCount io" "io_kernel io2 = io_kernel io"
    by (auto simp: io2_def io_schedule_range_def schedule_loop_result set_sched_def IOManager_tickle_def
        upd_sched_def Let_def)
  obtain p where "ofold (idle_event ctl) evs io2 = Inr (io2\<lparr>io_pipe := p\<rparr>)"
    using tickle_events [OF evs] by blast
  then have "idle_round ctl now evs io = Inr (io2\<lparr>io_pipe := p\<rparr>)"
    by (simp add: idle_round_def exp io2_def Let_def)
  with 2 show ?thesis by simp
qed

lemma idle_turn:
  assumes run: "\<not> stopping (sw_sched (io_sw io))" and wait: "epoll_wait_loop answers 0 = Some evs"
    and evs: "list_all (\<lambda>e. fst e = EvTickle) evs" and full: "list_all (\<lambda>cb. cb \<noteq> None) cbs"
    and exp: "listExpiredCb now2 [] (snd (getNextTimer now1 (io_tm io))) = Inr (cbs, tm)"
  obtains io' where "IOManager_idle ctl now1 now2 answers io = Inr (Some SOut, io')"
    and "io_tm io' = tm"
    and "io_sw io' = upd_sched (\<lambda>s. s\<lparr>m_fibers := m_fibers s @ map poll_entry cbs\<rparr>) (io_sw io)"
    and "io_fdContexts io' = io_fdContexts io" and "io_pendingEventCount io' = io_pendingEventCount io"
    and "io_kernel io' = io_kernel io"
proof -
  let ?io1 = "io\<lparr>io_tm := snd (getNextTimer now1 (io_tm io))\<rparr>"
  have head: "idle_head now1 io = (Some 0, ?io1)"
    using run by (auto simp: idle_head_def IOManager_stopping_def split: prod.split)
  obtain io' where r: "idle_round ctl now2 evs ?io1 = Inr io'" "io_tm io' = tm"
    "io_sw io' = upd_sched (\<lambda>s. s\<lparr>m_fibers := m_fibers s @ map poll_entry cbs\<rparr>) (io_sw io)"
    "io_fdContexts io' = io_fdContexts io" "io_pendingEventCount io' = io_pendingEventCount io"
    "io_kernel io' = io_kernel io"
    using idle_round_timers [of now2 ?io1 cbs tm evs ctl] exp full evs by auto
  show ?thesis
    by (rule that [OF _ r(2-6)]) (simp add: IOManager_idle_def head wait r(1))
qed

text \<open>An iteration of a worker that finds its queue empty: up to the switch into the idle fiber.\<close>

lemma idle_first_half:
  assumes wk: "worker_with parked tid c mn (io_sw io)" and w: "w = io_sw io"
    and q: "m_fibers (sw_sched w) = []"
  obtains l i f mf l3 io1 io2 io3 where "sw_run w tid = Some l" and "i \<noteq> mn" and "i \<noteq> c" and "c \<noteq> mn"
    and "GetMainFiber tid (sw_fw w) = Some mn"
    and "case l_cb_fiber l of None \<Rightarrow> True
         | Some a \<Rightarrow> a = c \<and> (\<exists>f. fw_objs (sw_fw w) c = Some f \<and> f_stack f \<and> f_state f = INIT)"
    and "io_step_thread ctl tid c sl now1 now2 answers io = Inr io1"
    and "io_step_thread ctl tid c sl now1 now2 answers io1 = Inr io2"
    and "io_step_thread ctl tid c sl now1 now2 answers io2 = Inr io3" and "same_io io io3"
    and "sw_run (io_sw io3) = (sw_run w)(tid \<mapsto> l3)" and "l_pc l3 = LIn BIdle" and "l_idle_fiber l3 = i"
    and "l_cb_fiber l3 = l_cb_fiber l" and "l_idle_fiber l = i"
    and "sw_sched (io_sw io3) = (sw_sched w)\<lparr>m_idleThreadCount := m_idleThreadCount (sw_sched w) + 1\<rparr>"
    and "run_slice SOut tid i (sw_fw (io_sw io3)) = Inr (slice_world tid mn mf i f SOut (sw_fw w))"
proof -
  let ?io = "io_step_thread ctl tid c sl now1 now2 answers"
  obtain l i f mf where l: "sw_run w tid = Some l" "l_pc l = LTop" "l_idle_fiber l = i" "i \<noteq> mn" "i \<noteq> c" "c \<noteq> mn"
    and mn: "GetMainFiber tid (sw_fw w) = Some mn" "fw_objs (sw_fw w) mn = Some mf"
    and f: "fw_objs (sw_fw w) i = Some f" "parked f"
    and cf: "case l_cb_fiber l of None \<Rightarrow> True
         | Some a \<Rightarrow> a = c \<and> (\<exists>f. fw_objs (sw_fw w) c = Some f \<and> f_stack f \<and> f_state f = INIT)"
    using wk unfolding w [symmetric] by (auto simp: worker_with_def)
  have qs: "queue_ok (fw_objs (sw_fw w)) (m_fibers (sw_sched w))" "ahead (fw_objs (sw_fw w)) tid (m_fibers (sw_sched w)) = []"
    using q by (simp_all add: queue_ok_def ahead_def)
  obtain w1 l1 l2 w2 where 1: "step_thread tid c sl w = Inr w1" "sw_run w1 tid = Some l1" "l_pc l1 = LTickle"
    and 2: "step_thread tid c sl w1 = Inr w2" and ai: "at_idle tid False l w l2 w2"
    by (rule two_steps_idle [OF l(1,2) qs, of c sl]) (use q in simp)
  have l2: "sw_run w2 tid = Some l2" "l_pc l2 = LBranch" using ai by (simp_all add: at_idle_def)
  have sw: "can_switch tid mn mf i f (sw_fw w)" using l mn f by (auto simp: can_switch_def parked_def)
  have nt: "f_state f \<noteq> TERM'" using f(2) by (simp add: parked_def)
  obtain w3 l3 where 3: "step_thread tid c sl w2 = Inr w3" "sw_run w3 = (sw_run w)(tid \<mapsto> l3)" "l_pc l3 = LIn BIdle"
      "l_idle_fiber l3 = i" "l_cb_fiber l3 = l_cb_fiber l"
      "sw_sched w3 = (sw_sched w)\<lparr>m_idleThreadCount := m_idleThreadCount (sw_sched w) + 1\<rparr>"
    and sl: "run_slice SOut tid i (sw_fw w3) = Inr (slice_world tid mn mf i f SOut (sw_fw w))"
    by (rule idle_in [OF ai l(3) sw nt])
  obtain io1 where s1: "?io io = Inr io1" "io_sw io1 = w1" "same_io io io1"
    using io_step_ok [OF same_io_refl, of io tid l c sl w1 ctl now1 now2 answers] l(1,2) 1(1) by (auto simp: w)
  obtain io2 where s2: "?io io1 = Inr io2" "io_sw io2 = w2" "same_io io io2"
    using io_step_ok [OF s1(3), of tid l1 c sl w2 ctl now1 now2 answers] 1 2 s1(2) by auto
  obtain io3 where s3: "?io io2 = Inr io3" "io_sw io3 = w3" "same_io io io3"
    using io_step_ok [OF s2(3), of tid l2 c sl w3 ctl now1 now2 answers] l2 3(1) s2(2) by auto
  show ?thesis
    by (rule that [OF l(1,4,5,6) mn(1) cf s1(1) s2(1) s3(1) s3(3), of l3 mf f]) (use 3 sl s3(2) l(3) in simp_all)
qed

text \<open>The turn of the idle fiber, and the way back to the loop top.\<close>

lemma idle_second_half:
  assumes l: "sw_run (io_sw io3) tid = Some l" "l_pc l = LIn BIdle" "l_idle_fiber l = i"
    and idle: "IOManager_idle ctl now1 now2 answers io3 = Inr (Some SOut, io4)"
    and w4: "io_sw io4 = upd_sched g (io_sw io3)"
    and sl: "run_slice SOut tid i (sw_fw (io_sw io3)) = Inr (slice_world tid mn mf i f SOut fw)" and mn: "mn \<noteq> i"
  obtains io5 l5 io6 l6 io7 l7 where "io_step_thread ctl tid c sl now1 now2 answers io3 = Inr io5"
    and "io_step_thread ctl tid c sl now1 now2 answers io5 = Inr io6"
    and "io_step_thread ctl tid c sl now1 now2 answers io6 = Inr io7" and "same_io io4 io7"
    and "sw_run (io_sw io7) = (sw_run (io_sw io3))(tid \<mapsto> l7)" and "l_pc l7 = LTop"
    and "l_idle_fiber l7 = i" and "l_cb_fiber l7 = l_cb_fiber l"
    and "sw_sched (io_sw io7) = (sw_sched (io_sw io4))\<lparr>m_idleThreadCount := m_idleThreadCount (sw_sched (io_sw io4)) - 1\<rparr>"
    and "fw_objs (sw_fw (io_sw io7)) = (fw_objs fw)(i \<mapsto> settle (slice_result SOut f), mn \<mapsto> mf\<lparr>f_ctx := Running\<rparr>)"
    and "GetMainFiber tid (sw_fw (io_sw io7)) = GetMainFiber tid fw"
proof -
  let ?io = "io_step_thread ctl tid c sl now1 now2 answers"
  have r: "sw_run (io_sw io4) tid = Some l" "sw_run (io_sw io4) = sw_run (io_sw io3)"
    "run_slice SOut tid i (sw_fw (io_sw io4)) = Inr (slice_world tid mn mf i f SOut fw)"
    using w4 l(1) sl by simp_all
  from idle_out [OF r(1) l(3) r(3) mn, of c sl] obtain v4 l4 v5 l5 v6 l6 where
    o4: "run_in tid SOut BIdle l (io_sw io4) = Inr v4" "sw_run v4 tid = Some l4" "l_pc l4 = LBack BIdle"
    and o5: "step_thread tid c sl v4 = Inr v5" "sw_run v5 tid = Some l5" "l_pc l5 = LAfter BIdle"
    and o6: "step_thread tid c sl v5 = Inr v6" "sw_run v6 = (sw_run (io_sw io4))(tid \<mapsto> l6)" "l_pc l6 = LTop"
      "l_idle_fiber l6 = i" "l_cb_fiber l6 = l_cb_fiber l"
      "sw_sched v6 = (sw_sched (io_sw io4))\<lparr>m_idleThreadCount := m_idleThreadCount (sw_sched (io_sw io4)) - 1\<rparr>"
      "fw_objs (sw_fw v6) = (fw_objs fw)(i \<mapsto> settle (slice_result SOut f), mn \<mapsto> mf\<lparr>f_ctx := Running\<rparr>)"
      "GetMainFiber tid (sw_fw v6) = GetMainFiber tid fw" by metis
  obtain io5 where s4: "on_sched (run_in tid SOut BIdle l) io4 = Inr io5" "io_sw io5 = v4" "same_io io4 io5"
    using on_sched_ok [of "run_in tid SOut BIdle l" io4 v4] o4(1) by blast
  then have s4': "?io io3 = Inr io5" using l(1,2) idle by (simp add: io_step_thread_def)
  obtain io6 where s5: "?io io5 = Inr io6" "io_sw io6 = v5" "same_io io4 io6"
    using io_step_ok [OF s4(3), of tid l4 c sl v5 ctl now1 now2 answers] o4(2,3) o5(1) s4(2) by auto
  obtain io7 where s6: "?io io6 = Inr io7" "io_sw io7 = v6" "same_io io4 io7"
    using io_step_ok [OF s5(3), of tid l5 c sl v6 ctl now1 now2 answers] o5(2,3) o6(1) s5(2) by auto
  show ?thesis by (rule that [OF s4' s5(1) s6(1) s6(3), of l6]) (use o6 s6(2) r(2) in simp_all)
qed

text \<open>
  The whole iteration, for any turn of the idle fiber that changes the scheduler part only by
  entries \<open>xs\<close> at the end of the queue; \<open>P\<close> is what else the turn achieves.
\<close>

lemma idle_iteration_with:
  assumes wk: "worker_with parked tid c mn (io_sw io)" and q: "m_fibers (sw_sched (io_sw io)) = []"
    and turn: "\<And>j. same_io io j \<Longrightarrow>
      sw_sched (io_sw j) = (sw_sched (io_sw io))\<lparr>m_idleThreadCount := m_idleThreadCount (sw_sched (io_sw io)) + 1\<rparr> \<Longrightarrow>
      \<exists>j'. IOManager_idle ctl now1 now2 answers j = Inr (Some SOut, j') \<and>
        io_sw j' = upd_sched (\<lambda>s. s\<lparr>m_fibers := m_fibers s @ xs\<rparr>) (io_sw j) \<and> P j'"
  shows "\<exists>io' j. io_iteration ctl tid c sl now1 now2 answers io = Inr io' \<and>
    worker_with parked tid c mn (io_sw io') \<and>
    sw_sched (io_sw io') = (sw_sched (io_sw io))\<lparr>m_fibers := xs\<rparr> \<and> P j \<and> same_io j io' \<and>
    map_option l_idle_fiber (sw_run (io_sw io') tid) = map_option l_idle_fiber (sw_run (io_sw io) tid) \<and>
    (\<forall>x. x \<noteq> mn \<and> map_option l_idle_fiber (sw_run (io_sw io) tid) \<noteq> Some x \<longrightarrow>
       fw_objs (sw_fw (io_sw io')) x = fw_objs (sw_fw (io_sw io)) x)"
proof -
  let ?io = "io_step_thread ctl tid c sl now1 now2 answers"
  obtain w where w: "w = io_sw io" by simp
  obtain l i f mf l3 io1 io2 io3 where l: "sw_run w tid = Some l" "i \<noteq> mn" "i \<noteq> c" "c \<noteq> mn"
      "GetMainFiber tid (sw_fw w) = Some mn"
      "case l_cb_fiber l of None \<Rightarrow> True
         | Some a \<Rightarrow> a = c \<and> (\<exists>f. fw_objs (sw_fw w) c = Some f \<and> f_stack f \<and> f_state f = INIT)"
    and s: "?io io = Inr io1" "?io io1 = Inr io2" "?io io2 = Inr io3" and same: "same_io io io3"
    and l3: "sw_run (io_sw io3) = (sw_run w)(tid \<mapsto> l3)" "l_pc l3 = LIn BIdle" "l_idle_fiber l3 = i"
      "l_cb_fiber l3 = l_cb_fiber l" "l_idle_fiber l = i"
    and w3: "sw_sched (io_sw io3) = (sw_sched w)\<lparr>m_idleThreadCount := m_idleThreadCount (sw_sched w) + 1\<rparr>"
    and sl: "run_slice SOut tid i (sw_fw (io_sw io3)) = Inr (slice_world tid mn mf i f SOut (sw_fw w))"
    by (rule idle_first_half [OF wk w, of ctl sl now1 now2 answers]) (use q w in simp)
  obtain io4 where 4: "IOManager_idle ctl now1 now2 answers io3 = Inr (Some SOut, io4)"
    "io_sw io4 = upd_sched (\<lambda>s. s\<lparr>m_fibers := m_fibers s @ xs\<rparr>) (io_sw io3)" "P io4"
    using turn [OF same] w3 w by auto
  have r3: "sw_run (io_sw io3) tid = Some l3" using l3(1) by simp
  obtain io5 l5 io6 l6 io7 l7 where s': "?io io3 = Inr io5" "?io io5 = Inr io6" "?io io6 = Inr io7"
    and same': "same_io io4 io7" and l7: "sw_run (io_sw io7) = (sw_run (io_sw io3))(tid \<mapsto> l7)" "l_pc l7 = LTop"
      "l_idle_fiber l7 = i" "l_cb_fiber l7 = l_cb_fiber l3"
    and w7: "sw_sched (io_sw io7) = (sw_sched (io_sw io4))\<lparr>m_idleThreadCount := m_idleThreadCount (sw_sched (io_sw io4)) - 1\<rparr>"
      "fw_objs (sw_fw (io_sw io7)) = (fw_objs (sw_fw w))(i \<mapsto> settle (slice_result SOut f), mn \<mapsto> mf\<lparr>f_ctx := Running\<rparr>)"
      "GetMainFiber tid (sw_fw (io_sw io7)) = GetMainFiber tid (sw_fw w)"
    by (rule idle_second_half [OF r3 l3(2,3) 4(1,2) sl l(2) [symmetric], of c sl])
  have "io_iteration ctl tid c sl now1 now2 answers io = Inr io7"
    using s s' r3 l3(2) by (simp add: io_iteration_def)
  moreover have "sw_sched (io_sw io7) = (sw_sched (io_sw io))\<lparr>m_fibers := xs\<rparr>"
    using w7(1) 4(2) w3 q w by simp
  moreover have "worker_with parked tid c mn (io_sw io7)"
    using l7 w7(2,3) l l3 by (auto simp: worker_with_def parked_settled split: option.splits)
  moreover have "map_option l_idle_fiber (sw_run (io_sw io7) tid) = map_option l_idle_fiber (sw_run (io_sw io) tid)"
    "\<forall>x. x \<noteq> mn \<and> map_option l_idle_fiber (sw_run (io_sw io) tid) \<noteq> Some x \<longrightarrow>
       fw_objs (sw_fw (io_sw io7)) x = fw_objs (sw_fw (io_sw io)) x"
    using l7 w7(2) l(1) l3(5) w by simp_all
  ultimately show ?thesis using same' 4(3) by blast
qed

lemma idle_iteration:
  assumes wk: "worker_with parked tid c mn (io_sw io)" and q: "m_fibers (sw_sched (io_sw io)) = []"
    and run: "\<not> stopping (sw_sched (io_sw io))" and wait: "epoll_wait_loop answers 0 = Some evs"
    and evs: "list_all (\<lambda>e. fst e = EvTickle) evs" and full: "list_all (\<lambda>cb. cb \<noteq> None) cbs"
    and exp: "listExpiredCb now2 [] (snd (getNextTimer now1 (io_tm io))) = Inr (cbs, tm)"
  shows "\<exists>io'. io_iteration ctl tid c sl now1 now2 answers io = Inr io' \<and>
    worker_with parked tid c mn (io_sw io') \<and>
    sw_sched (io_sw io') = (sw_sched (io_sw io))\<lparr>m_fibers := map poll_entry cbs\<rparr> \<and>
    io_tm io' = tm \<and> io_fdContexts io' = io_fdContexts io \<and>
    io_pendingEventCount io' = io_pendingEventCount io \<and> io_kernel io' = io_kernel io \<and>
    map_option l_idle_fiber (sw_run (io_sw io') tid) = map_option l_idle_fiber (sw_run (io_sw io) tid) \<and>
    (\<forall>x. x \<noteq> mn \<and> map_option l_idle_fiber (sw_run (io_sw io) tid) \<noteq> Some x \<longrightarrow>
       fw_objs (sw_fw (io_sw io')) x = fw_objs (sw_fw (io_sw io)) x)"
proof -
  let ?P = "\<lambda>j'. io_tm j' = tm \<and> io_fdContexts j' = io_fdContexts io \<and>
    io_pendingEventCount j' = io_pendingEventCount io \<and> io_kernel j' = io_kernel io"
  have "\<exists>j'. IOManager_idle ctl now1 now2 answers j = Inr (Some SOut, j') \<and>
      io_sw j' = upd_sched (\<lambda>s. s\<lparr>m_fibers := m_fibers s @ map poll_entry cbs\<rparr>) (io_sw j) \<and> ?P j'"
    if same: "same_io io j"
      and s: "sw_sched (io_sw j) = (sw_sched (io_sw io))\<lparr>m_idleThreadCount := m_idleThreadCount (sw_sched (io_sw io)) + 1\<rparr>"
    for j
  proof -
    have "\<not> stopping (sw_sched (io_sw j))" using run s by (simp add: stopping_def)
    from idle_turn [OF this wait evs full, of now2 now1 tm ctl] exp same show ?thesis
      by (auto simp: same_io_def)
  qed
  from idle_iteration_with [OF wk q, where P = ?P, OF this, of sl] show ?thesis
    by (auto simp: same_io_def)
qed

section \<open>Properties\<close>

lemma getNextTimer_same:
  "tm_inv (snd (getNextTimer now m)) = tm_inv m" "cb_of (snd (getNextTimer now m)) = cb_of m"
  "recurs (snd (getNextTimer now m)) = recurs m" "interval (snd (getNextTimer now m)) = interval m"
  "deadlines (snd (getNextTimer now m)) = deadlines m"
  using tm_inv_cong [OF getNextTimer_state]
  by (simp_all add: cb_of_def recurs_def interval_def deadlines_def getNextTimer_state fun_eq_iff)

definition due_timers :: "u64 \<Rightarrow> 'cb hps_TimerManager \<Rightarrow> nat list" where
  "due_timers now m = filter (\<lambda>a. next_of (tm_objs m) a = now) (tm_timers m)"

lemma due_callbacks:
  assumes "tm_inv m" and "list_all (\<lambda>a. now \<le> next_of (tm_objs m) a) (tm_timers m)"
    and "listExpiredCb now [] (snd (getNextTimer t m)) = Inr (cbs, m')"
  shows "cbs = map (cb_of m) (due_timers now m)" and "tm_inv m'" and "list_all (\<lambda>cb. cb \<noteq> None) cbs"
    and "deadlines m' = (\<lambda>a. if deadlines m a = Some now
      then (if recurs m a then Some (now + interval m a) else None) else deadlines m a)"
proof -
  let ?m = "snd (getNextTimer t m)"
  have inv: "tm_inv ?m" using assms(1) by (simp add: getNextTimer_same)
  have none: "\<forall>a \<in> set (tm_timers ?m). now \<le> next_of (tm_objs ?m) a"
    using assms(2) by (simp add: getNextTimer_state list_all_iff)
  note res = listExpiredCb_cases [OF inv assms(3)] due_prefix [OF inv none]
  show cbs: "cbs = map (cb_of m) (due_timers now m)" and "tm_inv m'"
    using res(1,2,5) by (simp_all add: getNextTimer_same getNextTimer_state due_timers_def)
  show "list_all (\<lambda>cb. cb \<noteq> None) cbs"
    using tm_invD(4) [OF assms(1)] by (auto simp: cbs list_all_iff due_timers_def armed_cb_of)
  show "deadlines m' = (\<lambda>a. if deadlines m a = Some now
      then (if recurs m a then Some (now + interval m a) else None) else deadlines m a)"
    using res(4,5) by (auto simp: getNextTimer_same getNextTimer_state deadlines_def fun_eq_iff)
qed

text \<open>
  The three parts together. A worker of an IO manager, with nothing in the queue, turns to its
  idle fiber; \<open>epoll_wait\<close> returns, after any number of interruptions, with at most tickles. If
  no timer is overdue at the clock reading that follows, the queue then holds the callbacks of
  exactly the timers that are due, in set order and unpinned, with the recurring ones armed
  again and the others removed; the next iterations run one callback each, in that order,
  however they end, and leave the queue empty, the timers and the contexts as they are, and
  the worker ready for its next turn.
\<close>

theorem due_timers_run_on_idle_worker:
  assumes "worker_with parked tid c mn (io_sw io)" and "m_fibers (sw_sched (io_sw io)) = []"
    and "\<not> stopping (sw_sched (io_sw io))" and "epoll_wait_loop answers 0 = Some evs"
    and "list_all (\<lambda>e. fst e = EvTickle) evs" and "tm_inv (io_tm io)"
    and "list_all (\<lambda>a. now2 \<le> next_of (tm_objs (io_tm io)) a) (tm_timers (io_tm io))"
    and "is_ok (listExpiredCb now2 [] (snd (getNextTimer now1 (io_tm io))))"
    and "length es = length (due_timers now2 (io_tm io))"
  shows "\<exists>io1 io2. io_iteration ctl tid c sl now1 now2 answers io = Inr io1 \<and>
    m_fibers (sw_sched (io_sw io1)) = map (\<lambda>a. poll_entry (cb_of (io_tm io) a)) (due_timers now2 (io_tm io)) \<and>
    ofold (\<lambda>e. io_iteration ctl tid c (SEnd e) t1 t2 []) es io1 = Inr io2 \<and>
    sw_sched (io_sw io2) = sw_sched (io_sw io) \<and> worker_with parked tid c mn (io_sw io2) \<and>
    io_fdContexts io2 = io_fdContexts io \<and> tm_inv (io_tm io2) \<and>
    deadlines (io_tm io2) = (\<lambda>a. if deadlines (io_tm io) a = Some now2
      then (if recurs (io_tm io) a then Some (now2 + interval (io_tm io) a) else None)
      else deadlines (io_tm io) a)"
proof -
  obtain cbs tm where exp: "listExpiredCb now2 [] (snd (getNextTimer now1 (io_tm io))) = Inr (cbs, tm)"
    using assms(8) by (auto simp: is_ok_iff)
  note due = due_callbacks [OF assms(6,7) exp]
  from idle_iteration [OF assms(1-5) due(3) exp, of ctl sl] obtain io1 where
    1: "io_iteration ctl tid c sl now1 now2 answers io = Inr io1" "worker_with parked tid c mn (io_sw io1)"
      "sw_sched (io_sw io1) = (sw_sched (io_sw io))\<lparr>m_fibers := map poll_entry cbs\<rparr>"
      "io_tm io1 = tm" "io_fdContexts io1 = io_fdContexts io" by blast
  have "callbacks_for tid (m_fibers (sw_sched (io_sw io1)))"
    using due(3) 1(3) by (auto simp: callbacks_for_def poll_entry_def list_all_iff)
  moreover have "length es = length (m_fibers (sw_sched (io_sw io1)))" using assms(9) 1(3) due(1) by simp
  ultimately obtain io2 where
    2: "ofold (\<lambda>e. io_iteration ctl tid c (SEnd e) t1 t2 []) es io1 = Inr io2" "worker_with parked tid c mn (io_sw io2)"
      "same_io io1 io2" "sw_sched (io_sw io2) = (sw_sched (io_sw io1))\<lparr>m_fibers := []\<rparr>"
    using io_drain [OF 1(2), of es ctl t1 t2 "[]"] by blast
  have "sw_sched (io_sw io2) = sw_sched (io_sw io)" using 2(4) 1(3) assms(2) by simp
  moreover have "m_fibers (sw_sched (io_sw io1)) = map (\<lambda>a. poll_entry (cb_of (io_tm io) a)) (due_timers now2 (io_tm io))"
    using 1(3) due(1) by (simp add: comp_def)
  moreover have "io_tm io2 = tm" "io_fdContexts io2 = io_fdContexts io"
    using 2(3) 1(4,5) by (simp_all add: same_io_def)
  ultimately show ?thesis using 1(1) 2(1,2) due(2,4) by (intro exI [of _ io1] exI [of _ io2]) simp
qed

text \<open>Worker 7 of the demonstration scheduler, with one timer due at 10 and a recurring one at 20.\<close>

definition idle_timers :: "nat fn hps_TimerManager" where
  "idle_timers =
     \<lparr>tm_objs = [1 \<mapsto> \<lparr>t_recurring = False, t_ms = 5, t_next = 10, t_cb = Some (FnUser 100)\<rparr>,
                2 \<mapsto> \<lparr>t_recurring = True, t_ms = 7, t_next = 20, t_cb = Some (FnUser 200)\<rparr>],
      tm_timers = [1, 2], tm_tickled = True, tm_previousTime = 0\<rparr>"

definition idle_io :: "(nat, int \<Rightarrow> u32 option) hps_IOManager" where
  "idle_io = demo_io\<lparr>io_sw := upd_sched (\<lambda>s. s\<lparr>m_autoStop := False\<rparr>) (demo_workers held_fiber []),
     io_tm := idle_timers\<rparr>"

theorem due_timers_run_on_idle_worker_witness:
  "\<exists>io1 io2. io_iteration demo_ctl 7 6 SHold 9 10 [Interrupted, Ready [(EvTickle, 1)]] idle_io = Inr io1 \<and>
    m_fibers (sw_sched (io_sw io1)) = [cb_entry 100 (-1)] \<and>
    ofold (\<lambda>e. io_iteration demo_ctl 7 6 (SEnd e) 0 0 []) [ThrewStd] io1 = Inr io2 \<and>
    m_fibers (sw_sched (io_sw io2)) = [] \<and> deadlines (io_tm io2) = [2 \<mapsto> 20]"
proof -
  have wk: "worker_with parked 7 6 1 (io_sw idle_io)" and q: "m_fibers (sw_sched (io_sw idle_io)) = []"
    and ns: "\<not> stopping (sw_sched (io_sw idle_io))" and tm: "io_tm idle_io = idle_timers"
    by (simp_all add: idle_io_def worker_with_def parked_def stopping_def idle_fiber_def top_local_def demo_sched_def
        Scheduler_fields_def)
  have inv: "tm_inv (io_tm idle_io)"
    by (auto simp: tm tm_inv_def idle_timers_def concordant_def armed_def next_of_def split: if_splits)
  have ok: "is_ok (listExpiredCb 10 [] (snd (getNextTimer 9 (io_tm idle_io))))"
    and later: "list_all (\<lambda>a. 10 \<le> next_of (tm_objs (io_tm idle_io)) a) (tm_timers (io_tm idle_io))"
    and due: "due_timers 10 (io_tm idle_io) = [1]"
    by (simp_all add: tm idle_timers_def getNextTimer_def listExpiredCb_def expire_one_def next_of_def Let_def
        is_ok_iff due_timers_def)
  have dl: "deadlines (io_tm idle_io) = [1 \<mapsto> 10, 2 \<mapsto> 20]" "recurs (io_tm idle_io) (Suc 0) = False"
    "cb_of (io_tm idle_io) (Suc 0) = Some (FnUser 100)"
    by (auto simp: tm idle_timers_def deadlines_def next_of_def recurs_def cb_of_def fun_eq_iff)
  show ?thesis
    using due_timers_run_on_idle_worker [OF wk q ns _ _ inv later ok, of "[Interrupted, Ready [(EvTickle, 1)]]"
        "[(EvTickle, 1)]" "[ThrewStd]" demo_ctl SHold 0 0]
    by (auto simp: due dl q poll_entry_def cb_entry_def fun_eq_iff split: if_splits)
qed

end
