(* ===== verification/Hps_Hook.thy ===== *)
theory Hps_Hook
  imports Hps_IOManagerProps
begin

text \<open>
  hps_sf/hook.h and hps_sf/hook.cpp: \<open>sleep\<close> and \<open>usleep\<close> replaced, on threads that enabled
  the hook, by a timer that schedules the calling fiber again.
\<close>

section \<open>Data\<close>

text \<open>
  The functions of a program: its own, and the lambda of the hooks, which schedules the
  captured fiber.
\<close>

datatype 'u app = WakeFiber nat | App 'u

text \<open>How a call ends: in the C library, with the argument it got, or after a yield.\<close>

datatype sleep_end = CalledLibc u32 | Yielded

record hook_state =
  is_inited :: bool
  sleep_f :: bool
  usleep_f :: bool

text \<open>\<open>hook_init\<close>: the flag is tested, and never set. \<open>found\<close>: what \<open>dlsym\<close> returned is not null.\<close>

definition hook_init :: "bool \<Rightarrow> hook_state \<Rightarrow> hook_state" where
  "hook_init found h = (if is_inited h then h else h\<lparr>sleep_f := found, usleep_f := found\<rparr>)"

definition is_hook_enable :: "int \<Rightarrow> 'cb sched_world \<Rightarrow> bool" where
  "is_hook_enable tid w = sw_hook w tid"

definition set_hook_enable :: "int \<Rightarrow> bool \<Rightarrow> 'cb sched_world \<Rightarrow> 'cb sched_world" where
  "set_hook_enable tid flag w = w\<lparr>sw_hook := (sw_hook w)(tid := flag)\<rparr>"

section \<open>The hooked functions\<close>

text \<open>
  \<open>IOManager::GetThis()\<close> is a dynamic cast of the thread's scheduler: null unless that
  scheduler is an IO manager (\<open>iom\<close>).
\<close>

definition IOManager_GetThis :: "bool \<Rightarrow> int \<Rightarrow> ('cb, 'k) hps_IOManager \<Rightarrow> unit option" where
  "IOManager_GetThis iom tid io = (if sw_t_scheduler (io_sw io) tid \<and> iom then Some () else None)"

definition set_fw :: "'cb fn fiber_world \<Rightarrow> ('cb, 'k) hps_IOManager \<Rightarrow> ('cb, 'k) hps_IOManager" where
  "set_fw fw io = io\<lparr>io_sw := (io_sw io)\<lparr>sw_fw := fw\<rparr>\<rparr>"

text \<open>
  The common body: the fiber, the manager, the timer of \<open>ms\<close> milliseconds at address \<open>ta\<close>, the
  yield. \<open>a\<close> is the address for a main fiber.
\<close>

definition hooked_wait ::
  "bool \<Rightarrow> int \<Rightarrow> nat \<Rightarrow> nat \<Rightarrow> u64 \<Rightarrow> u64 \<Rightarrow> ('u app, 'k) hps_IOManager \<Rightarrow>
     ('u app, 'k) hps_IOManager outcome" where
  "hooked_wait iom tid a ta now ms io =
     obind (GetThis tid a (sw_fw (io_sw io))) (\<lambda>(fiber, fw1).
     let io1 = set_fw fw1 io in
     obind (deref (IOManager_GetThis iom tid io1) ''iom'') (\<lambda>_.
     obind (addTimer ta now ms (Some (FnUser (WakeFiber fiber))) False (io_tm io1)) (\<lambda>(_, front, tm).
     let io2 = io1\<lparr>io_tm := tm\<rparr>;
         io3 = (if front then onTimerInsertedAtFront io2 else io2) in
     obind (YieldToHold tid a (sw_fw (io_sw io3))) (\<lambda>fw. Inr (set_fw fw io3)))))"

text \<open>\<open>seconds * 1000\<close> is an \<open>unsigned int\<close> product, converted to \<open>uint64_t\<close> afterwards.\<close>

definition hook_sleep ::
  "bool \<Rightarrow> int \<Rightarrow> nat \<Rightarrow> nat \<Rightarrow> u64 \<Rightarrow> u32 \<Rightarrow> ('u app, 'k) hps_IOManager \<Rightarrow>
     (sleep_end \<times> ('u app, 'k) hps_IOManager) outcome" where
  "hook_sleep iom tid a ta now seconds io =
     (if \<not> is_hook_enable tid (io_sw io) then Inr (CalledLibc seconds, io)
      else obind (hooked_wait iom tid a ta now (ucast (seconds * 1000)) io) (\<lambda>io'. Inr (Yielded, io')))"

definition hook_usleep ::
  "bool \<Rightarrow> int \<Rightarrow> nat \<Rightarrow> nat \<Rightarrow> u64 \<Rightarrow> u32 \<Rightarrow> ('u app, 'k) hps_IOManager \<Rightarrow>
     (sleep_end \<times> ('u app, 'k) hps_IOManager) outcome" where
  "hook_usleep iom tid a ta now usec io =
     (if \<not> is_hook_enable tid (io_sw io) then Inr (CalledLibc usec, io)
      else obind (hooked_wait iom tid a ta now (ucast (usec div 1000)) io) (\<lambda>io'. Inr (Yielded, io')))"

text \<open>The lambda: schedule the captured fiber.\<close>

definition run_wake :: "'u app \<Rightarrow> ('u app, 'k) hps_IOManager \<Rightarrow> ('u app, 'k) hps_IOManager" where
  "run_wake f io =
     (case f of WakeFiber p \<Rightarrow> io_schedule (FiberAndThread_new (FcFiber (Some p)) (-1)) io | App _ \<Rightarrow> io)"

section \<open>Properties\<close>

lemma YieldToHold_ok:
  assumes "t_fiber (fw_tls w tid) = Some p" and "fw_objs w p = Some f" and "f_state f = EXEC"
    and "GetMainFiber tid w = Some mn" and "mn \<noteq> p" and "fw_objs w mn = Some mf" and "resumable (f_ctx mf)"
  shows "\<exists>w'. YieldToHold tid a w = Inr w' \<and> fw_running w' tid = Some mn \<and>
    fw_objs w' p = Some (f\<lparr>f_state := HOLD, f_ctx := InCode\<rparr>)"
proof -
  have "run_slice SHold tid a w = run_slice SHold tid p w"
    using assms(1,2) by (simp add: run_slice_def YieldToHold_def YieldTo_def GetThis_def)
  with run_slice_ok [OF assms(4,5,6,2,7,1,3), of SHold] assms(5) show ?thesis
    by (simp add: run_slice_def slice_result_def)
qed

text \<open>
  On an IO manager's thread a hooked \<open>sleep\<close> of less than 4294968 seconds, called in a
  fiber, parks exactly that fiber: it is on HOLD, the scheduler's fiber runs, and a timer
  with the right deadline is armed whose callback, run at that time, puts the fiber at the
  end of the queue.
\<close>

theorem hooked_sleep_parks_fiber:
  assumes hook: "is_hook_enable tid (io_sw io)" and sched: "sw_t_scheduler (io_sw io) tid"
    and fib: "t_fiber (fw_tls (sw_fw (io_sw io)) tid) = Some p" "fw_objs (sw_fw (io_sw io)) p = Some f"
      "f_state f = EXEC"
    and main: "GetMainFiber tid (sw_fw (io_sw io)) = Some mn" "mn \<noteq> p"
      "fw_objs (sw_fw (io_sw io)) mn = Some mf" "resumable (f_ctx mf)"
    and timer: "addTimer ta now (word_of_nat (unat seconds * 1000)) (Some (FnUser (WakeFiber p))) False (io_tm io)
      = Inr (ta, front, tm)"
    and small: "unat seconds < 4294968"
  shows "\<exists>io'. hook_sleep True tid a ta now seconds io = Inr (Yielded, io') \<and>
    fw_objs (sw_fw (io_sw io')) p = Some (f\<lparr>f_state := HOLD, f_ctx := InCode\<rparr>) \<and>
    fw_running (sw_fw (io_sw io')) tid = Some mn \<and> io_tm io' = tm \<and>
    m_fibers (sw_sched (io_sw (run_wake (WakeFiber p) io'))) =
      m_fibers (sw_sched (io_sw io')) @ [\<lparr>ft_fiber = Some p, ft_cb = None, ft_thread = -1\<rparr>]"
proof -
  have prod: "unat (seconds * 1000) = unat seconds * 1000"
    using small by (subst unat_mult_lem [THEN iffD1]) simp_all
  have ms: "ucast (seconds * 1000) = (word_of_nat (unat seconds * 1000) :: u64)"
    unfolding prod [symmetric] by (rule of_nat_unat [symmetric])
  have cur: "GetThis tid a (sw_fw (io_sw io)) = Inr (p, sw_fw (io_sw io))"
    using fib by (simp add: GetThis_def)
  let ?io2 = "(set_fw (sw_fw (io_sw io)) io)\<lparr>io_tm := tm\<rparr>"
  define io3 where "io3 = (if front then onTimerInsertedAtFront ?io2 else ?io2)"
  have io3: "sw_fw (io_sw io3) = sw_fw (io_sw io)" "io_tm io3 = tm"
    by (simp_all add: io3_def onTimerInsertedAtFront_def IOManager_tickle_def set_fw_def)
  obtain fw where y: "YieldToHold tid a (sw_fw (io_sw io3)) = Inr fw" "fw_running fw tid = Some mn"
      "fw_objs fw p = Some (f\<lparr>f_state := HOLD, f_ctx := InCode\<rparr>)"
    using YieldToHold_ok [OF fib main, of a] unfolding io3 by blast
  have "hooked_wait True tid a ta now (ucast (seconds * 1000)) io = Inr (set_fw fw io3)"
    using cur sched timer y(1)
    by (cases front) (simp_all add: hooked_wait_def ms IOManager_GetThis_def set_fw_def Let_def io3_def)
  with hook have "hook_sleep True tid a ta now seconds io = Inr (Yielded, set_fw fw io3)"
    by (simp add: hook_sleep_def)
  moreover have "m_fibers (sw_sched (io_sw (run_wake (WakeFiber p) (set_fw fw io3)))) =
      m_fibers (sw_sched (io_sw (set_fw fw io3))) @ [\<lparr>ft_fiber = Some p, ft_cb = None, ft_thread = -1\<rparr>]"
    by (simp add: run_wake_def ft_full_def)
  ultimately show ?thesis using y io3 by (intro exI [of _ "set_fw fw io3"]) (simp add: set_fw_def)
qed

text \<open>A fiber on thread 7, whose scheduler's fiber stands at address 1.\<close>

definition sleeper :: "nat app fn hps_Fiber" where
  "sleeper = \<lparr>f_id = 1, f_stacksize = 4096, f_state = EXEC, f_ctx = Running, f_stack = True, f_cb = Some (FnUser (App 0))\<rparr>"

definition sched_fiber :: "nat app fn hps_Fiber" where
  "sched_fiber = \<lparr>f_id = 0, f_stacksize = 0, f_state = EXEC, f_ctx = InCode, f_stack = False, f_cb = None\<rparr>"

definition sleeping_world :: "(nat app, unit) hps_IOManager" where
  "sleeping_world =
     \<lparr>io_sw = \<lparr>sw_sched = Scheduler_fields ''io'',
        sw_fw = \<lparr>fw_objs = [1 \<mapsto> sched_fiber, 2 \<mapsto> sleeper], fw_fiber_id = 1, fw_fiber_count = 2,
           fw_tls = (\<lambda>_. \<lparr>t_fiber = Some 2, t_threadFiber = Some 1, t_scheduler_fiber = Some 1\<rparr>),
           fw_running = [7 \<mapsto> 2]\<rparr>,
        sw_t_scheduler = (\<lambda>t. t = 7), sw_hook = (\<lambda>t. t = 7), sw_tickles = 0, sw_stack_size = 4096,
        sw_run = Map.empty\<rparr>,
      io_tm = TimerManager_new 0, io_pendingEventCount = 0, io_fdContexts = [], io_pipe = 0, io_kernel = ()\<rparr>"

theorem hooked_sleep_parks_fiber_witness:
  "\<exists>io'. hook_sleep True 7 50 30 1000 2 sleeping_world = Inr (Yielded, io') \<and>
     map_option f_state (fw_objs (sw_fw (io_sw io')) 2) = Some HOLD \<and>
     map_option t_next (tm_objs (io_tm io') 30) = Some 3000"
proof -
  obtain front tm where t: "addTimer 30 1000 (word_of_nat (unat (2 :: u32) * 1000)) (Some (FnUser (WakeFiber 2))) False
      (io_tm sleeping_world) = Inr (30, front, tm)" "map_option t_next (tm_objs tm 30) = Some 3000"
    by (simp add: sleeping_world_def TimerManager_new_def addTimer_def addTimer_locked_def Timer_new_def
        std_insert_def set_contract_def strict_weak_order_def lower_bound_def timer_lt_def Let_def next_of_def)
  have "\<exists>io'. hook_sleep True 7 50 30 1000 2 sleeping_world = Inr (Yielded, io') \<and>
    fw_objs (sw_fw (io_sw io')) 2 = Some (sleeper\<lparr>f_state := HOLD, f_ctx := InCode\<rparr>) \<and>
    fw_running (sw_fw (io_sw io')) 7 = Some 1 \<and> io_tm io' = tm \<and>
    m_fibers (sw_sched (io_sw (run_wake (WakeFiber 2) io'))) =
      m_fibers (sw_sched (io_sw io')) @ [\<lparr>ft_fiber = Some 2, ft_cb = None, ft_thread = -1\<rparr>]"
    by (rule hooked_sleep_parks_fiber [where mf = sched_fiber, OF _ _ _ _ _ _ _ _ _ t(1)])
      (simp_all add: sleeping_world_def is_hook_enable_def GetMainFiber_def sleeper_def sched_fiber_def resumable_def)
  with t(2) show ?thesis by fastforce
qed

text \<open>
  Where it goes wrong: on a thread whose scheduler is not an IO manager (the plain
  scheduler enables the hook on its threads too), a hooked \<open>sleep\<close> in a fiber dereferences
  a null pointer; and on an IO manager a \<open>sleep\<close> of 4294968 seconds is armed for 704
  milliseconds.
\<close>

theorem hooked_sleep_failures:
  assumes "is_hook_enable tid (io_sw io)"
    and "t_fiber (fw_tls (sw_fw (io_sw io)) tid) = Some p" and "fw_objs (sw_fw (io_sw io)) p \<noteq> None"
  shows "hook_sleep False tid a ta now seconds io = Inl (NullDeref ''iom'') \<and>
    hook_usleep False tid a ta now seconds io = Inl (NullDeref ''iom'') \<and>
    hook_sleep True tid a ta now 4294968 io =
      obind (hooked_wait True tid a ta now 704 io) (\<lambda>io'. Inr (Yielded, io'))"
  using assms
  by (auto simp: hook_sleep_def hook_usleep_def hooked_wait_def GetThis_def IOManager_GetThis_def Let_def)

theorem hooked_sleep_failures_witness:
  "hook_sleep False 7 50 30 1000 1 sleeping_world = Inl (NullDeref ''iom'')"
  using hooked_sleep_failures [of 7 sleeping_world 2 50 30 1000 1]
  by (simp add: sleeping_world_def is_hook_enable_def)

end
