(* ===== verification/Hps_SleepWake.thy ===== *)
theory Hps_SleepWake
  imports Hps_IdleLoop Hps_Hook
begin

text \<open>
  The whole way of a sleeping fiber: the timer of the hooks becomes due, an idle worker queues
  its callback, the callback schedules the fiber, the worker switches into it.
\<close>

section \<open>A callback that acts on the IO manager\<close>

text \<open>
  An iteration in which the code that runs in the fiber acts on the IO manager, by \<open>body\<close>,
  before its slice ends.
\<close>

definition app_iteration ::
  "(('cb, 'k) hps_IOManager \<Rightarrow> ('cb, 'k) hps_IOManager) \<Rightarrow> 'k epoll_ctl \<Rightarrow> int \<Rightarrow> nat \<Rightarrow> slice \<Rightarrow> u64 \<Rightarrow> u64 \<Rightarrow>
     wait_answer list \<Rightarrow> ('cb, 'k) hps_IOManager \<Rightarrow> ('cb, 'k) hps_IOManager outcome" where
  "app_iteration body ctl tid c sl now1 now2 answers io =
     (let step = io_step_thread ctl tid c sl now1 now2 answers in
      obind (step io) (\<lambda>io1. obind (step io1) (\<lambda>io2. obind (step io2) (\<lambda>io3.
      if map_option l_pc (sw_run (io_sw io3) tid) \<in> {Some LTop, Some LDone} then Inr io3
      else obind (step (body io3)) (\<lambda>io4. obind (step io4) step)))))"

lemma first_steps_task:
  assumes "sw_run w tid = Some l" and "l_pc l = LTop"
    and "pick (fw_objs (sw_fw w)) tid (m_fibers (sw_sched w)) = Inr (Some it, t, q)"
  obtains w1 l1 l2 w2 where "step_thread tid c sl w = Inr w1" and "sw_run w1 tid = Some l1"
    and "l_pc l1 = LTickle" and "step_thread tid c sl w1 = Inr w2" and "at_branch tid it q t l w l2 w2"
proof -
  let ?l1 = "l\<lparr>l_pc := LTickle, l_ft := it, l_tickle_me := t, l_is_active := True\<rparr>"
  let ?w1 = "set_run tid ?l1 (upd_sched (\<lambda>s. s\<lparr>m_fibers := q, m_activeThreadCount := m_activeThreadCount s + 1\<rparr>) w)"
  let ?l2 = "?l1\<lparr>l_pc := LBranch\<rparr>"
  let ?w2 = "set_run tid ?l2 (if t then tickle ?w1 else ?w1)"
  have 1: "step_thread tid c sl w = Inr ?w1"
    using assms by (simp add: step_thread_def run_step_def run_pick_def)
  have 2: "step_thread tid c sl ?w1 = Inr ?w2"
    by (simp add: step_thread_def run_step_def run_tickle_def)
  have "at_branch tid it q t l w ?l2 ?w2" by (cases t) (simp_all add: at_branch_def)
  with that [OF 1 _ _ 2] show ?thesis by simp
qed

lemma cb_in:
  assumes ab: "at_branch tid it q t l w l2 w2" and ft: "ft_fiber it = None" "ft_cb it = Some k"
    and rdy: "cb_ready c mn l w"
    and mn: "GetMainFiber tid (sw_fw w) = Some mn" "fw_objs (sw_fw w) mn = Some mf"
  obtains w3 l3 g fw1 where "step_thread tid c sl w2 = Inr w3" and "sw_run w3 = (sw_run w)(tid \<mapsto> l3)"
    and "l_pc l3 = LIn BCb" and "l_idle_fiber l3 = l_idle_fiber l" and "l_cb_fiber l3 = Some (cb_address c l)"
    and "sw_sched w3 = (sw_sched w)\<lparr>m_fibers := q, m_activeThreadCount := m_activeThreadCount (sw_sched w) + 1\<rparr>"
    and "run_slice sl tid (cb_address c l) (sw_fw w3) = Inr (slice_world tid mn mf (cb_address c l) g sl fw1)"
    and "fresh_for k g" and "fw_objs fw1 = (fw_objs (sw_fw w))(cb_address c l \<mapsto> g)"
    and "GetMainFiber tid fw1 = Some mn"
proof -
  note ab = ab [unfolded at_branch_def]
  let ?a = "cb_address c l"
  have l2: "cb_address c l2 = ?a" "cb_ready c mn l2 w2" "l_cb_fiber l2 = l_cb_fiber l"
    using ab rdy by (simp_all add: cb_address_def cb_ready_def split: option.splits)
  obtain fw1 g where prep: "prepare_cb c l2 w2 = Inr (?a, fw1)" and g: "fresh_for k g"
    and sw: "can_switch tid mn mf ?a g fw1" and objs1: "fw_objs fw1 = (fw_objs (sw_fw w))(?a \<mapsto> g)"
    using prepare_cb_ok [OF l2(2), of k tid mf] ab ft mn l2(1,3) by auto
  obtain fw3 where sin: "swapIn tid ?a fw1 = Inr fw3"
    and sl: "run_slice sl tid ?a fw3 = Inr (slice_world tid mn mf ?a g sl fw1)"
    by (rule switch_and_slice [OF sw])
  let ?l3 = "l2\<lparr>l_pc := LIn BCb, l_cb_fiber := Some ?a, l_ft := FiberAndThread_reset\<rparr>"
  let ?w3 = "set_run tid ?l3 (w2\<lparr>sw_fw := fw3\<rparr>)"
  have 3: "step_thread tid c sl w2 = Inr ?w3"
    using ft prep sin ab by (simp add: step_thread_def run_step_def run_branch_def run_cb_branch_def Let_def)
  have "GetMainFiber tid fw1 = Some mn" using sw by (simp add: can_switch_def)
  with ab sl g objs1 show ?thesis by (intro that [OF 3, of ?l3 g fw1]) simp_all
qed

lemma cb_out:
  assumes l: "sw_run v tid = Some l" "l_pc l = LIn BCb" "l_cb_fiber l = Some a"
    and sl: "run_slice (SEnd e) tid a (sw_fw v) = Inr (slice_world tid mn mf a g (SEnd e) fw)"
    and g: "f_stack g" and mn: "mn \<noteq> a" "GetMainFiber tid fw = Some mn"
  obtains v4 l4 v5 l5 v6 l6 where "step_thread tid c (SEnd e) v = Inr v4"
    and "sw_run v4 tid = Some l4" and "l_pc l4 = LBack BCb"
    and "step_thread tid c (SEnd e) v4 = Inr v5" and "sw_run v5 tid = Some l5" and "l_pc l5 = LAfter BCb"
    and "step_thread tid c (SEnd e) v5 = Inr v6" and "sw_run v6 = (sw_run v)(tid \<mapsto> l6)" and "l_pc l6 = LTop"
    and "l_idle_fiber l6 = l_idle_fiber l" and "l_cb_fiber l6 = Some a"
    and "sw_sched v6 = (sw_sched v)\<lparr>m_activeThreadCount := m_activeThreadCount (sw_sched v) - 1\<rparr>"
    and "fw_objs (sw_fw v6) = (fw_objs fw)(a \<mapsto> recycled (slice_result (SEnd e) g), mn \<mapsto> mf\<lparr>f_ctx := Running\<rparr>)"
    and "GetMainFiber tid (sw_fw v6) = Some mn"
proof -
  let ?fw = "slice_world tid mn mf a g (SEnd e) fw"
  let ?v4 = "set_run tid (l\<lparr>l_pc := LBack BCb\<rparr>) (v\<lparr>sw_fw := ?fw\<rparr>)"
  let ?v5 = "set_run tid (l\<lparr>l_pc := LAfter BCb\<rparr>)
     (upd_sched (\<lambda>s. s\<lparr>m_activeThreadCount := m_activeThreadCount s - 1\<rparr>) ?v4)"
  let ?fw' = "upd_fiber a (\<lambda>f. f\<lparr>f_cb := None, f_ctx := AtEntry EMainFunc, f_state := INIT\<rparr>) ?fw"
  let ?v6 = "set_run tid (l\<lparr>l_pc := LTop\<rparr>) (?v5\<lparr>sw_fw := ?fw'\<rparr>)"
  let ?st = "f_state (slice_result (SEnd e) g)"
  have st: "?st \<noteq> READY" "?st = EXCEPT \<or> ?st = TERM'" "finished_or_new ?st"
    by (auto simp: slice_result_state finished_or_new_def)
  have stk: "f_stack (slice_result (SEnd e) g)" using g by simp
  have 4: "step_thread tid c (SEnd e) v = Inr ?v4"
    using l sl by (simp add: step_thread_def run_step_def run_in_def l_current_def)
  have 5: "step_thread tid c (SEnd e) ?v4 = Inr ?v5"
    by (simp add: step_thread_def run_step_def run_back_def)
  have 6: "step_thread tid c (SEnd e) ?v5 = Inr ?v6"
    using l(3) mn st stk by (simp add: step_thread_def run_step_def run_after_cb_def fiber_state_def Fiber_reset_def)
  show ?thesis
    by (rule that [of ?v4 "l\<lparr>l_pc := LBack BCb\<rparr>" ?v5 "l\<lparr>l_pc := LAfter BCb\<rparr>" ?v6 "l\<lparr>l_pc := LTop\<rparr>",
          OF 4 _ _ 5 _ _ 6])
      (use l mn in \<open>simp_all add: recycled_world slice_world_main\<close>)
qed

text \<open>A worker whose only task is the callback of the hooks.\<close>

lemma run_wake_parts:
  "sw_fw (io_sw (run_wake (WakeFiber p) io)) = sw_fw (io_sw io)"
  "sw_run (io_sw (run_wake (WakeFiber p) io)) = sw_run (io_sw io)"
  "sw_sched (io_sw (run_wake (WakeFiber p) io)) = (sw_sched (io_sw io))
     \<lparr>m_fibers := m_fibers (sw_sched (io_sw io)) @ [\<lparr>ft_fiber = Some p, ft_cb = None, ft_thread = -1\<rparr>]\<rparr>"
  "same_io io (run_wake (WakeFiber p) io)"
  by (auto simp: run_wake_def io_schedule_def scheduleNoLock_def set_sched_def IOManager_tickle_def same_io_def Let_def)

lemma cb_first_half:
  assumes wk: "worker_with P tid c mn (io_sw io)" and w: "w = io_sw io"
    and q: "m_fibers (sw_sched w) = [poll_entry (Some k)]"
  obtains l i fi mf l3 g fw1 io1 io2 io3 where "sw_run w tid = Some l" and "l_idle_fiber l = i"
    and "i \<noteq> mn" and "i \<noteq> c" and "c \<noteq> mn" and "fw_objs (sw_fw w) i = Some fi" and "P fi"
    and "io_step_thread ctl tid c (SEnd e) now1 now2 answers io = Inr io1"
    and "io_step_thread ctl tid c (SEnd e) now1 now2 answers io1 = Inr io2"
    and "io_step_thread ctl tid c (SEnd e) now1 now2 answers io2 = Inr io3" and "same_io io io3"
    and "sw_run (io_sw io3) = (sw_run w)(tid \<mapsto> l3)" and "l_pc l3 = LIn BCb" and "l_idle_fiber l3 = i"
    and "l_cb_fiber l3 = Some c" and "m_fibers (sw_sched (io_sw io3)) = []"
    and "run_slice (SEnd e) tid c (sw_fw (io_sw io3)) = Inr (slice_world tid mn mf c g (SEnd e) fw1)"
    and "f_stack g" and "fw_objs fw1 = (fw_objs (sw_fw w))(c \<mapsto> g)" and "GetMainFiber tid fw1 = Some mn"
proof -
  let ?io = "io_step_thread ctl tid c (SEnd e) now1 now2 answers"
  let ?it = "poll_entry (Some k)"
  obtain l i fi mf where l: "sw_run w tid = Some l" "l_pc l = LTop" "l_idle_fiber l = i" "i \<noteq> mn" "i \<noteq> c" "c \<noteq> mn"
    and mn: "GetMainFiber tid (sw_fw w) = Some mn" "fw_objs (sw_fw w) mn = Some mf"
    and fi: "fw_objs (sw_fw w) i = Some fi" "P fi"
    and cf: "case l_cb_fiber l of None \<Rightarrow> True
         | Some a \<Rightarrow> a = c \<and> (\<exists>f. fw_objs (sw_fw w) c = Some f \<and> f_stack f \<and> f_state f = INIT)"
    using wk unfolding w [symmetric] by (auto simp: worker_with_def)
  have it: "ft_fiber ?it = None" "ft_cb ?it = Some k" by (simp_all add: poll_entry_def)
  have pick: "pick (fw_objs (sw_fw w)) tid (m_fibers (sw_sched w)) = Inr (Some ?it, False, [])"
    using q by (simp add: poll_entry_def)
  obtain w1 l1 l2 w2 where 1: "step_thread tid c (SEnd e) w = Inr w1" "sw_run w1 tid = Some l1" "l_pc l1 = LTickle"
    and 2: "step_thread tid c (SEnd e) w1 = Inr w2" and ab: "at_branch tid ?it [] False l w l2 w2"
    by (rule first_steps_task [OF l(1,2) pick])
  have l2: "sw_run w2 tid = Some l2" "l_pc l2 = LBranch" using ab by (simp_all add: at_branch_def)
  have addr: "cb_address c l = c" using cf by (auto simp: cb_address_def split: option.splits)
  have rdy: "cb_ready c mn l w" using cf l(6) by (auto simp: cb_ready_def finished_or_new_def split: option.splits)
  obtain w3 l3 g fw1 where 3: "step_thread tid c (SEnd e) w2 = Inr w3" "sw_run w3 = (sw_run w)(tid \<mapsto> l3)"
      "l_pc l3 = LIn BCb" "l_idle_fiber l3 = i" "l_cb_fiber l3 = Some c"
      "sw_sched w3 = (sw_sched w)\<lparr>m_fibers := [], m_activeThreadCount := m_activeThreadCount (sw_sched w) + 1\<rparr>"
    and sl: "run_slice (SEnd e) tid c (sw_fw w3) = Inr (slice_world tid mn mf c g (SEnd e) fw1)"
    and g: "fresh_for k g" and fw1: "fw_objs fw1 = (fw_objs (sw_fw w))(c \<mapsto> g)" "GetMainFiber tid fw1 = Some mn"
    by (rule cb_in [OF ab it rdy mn, of "SEnd e", unfolded addr l(3)])
  obtain io1 where s1: "?io io = Inr io1" "io_sw io1 = w1" "same_io io io1"
    using io_step_ok [OF same_io_refl, of io tid l c "SEnd e" w1 ctl now1 now2 answers] l(1,2) 1(1) by (auto simp: w)
  obtain io2 where s2: "?io io1 = Inr io2" "io_sw io2 = w2" "same_io io io2"
    using io_step_ok [OF s1(3), of tid l1 c "SEnd e" w2 ctl now1 now2 answers] 1 2 s1(2) by auto
  obtain io3 where s3: "?io io2 = Inr io3" "io_sw io3 = w3" "same_io io io3"
    using io_step_ok [OF s2(3), of tid l2 c "SEnd e" w3 ctl now1 now2 answers] l2 3(1) s2(2) by auto
  show ?thesis
    by (rule that [OF l(1,3,4,5,6) fi s1(1) s2(1) s3(1,3), of l3 mf g fw1])
      (use 3 sl g fw1 s3(2) in \<open>simp_all add: fresh_for_def\<close>)
qed

lemma cb_second_half:
  assumes l: "sw_run (io_sw j) tid = Some l" "l_pc l = LIn BCb" "l_cb_fiber l = Some c" and same: "same_io io j"
    and sl: "run_slice (SEnd e) tid c (sw_fw (io_sw j)) = Inr (slice_world tid mn mf c g (SEnd e) fw)"
    and g: "f_stack g" and mn: "mn \<noteq> c" "GetMainFiber tid fw = Some mn"
  obtains io4 io5 io6 l6 where "io_step_thread ctl tid c (SEnd e) now1 now2 answers j = Inr io4"
    and "io_step_thread ctl tid c (SEnd e) now1 now2 answers io4 = Inr io5"
    and "io_step_thread ctl tid c (SEnd e) now1 now2 answers io5 = Inr io6" and "same_io io io6"
    and "sw_run (io_sw io6) = (sw_run (io_sw j))(tid \<mapsto> l6)" and "l_pc l6 = LTop"
    and "l_idle_fiber l6 = l_idle_fiber l" and "l_cb_fiber l6 = Some c"
    and "m_fibers (sw_sched (io_sw io6)) = m_fibers (sw_sched (io_sw j))"
    and "fw_objs (sw_fw (io_sw io6)) = (fw_objs fw)
      (c \<mapsto> recycled (slice_result (SEnd e) g), mn \<mapsto> mf\<lparr>f_ctx := Running\<rparr>)"
    and "GetMainFiber tid (sw_fw (io_sw io6)) = Some mn"
proof -
  let ?io = "io_step_thread ctl tid c (SEnd e) now1 now2 answers"
  obtain v4 l4 v5 l5 v6 l6 where 4: "step_thread tid c (SEnd e) (io_sw j) = Inr v4" "sw_run v4 tid = Some l4"
      "l_pc l4 = LBack BCb"
    and 5: "step_thread tid c (SEnd e) v4 = Inr v5" "sw_run v5 tid = Some l5" "l_pc l5 = LAfter BCb"
    and 6: "step_thread tid c (SEnd e) v5 = Inr v6" "sw_run v6 = (sw_run (io_sw j))(tid \<mapsto> l6)" "l_pc l6 = LTop"
      "l_idle_fiber l6 = l_idle_fiber l" "l_cb_fiber l6 = Some c"
      "sw_sched v6 = (sw_sched (io_sw j))\<lparr>m_activeThreadCount := m_activeThreadCount (sw_sched (io_sw j)) - 1\<rparr>"
      "fw_objs (sw_fw v6) = (fw_objs fw)(c \<mapsto> recycled (slice_result (SEnd e) g), mn \<mapsto> mf\<lparr>f_ctx := Running\<rparr>)"
      "GetMainFiber tid (sw_fw v6) = Some mn"
    by (rule cb_out [OF l sl g mn, of c])
  obtain io4 where s4: "?io j = Inr io4" "io_sw io4 = v4" "same_io io io4"
    using io_step_ok [OF same l(1), of c "SEnd e" v4 ctl now1 now2 answers] l(2) 4(1) by auto
  obtain io5 where s5: "?io io4 = Inr io5" "io_sw io5 = v5" "same_io io io5"
    using io_step_ok [OF s4(3), of tid l4 c "SEnd e" v5 ctl now1 now2 answers] 4(2,3) 5(1) s4(2) by auto
  obtain io6 where s6: "?io io5 = Inr io6" "io_sw io6 = v6" "same_io io io6"
    using io_step_ok [OF s5(3), of tid l5 c "SEnd e" v6 ctl now1 now2 answers] 5(2,3) 6(1) s5(2) by auto
  show ?thesis by (rule that [OF s4(1) s5(1) s6(1,3), of l6]) (use 6 s6(2) in simp_all)
qed

lemma wake_iteration:
  assumes wk: "worker_with P tid c mn (io_sw io)"
    and q: "m_fibers (sw_sched (io_sw io)) = [poll_entry (Some k)]"
  shows "\<exists>io'. app_iteration (run_wake (WakeFiber p)) ctl tid c (SEnd e) now1 now2 answers io = Inr io' \<and>
    worker_with P tid c mn (io_sw io') \<and> same_io io io' \<and>
    m_fibers (sw_sched (io_sw io')) = [\<lparr>ft_fiber = Some p, ft_cb = None, ft_thread = -1\<rparr>] \<and>
    map_option l_idle_fiber (sw_run (io_sw io') tid) = map_option l_idle_fiber (sw_run (io_sw io) tid) \<and>
    (\<forall>x. x \<noteq> mn \<and> x \<noteq> c \<longrightarrow> fw_objs (sw_fw (io_sw io')) x = fw_objs (sw_fw (io_sw io)) x)"
proof -
  let ?io = "io_step_thread ctl tid c (SEnd e) now1 now2 answers"
  obtain w where w: "w = io_sw io" by simp
  obtain l i fi mf l3 g fw1 io1 io2 io3 where l: "sw_run w tid = Some l" "l_idle_fiber l = i" "i \<noteq> mn" "i \<noteq> c" "c \<noteq> mn"
    and fi: "fw_objs (sw_fw w) i = Some fi" "P fi"
    and s: "?io io = Inr io1" "?io io1 = Inr io2" "?io io2 = Inr io3" and same: "same_io io io3"
    and l3: "sw_run (io_sw io3) = (sw_run w)(tid \<mapsto> l3)" "l_pc l3 = LIn BCb" "l_idle_fiber l3 = i" "l_cb_fiber l3 = Some c"
    and q3: "m_fibers (sw_sched (io_sw io3)) = []"
    and sl: "run_slice (SEnd e) tid c (sw_fw (io_sw io3)) = Inr (slice_world tid mn mf c g (SEnd e) fw1)"
    and g: "f_stack g" and fw1: "fw_objs fw1 = (fw_objs (sw_fw w))(c \<mapsto> g)" "GetMainFiber tid fw1 = Some mn"
    by (rule cb_first_half [OF wk w, of k ctl e now1 now2 answers]) (use q w in simp)
  define j where "j = run_wake (WakeFiber p) io3"
  note pj = run_wake_parts [where p = p and io = io3, folded j_def]
  have rj: "sw_run (io_sw j) tid = Some l3" using pj(2) l3(1) by simp
  have slj: "run_slice (SEnd e) tid c (sw_fw (io_sw j)) = Inr (slice_world tid mn mf c g (SEnd e) fw1)"
    using sl pj(1) by simp
  obtain io4 io5 io6 l6 where s': "?io j = Inr io4" "?io io4 = Inr io5" "?io io5 = Inr io6" and same': "same_io io io6"
    and l6: "sw_run (io_sw io6) = (sw_run (io_sw j))(tid \<mapsto> l6)" "l_pc l6 = LTop"
      "l_idle_fiber l6 = l_idle_fiber l3" "l_cb_fiber l6 = Some c"
    and q6: "m_fibers (sw_sched (io_sw io6)) = m_fibers (sw_sched (io_sw j))"
    and o6: "fw_objs (sw_fw (io_sw io6)) = (fw_objs fw1)
      (c \<mapsto> recycled (slice_result (SEnd e) g), mn \<mapsto> mf\<lparr>f_ctx := Running\<rparr>)"
      "GetMainFiber tid (sw_fw (io_sw io6)) = Some mn"
    by (rule cb_second_half [OF rj l3(2,4) same_io_trans [OF same pj(4)] slj g l(5) [symmetric] fw1(2), of ctl now1 now2 answers])
  have "app_iteration (run_wake (WakeFiber p)) ctl tid c (SEnd e) now1 now2 answers io = Inr io6"
    using s s' l3(1,2) by (simp add: app_iteration_def j_def)
  moreover have "worker_with P tid c mn (io_sw io6)"
    using l l6 l3 o6 fi fw1 g by (auto simp: worker_with_def recycled_def)
  moreover have "m_fibers (sw_sched (io_sw io6)) = [\<lparr>ft_fiber = Some p, ft_cb = None, ft_thread = -1\<rparr>]"
    using q6 q3 pj(3) by simp
  moreover have "map_option l_idle_fiber (sw_run (io_sw io6) tid) = map_option l_idle_fiber (sw_run (io_sw io) tid)"
    "\<forall>x. x \<noteq> mn \<and> x \<noteq> c \<longrightarrow> fw_objs (sw_fw (io_sw io6)) x = fw_objs (sw_fw (io_sw io)) x"
    using l6 l3(3) l(1,2) w fw1(1) o6(1) by simp_all
  ultimately show ?thesis using same' by blast
qed

text \<open>A worker whose only task is a fiber.\<close>

lemma fiber_iteration:
  assumes wk: "worker_with P tid c mn (io_sw io)"
    and q: "m_fibers (sw_sched (io_sw io)) = [\<lparr>ft_fiber = Some p, ft_cb = None, ft_thread = -1\<rparr>]"
    and f: "fw_objs (sw_fw (io_sw io)) p = Some f" "f_state f \<noteq> EXEC" "resumable (f_ctx f)" and ne: "p \<noteq> mn"
  shows "\<exists>io'. io_iteration ctl tid c sl now1 now2 answers io = Inr io' \<and> same_io io io' \<and>
    fw_objs (sw_fw (io_sw io')) p = Some (settle (slice_result sl f)) \<and>
    m_fibers (sw_sched (io_sw io')) = requeued sl p"
proof -
  let ?it = "\<lparr>ft_fiber = Some p, ft_cb = None, ft_thread = -1\<rparr>"
  let ?w = "io_sw io"
  obtain l mf where l: "sw_run ?w tid = Some l" "l_pc l = LTop"
    and mn: "GetMainFiber tid (sw_fw ?w) = Some mn" "fw_objs (sw_fw ?w) mn = Some mf"
    using wk by (auto simp: worker_with_def)
  have qs: "queue_ok (fw_objs (sw_fw ?w)) (m_fibers (sw_sched ?w))"
    "ahead (fw_objs (sw_fw ?w)) tid (m_fibers (sw_sched ?w)) = [?it]"
    "passed (fw_objs (sw_fw ?w)) tid (m_fibers (sw_sched ?w)) = []"
    using q f by (simp_all add: queue_ok_def ahead_def passed_def ft_full_def eligible_def foreign_def busy_def)
  obtain l2 w2 where 1: "run_iteration tid c sl ?w = from_branch tid c sl l2 w2"
    and ab: "at_branch tid ?it [] False l ?w l2 w2"
    using first_two_steps [OF l qs(1,2), of c sl] qs(3) by auto
  have "can_switch tid mn mf p f (sw_fw ?w)" using mn f ne by (simp add: can_switch_def)
  from fiber_branch [OF ab _ this, of c sl] obtain w' where
    w': "from_branch tid c sl l2 w2 = Inr w'" "sw_sched w' = (sw_sched ?w)\<lparr>m_fibers := requeued sl p\<rparr>"
      "fw_objs (sw_fw w') = (fw_objs (sw_fw ?w))(p \<mapsto> settle (slice_result sl f), mn \<mapsto> mf\<lparr>f_ctx := Running\<rparr>)"
    by auto
  have pick: "pick (fw_objs (sw_fw ?w)) tid (m_fibers (sw_sched ?w)) = Inr (Some ?it, False, [])"
    using q f by simp
  have full: "ft_full ?it" by (simp add: ft_full_def)
  have run: "run_iteration tid c sl ?w = Inr w'" using 1 w'(1) by simp
  from io_iteration_of_task [OF l pick full run] obtain io' where
    "io_iteration ctl tid c sl now1 now2 answers io = Inr io'" "io_sw io' = w'" "same_io io io'" by blast
  with w'(2,3) ne show ?thesis by auto
qed

section \<open>Properties\<close>


text \<open>Worker 7 with its main fiber at 1 and its idle fiber at 3; the fiber at 2 sleeps until 3000.\<close>

definition waking_world :: "(nat app, unit) hps_IOManager" where
  "waking_world =
     \<lparr>io_sw = \<lparr>sw_sched = (Scheduler_fields ''io'')\<lparr>m_stopping := False\<rparr>,
        sw_fw = \<lparr>fw_objs = [1 \<mapsto> sched_fiber\<lparr>f_ctx := Running\<rparr>, 2 \<mapsto> sleeper\<lparr>f_state := HOLD, f_ctx := InCode\<rparr>,
             3 \<mapsto> \<lparr>f_id = 2, f_stacksize = 4096, f_state = INIT, f_ctx = AtEntry EMainFunc, f_stack = True,
                   f_cb = Some FnIdle\<rparr>],
           fw_fiber_id = 3, fw_fiber_count = 3,
           fw_tls = (\<lambda>_. \<lparr>t_fiber = Some 1, t_threadFiber = Some 1, t_scheduler_fiber = Some 1\<rparr>),
           fw_running = [7 \<mapsto> 1]\<rparr>,
        sw_t_scheduler = (\<lambda>t. t = 7), sw_hook = (\<lambda>t. t = 7), sw_tickles = 0, sw_stack_size = 4096,
        sw_run = [7 \<mapsto> \<lparr>l_pc = LTop, l_idle_fiber = 3, l_cb_fiber = None, l_ft = FiberAndThread_reset,
                       l_tickle_me = False, l_is_active = False\<rparr>]\<rparr>,
      io_tm = \<lparr>tm_objs = [30 \<mapsto> \<lparr>t_recurring = False, t_ms = 2000, t_next = 3000, t_cb = Some (FnUser (WakeFiber 2))\<rparr>],
        tm_timers = [30], tm_tickled = False, tm_previousTime = 0\<rparr>,
      io_pendingEventCount = 0, io_fdContexts = [], io_pipe = 0, io_kernel = ()\<rparr>"


end
