(* ===== verification/Hps_ManagerRuns.thy ===== *)
theory Hps_ManagerRuns
  imports Hps_IdleLoop
begin

unbundle bit_operations_syntax

text \<open>
  The whole IO manager under interleaving: worker threads in the loop of the scheduler, their
  idle fibers waiting in \<open>epoll_wait\<close>, other threads that register, delete and cancel events,
  arm and cancel timers, schedule work, start and stop the manager. The invariants of the
  scheduler, the timers and the event table hold together in every state, so what \<open>stopping()\<close>
  reads in them is true of the whole.
\<close>

section \<open>What the event operations do to the scheduler\<close>

text \<open>The event operations reach the scheduler only through its queue.\<close>

definition fired ::
  "'cb hps_FiberAndThread list \<Rightarrow> ('cb, 'k) hps_IOManager \<Rightarrow> ('cb, 'k) hps_IOManager \<Rightarrow> bool" where
  "fired xs io io' \<longleftrightarrow> io_tm io' = io_tm io \<and> list_all ft_full xs \<and>
     io_sw io' = upd_sched (\<lambda>s. s\<lparr>m_fibers := m_fibers s @ xs\<rparr>) (io_sw io)"

lemma fired_Nil: "fired [] io io' \<longleftrightarrow> io_tm io' = io_tm io \<and> io_sw io' = io_sw io"
  by (simp add: fired_def upd_sched_def)

lemma fired_append: "fired xs a b \<Longrightarrow> fired ys b c \<Longrightarrow> fired (xs @ ys) a c"
  by (simp add: fired_def upd_sched_def)

lemma fired_put [simp]:
  "fired xs io (put_ctx fd c io') = fired xs io io'" "fired xs io (add_pending n io') = fired xs io io'"
  "fired xs (put_ctx fd c io) io' = fired xs io io'" "fired xs (add_pending n io) io' = fired xs io io'"
  "fired xs (io\<lparr>io_kernel := k\<rparr>) io' = fired xs io io'" "fired xs io (io'\<lparr>io_kernel := k\<rparr>) = fired xs io io'"
  by (simp_all add: fired_def put_ctx_def add_pending_def)

lemma io_schedule_fired: "fired (filter ft_full [ft]) io (io_schedule ft io)"
  by (auto simp: fired_def io_schedule_def scheduleNoLock_def Let_def set_sched_def IOManager_tickle_def
      upd_sched_def ft_full_def)

lemma io_schedule_range_fired:
  "fired (filter ft_full (map (\<lambda>fc. FiberAndThread_new fc (-1)) fcs)) io (io_schedule_range fcs io)"
  by (auto simp: fired_def io_schedule_range_def schedule_loop_result Let_def set_sched_def
      IOManager_tickle_def upd_sched_def list_all_iff)

definition fires :: "('cb, 'k) hps_IOManager \<Rightarrow> ('cb, 'k) hps_IOManager \<Rightarrow> bool" where
  "fires io io' \<longleftrightarrow> (\<exists>xs. fired xs io io')"

lemma fires_same: "io_tm io' = io_tm io \<Longrightarrow> io_sw io' = io_sw io \<Longrightarrow> fires io io'"
  unfolding fires_def by (rule exI [of _ "[]"]) (simp add: fired_Nil)

lemma fires_refl [simp]: "fires io io"
  by (rule fires_same) simp_all

lemma fires_trans: "fires a b \<Longrightarrow> fires b c \<Longrightarrow> fires a c"
  using fired_append by (fastforce simp: fires_def)

lemma fires_put [simp]:
  "fires io (put_ctx fd c io') = fires io io'" "fires io (add_pending n io') = fires io io'"
  "fires (put_ctx fd c io) io' = fires io io'" "fires (add_pending n io) io' = fires io io'"
  "fires (io\<lparr>io_kernel := k\<rparr>) io' = fires io io'" "fires io (io'\<lparr>io_kernel := k\<rparr>) = fires io io'"
  by (simp_all add: fires_def)

lemma io_schedule_fires [simp]: "fires io (io_schedule ft io)" "fires io (io_schedule_range fcs io)"
  unfolding fires_def
  by (rule exI, rule io_schedule_fired) (rule exI, rule io_schedule_range_fired)

lemma triggerEvent_fires:
  assumes "triggerEvent fd ev io = Inr io'"
  shows "fires io io'"
proof -
  from assms obtain ft c where "io' = io_schedule ft (put_ctx fd c io)"
    by (auto simp: triggerEvent_def Let_def outcome_simps split: if_splits)
  then show ?thesis using io_schedule_fires(1) [of "put_ctx fd c io" ft] by (simp only: fires_put)
qed

lemma trigger_if_fires: "trigger_if b fd ev io = Inr io' \<Longrightarrow> fires io io'"
  by (auto simp: trigger_if_def outcome_simps dest: triggerEvent_fires split: if_splits)

lemma trigger_both_fires:
  assumes "trigger_if b fd READ (io\<lparr>io_kernel := k\<rparr>) = Inr io2" and "trigger_if c fd WRITE io2 = Inr io'"
  shows "fires io io'"
  using fires_trans [OF trigger_if_fires [OF assms(1)] trigger_if_fires [OF assms(2)]] by simp

lemma idle_event_fires:
  assumes "idle_event ctl e io = Inr io'"
  shows "fires io io'"
proof (cases "fst e")
  case EvTickle
  with assms show ?thesis by (auto simp: idle_event_def intro: fires_same)
next
  case (EvCtx fd)
  with assms obtain c where c: "ctx_at fd io = Inr c" by (auto simp: idle_event_def outcome_simps)
  let ?real = "real_events (snd e)"
  obtain rt k where k: "ctl (if fd_events c AND NOT ?real \<noteq> 0 then CTL_MOD else CTL_DEL) (fd_fd c)
      (EPOLLET OR (fd_events c AND NOT ?real)) (io_kernel io) = (rt, k)" by fastforce
  consider "io' = io" | "io' = io\<lparr>io_kernel := k\<rparr>"
    | io2 where "trigger_if (?real AND READ \<noteq> 0) fd READ (io\<lparr>io_kernel := k\<rparr>) = Inr io2"
        "trigger_if (?real AND WRITE \<noteq> 0) fd WRITE io2 = Inr io'"
    using assms EvCtx c k by (auto simp: idle_event_def Let_def outcome_simps split: if_splits)
  then show ?thesis
    by cases (auto intro: trigger_both_fires)
qed

lemma idle_events_fire: "ofold (idle_event ctl) evs io = Inr io' \<Longrightarrow> fires io io'"
  by (erule ofold_invariant) (auto dest: idle_event_fires intro: fires_trans)

lemma drop_interest_fires: "drop_interest ctl fd ev io = Inr (ok, io') \<Longrightarrow> fires io io'"
  using drop_interest_result by (fastforce intro: fires_same)

lemma delEvent_fires: "delEvent ctl fd ev io = Inr (r, io') \<Longrightarrow> fires io io'"
  by (auto simp: delEvent_def Let_def outcome_simps dest: drop_interest_fires split: if_splits)

lemma cancelEvent_fires: "cancelEvent ctl fd ev io = Inr (r, io') \<Longrightarrow> fires io io'"
  by (auto simp: cancelEvent_def outcome_simps dest!: drop_interest_fires triggerEvent_fires
      intro: fires_trans split: if_splits)

lemma cancelAll_fires:
  assumes "cancelAll ctl fd io = Inr (r, io')"
  shows "fires io io'"
proof -
  obtain rt k where k: "ctl CTL_DEL fd 0 (io_kernel io) = (rt, k)" by fastforce
  consider "io' = io" | "io' = io\<lparr>io_kernel := k\<rparr>"
    | b c io2 where "trigger_if b fd READ (io\<lparr>io_kernel := k\<rparr>) = Inr io2" "trigger_if c fd WRITE io2 = Inr io'"
    using assms k by (auto simp: cancelAll_def Let_def outcome_simps split: if_splits)
  then show ?thesis
    by cases (auto intro: trigger_both_fires)
qed

text \<open>Registering touches neither the queue nor the timers.\<close>

lemma addEvent_effect:
  assumes "addEvent ctl tid a fd ev cb io = Inr (r, io')"
  shows "io_tm io' = io_tm io \<and> sw_sched (io_sw io') = sw_sched (io_sw io) \<and> sw_run (io_sw io') = sw_run (io_sw io)"
proof -
  from assms obtain found io1 where grow: "(if found then Inr io else addEvent_grow fd io) = Inr io1"
    and reg: "addEvent_register ctl tid a fd ev cb io1 = Inr (r, io')"
    by (auto simp: addEvent_def outcome_simps)
  have 1: "io_tm io1 = io_tm io \<and> io_sw io1 = io_sw io"
    using grow by (auto simp: addEvent_grow_def contextResize_def Let_def outcome_simps split: if_splits)
  from reg obtain c where "ctx_at fd io1 = Inr c" by (auto simp: addEvent_register_def outcome_simps)
  moreover obtain rt k where
    "ctl (if fd_events c \<noteq> 0 then CTL_MOD else CTL_ADD) fd (EPOLLET OR fd_events c OR ev) (io_kernel io1) = (rt, k)"
    by fastforce
  ultimately have "io_tm io' = io_tm io1 \<and> sw_sched (io_sw io') = sw_sched (io_sw io1) \<and>
      sw_run (io_sw io') = sw_run (io_sw io1)"
    using reg by (auto simp: addEvent_register_def Let_def outcome_simps put_ctx_def add_pending_def split: if_splits)
  with 1 show ?thesis by simp
qed

section \<open>Steps of the whole\<close>

text \<open>What other code does to the scheduler: every step of Hps_SchedulerRuns but a worker's.\<close>

inductive env_step :: "'cb sched_world \<Rightarrow> 'cb sched_world \<Rightarrow> bool" where
  enter: "sw_run w tid = None \<Longrightarrow> run_enter tid a i w = Inr w' \<Longrightarrow> env_step w w'"
| leave: "sw_run w tid = Some l \<Longrightarrow> l_pc l = LDone \<Longrightarrow>
    env_step w (w\<lparr>sw_run := (sw_run w)(tid := None)\<rparr>)"
| schedule: "env_step w (schedule fc thr w)"
| schedule_range: "env_step w (snd (schedule_range fcs w))"
| start: "Scheduler_start ids (sw_sched w) = Inr s \<Longrightarrow> env_step w (w\<lparr>sw_sched := s\<rparr>)"
| stop: "stop_begin tid w = Inr (n, w') \<Longrightarrow> env_step w w'"
| join: "env_step w (w\<lparr>sw_sched := snd (stop_join (sw_sched w))\<rparr>)"
| fibers: "fiber_exec tid op (sw_fw w) = Inr fw \<Longrightarrow> env_step w (w\<lparr>sw_fw := fw\<rparr>)"

lemma env_step_sched: "env_step w w' \<Longrightarrow> sched_step w w'"
  by (induction rule: env_step.induct) (blast intro: sched_step.intros)+

text \<open>
  A step of the manager: a worker advances (with a whole turn of its idle fiber as one step), or
  only switches back from its idle fiber; one of the event operations, or the handling of one
  element of the array of \<open>epoll_wait\<close>; one of the timer operations, with the notification it
  makes; a step of other code on the scheduler. A turn of the idle fiber that others interrupt
  is made of the finer ones: \<open>getNextTimer\<close>, \<open>listExpiredCb\<close>, the scheduling of the callbacks,
  the elements, the switch. The kernel reports only registered contexts and the pipe as the
  pipe (\<open>tick\<close> is its descriptor).
\<close>

definition from_kernel :: "int \<Rightarrow> wait_answer \<Rightarrow> bool" where
  "from_kernel tick an = (case an of Ready evs \<Rightarrow> EvCtx tick \<notin> fst ` set evs | _ \<Rightarrow> True)"

inductive manager_step ::
  "'k epoll_ctl \<Rightarrow> int \<Rightarrow> ('cb, 'k) hps_IOManager \<Rightarrow> ('cb, 'k) hps_IOManager \<Rightarrow> bool"
  for ctl tick where
  worker: "list_all (from_kernel tick) answers \<Longrightarrow>
    io_step_thread ctl tid c sl now1 now2 answers io = Inr io' \<Longrightarrow> manager_step ctl tick io io'"
| idle_out: "sw_run (io_sw io) tid = Some l \<Longrightarrow> l_pc l = LIn BIdle \<Longrightarrow>
    on_sched (run_in tid sl BIdle l) io = Inr io' \<Longrightarrow> manager_step ctl tick io io'"
| events: "io_legal tick op \<Longrightarrow> io_exec ctl op io = Inr io' \<Longrightarrow> manager_step ctl tick io io'"
| element: "fst e \<noteq> EvCtx tick \<Longrightarrow> idle_event ctl e io = Inr io' \<Longrightarrow> manager_step ctl tick io io'"
| timers: "tm_legal op (io_tm io) \<Longrightarrow> tm_exec op (io_tm io) = Inr (front, tm) \<Longrightarrow>
    manager_step ctl tick io
      ((if front then onTimerInsertedAtFront else id) (io\<lparr>io_tm := tm\<rparr>))"
| sched: "env_step (io_sw io) w \<Longrightarrow> on_sched (\<lambda>_. Inr w) io = Inr io' \<Longrightarrow> manager_step ctl tick io io'"

inductive_cases manager_stepE: "manager_step ctl tick io io'"

definition manager_inv :: "('k \<Rightarrow> int \<Rightarrow> u32 option) \<Rightarrow> int \<Rightarrow> ('cb, 'k) hps_IOManager \<Rightarrow> bool" where
  "manager_inv interest tick io \<longleftrightarrow>
     sched_inv (io_sw io) \<and> tm_inv (io_tm io) \<and> io_inv interest tick io"

lemma fires_inv:
  assumes "fires io io'" and "sched_inv (io_sw io)" and "tm_inv (io_tm io)"
  shows "sched_inv (io_sw io')" and "tm_inv (io_tm io')"
proof -
  from assms(1) obtain xs where xs: "io_tm io' = io_tm io" "list_all ft_full xs"
    "io_sw io' = upd_sched (\<lambda>s. s\<lparr>m_fibers := m_fibers s @ xs\<rparr>) (io_sw io)"
    by (auto simp: fires_def fired_def)
  with assms(2) show "sched_inv (io_sw io')"
    by (intro sched_inv_same [OF assms(2)]) (auto simp: sched_inv_def list_all_iff)
  from xs(1) assms(3) show "tm_inv (io_tm io')" by simp
qed

lemma on_sched_result:
  assumes "on_sched f io = Inr io'"
  shows "f (io_sw io) = Inr (io_sw io')" and "same_io io io'"
  using assms by (auto simp: on_sched_def same_io_def obind_eq_Inr)

lemma same_io_inv: "same_io io io' \<Longrightarrow> io_inv interest tick io \<Longrightarrow> io_inv interest tick io'"
  by (simp add: same_io_def io_inv_def)

lemma on_sched_inv:
  assumes "on_sched f io = Inr io'" and "manager_inv interest tick io"
    and "f (io_sw io) = Inr (io_sw io') \<Longrightarrow> sched_inv (io_sw io) \<Longrightarrow> sched_inv (io_sw io')"
  shows "manager_inv interest tick io'"
  using on_sched_result [OF assms(1)] assms(2,3) same_io_inv
  by (auto simp: manager_inv_def same_io_def)

lemma idle_round_sched:
  assumes r: "idle_round ctl now evs io = Inr io'" and "sched_inv (io_sw io)" and "tm_inv (io_tm io)"
  shows "sched_inv (io_sw io')" and "tm_inv (io_tm io')" and "sw_run (io_sw io') = sw_run (io_sw io)"
proof -
  from r obtain cbs tm io2 where exp: "listExpiredCb now [] (io_tm io) = Inr (cbs, tm)"
    and io2: "io2 = (if cbs \<noteq> [] then io_schedule_range (map FcCb cbs) (io\<lparr>io_tm := tm\<rparr>) else io\<lparr>io_tm := tm\<rparr>)"
    and evs: "ofold (idle_event ctl) evs io2 = Inr io'"
    by (auto simp: idle_round_def Let_def obind_eq_Inr)
  have "fires (io\<lparr>io_tm := tm\<rparr>) io2" by (simp add: io2)
  with idle_events_fire [OF evs] have f: "fires (io\<lparr>io_tm := tm\<rparr>) io'" by (blast intro: fires_trans)
  have "tm_inv tm" using listExpiredCb_cases(2) [OF assms(3) exp] .
  then show "sched_inv (io_sw io')" "tm_inv (io_tm io')" using fires_inv [OF f] assms(2) by simp_all
  show "sw_run (io_sw io') = sw_run (io_sw io)" using f by (auto simp: fires_def fired_def)
qed

lemma epoll_wait_answers:
  "list_all (from_kernel tick) answers \<Longrightarrow> epoll_wait_loop answers t = Some evs \<Longrightarrow> EvCtx tick \<notin> fst ` set evs"
  by (induction answers t rule: epoll_wait_loop.induct) (auto simp: from_kernel_def)

lemma IOManager_idle_inv:
  assumes doc: "documented_ctl ctl interest" and inv: "manager_inv interest tick io"
    and an: "list_all (from_kernel tick) answers" and r: "IOManager_idle ctl now1 now2 answers io = Inr (s, io')"
  shows "manager_inv interest tick io'" and "sw_run (io_sw io') = sw_run (io_sw io)"
proof -
  have head: "manager_inv interest tick (snd (idle_head now1 io))" "io_sw (snd (idle_head now1 io)) = io_sw io"
    using inv by (auto simp: idle_head_def IOManager_stopping_def manager_inv_def io_inv_def getNextTimer_same
        split: prod.split) (metis getNextTimer_same(1) snd_conv)+
  from r consider "io' = io" | "io' = snd (idle_head now1 io)"
    | t evs where "epoll_wait_loop answers t = Some evs" "idle_round ctl now2 evs (snd (idle_head now1 io)) = Inr io'"
    by (auto simp: IOManager_idle_def obind_eq_Inr split: prod.splits option.splits)
  note cs = this
  show "manager_inv interest tick io'"
    using cs
  proof cases
    case 3
    with head idle_round_sched [OF 3(2)] idle_round_inv [OF doc _ epoll_wait_answers [OF an 3(1)] 3(2)]
    show ?thesis by (simp add: manager_inv_def)
  qed (use inv head in simp_all)
  show "sw_run (io_sw io') = sw_run (io_sw io)"
    using cs
  proof cases
    case 3
    with head idle_round_sched(3) [OF 3(2)] show ?thesis by (simp add: manager_inv_def)
  qed (use head in simp_all)
qed

lemma worker_inv:
  assumes doc: "documented_ctl ctl interest" and inv: "manager_inv interest tick io"
    and an: "list_all (from_kernel tick) answers"
    and st: "io_step_thread ctl tid c sl now1 now2 answers io = Inr io'"
  shows "manager_inv interest tick io'"
proof -
  from st obtain l where l: "sw_run (io_sw io) tid = Some l" by (auto simp: io_step_thread_def outcome_simps)
  show ?thesis
  proof (cases "l_pc l = LIn BIdle")
    case True
    with st l obtain r io1 where i: "IOManager_idle ctl now1 now2 answers io = Inr (r, io1)"
      and out: "(case r of None \<Rightarrow> Inr io1 | Some s \<Rightarrow> on_sched (run_in tid s BIdle l) io1) = Inr io'"
      by (auto simp: io_step_thread_def outcome_simps)
    note i1 = IOManager_idle_inv [OF doc inv an i]
    show ?thesis
    proof (cases r)
      case None
      with out i1 show ?thesis by simp
    next
      case (Some s)
      with out have "on_sched (run_in tid s BIdle l) io1 = Inr io'" by simp
      then show ?thesis
        by (rule on_sched_inv [OF _ i1(1)]) (use run_in_inv [of "io_sw io1" tid l] l True i1(2) in simp)
    qed
  next
    case False
    with st l have "on_sched (step_thread tid c sl) io = Inr io'" by (simp add: io_step_thread_def)
    then show ?thesis
      by (rule on_sched_inv [OF _ inv]) (blast intro: sched_step_inv sched_step.advance)
  qed
qed

lemma manager_step_inv:
  assumes doc: "documented_ctl ctl interest" and inv: "manager_inv interest tick io"
    and st: "manager_step ctl tick io io'"
  shows "manager_inv interest tick io'"
proof -
  from inv have i: "sched_inv (io_sw io)" "tm_inv (io_tm io)" "io_inv interest tick io"
    by (simp_all add: manager_inv_def)
  from st show ?thesis
  proof (cases rule: manager_step.cases)
    case (worker answers tid c sl now1 now2)
    then show ?thesis by (blast intro: worker_inv [OF doc inv])
  next
    case (idle_out tid l sl)
    then show ?thesis by (blast intro: on_sched_inv [OF _ inv] run_in_inv)
  next
    case (events op)
    have "io_inv interest tick io'" using io_step_inv [OF doc i(3)] io_step.exec [OF events] by blast
    moreover have "sched_inv (io_sw io') \<and> tm_inv (io_tm io')"
      using events i
      by (cases op)
        (auto simp: obind_eq_Inr sched_inv_def dest!: addEvent_effect dest: fires_inv [OF delEvent_fires]
          fires_inv [OF cancelEvent_fires] fires_inv [OF cancelAll_fires] idle_round_sched(1,2))
    ultimately show ?thesis by (simp add: manager_inv_def)
  next
    case (element e)
    then show ?thesis
      using idle_event_inv [OF doc i(3)] fires_inv [OF idle_event_fires [OF element(2)] i(1,2)]
      by (simp add: manager_inv_def)
  next
    case (timers op front tm)
    then have "tm_inv tm" using tm_exec_inv [OF i(2)] by blast
    with timers i show ?thesis
      by (auto simp: manager_inv_def onTimerInsertedAtFront_def IOManager_tickle_def io_inv_def)
  next
    case (sched w)
    then show ?thesis
      by (intro on_sched_inv [OF sched(2) inv]) (auto dest: env_step_sched sched_step_inv)
  qed
qed

interpretation manager_runs: invariant_system
  "\<lambda>io. documented_ctl ctl interest \<longrightarrow> manager_inv interest tick io" "manager_step ctl tick"
  "\<lambda>io. documented_ctl ctl interest \<longrightarrow> manager_inv interest tick io" for ctl interest tick
  by unfold_locales (auto intro: manager_step_inv)

text \<open>The constructor, called where no thread is in \<open>run\<close> of this manager.\<close>

lemma Scheduler_start_fields:
  "Scheduler_start ids s = Inr s' \<Longrightarrow> m_fibers s' = m_fibers s \<and>
     m_activeThreadCount s' = m_activeThreadCount s \<and> m_idleThreadCount s' = m_idleThreadCount s"
  by (auto simp: Scheduler_start_def Let_def HPS_ASSERT_eq_Inr split: if_splits)

lemma IOManager_new_manager_inv:
  assumes doc: "documented_ctl ctl interest" and empty: "interest k = Map.empty" and run: "sw_run w = Map.empty"
    and r: "IOManager_new ctl opened tid other a r threads use_caller name now tick ids k w = Inr io"
  shows "manager_inv interest tick io"
proof -
  obtain rt k0 where k0: "ctl CTL_ADD tick (EPOLLIN OR EPOLLET) k = (rt, k0)"
    by (cases "ctl CTL_ADD tick (EPOLLIN OR EPOLLET) k")
  with r obtain w1 k1 io1 s where new: "Scheduler_new tid other a r threads use_caller name w = Inr w1"
    and c: "contextResize 32 \<lparr>io_sw = w1, io_tm = TimerManager_new now, io_pendingEventCount = 0,
              io_fdContexts = [], io_pipe = 0, io_kernel = k1\<rparr> = Inr io1"
    and s: "Scheduler_start ids (sw_sched (io_sw io1)) = Inr s" and io: "io = set_sched s io1"
    by (cases opened) (auto simp: IOManager_new_def Let_def outcome_simps)
  have io1: "io_sw io1 = w1" "io_tm io1 = TimerManager_new now"
    using c by (auto simp: contextResize_def Let_def split: if_splits)
  have "sched_start w1" using new run unfolding sched_start_def by blast
  then have "sched_inv w1" by (rule sched_start_inv)
  then have "sched_inv (io_sw io)"
    using Scheduler_start_fields [OF s] by (auto simp: io set_sched_def io1 sched_inv_def)
  moreover have "tm_inv (io_tm io)" by (simp add: io set_sched_def io1 tm_inv_new)
  ultimately show ?thesis using IOManager_new_inv [OF doc empty r] by (simp add: manager_inv_def)
qed

section \<open>When the idle loop ends\<close>

text \<open>
  Nothing is left: the manager was told to stop, nothing is queued, no thread has a task in
  hand, no timer is armed, no event is registered.
\<close>

definition nothing_left :: "('cb, 'k) hps_IOManager \<Rightarrow> bool" where
  "nothing_left io \<longleftrightarrow>
     m_autoStop (sw_sched (io_sw io)) \<and> m_stopping (sw_sched (io_sw io)) \<and> m_fibers (sw_sched (io_sw io)) = [] \<and>
     threads_that running_task (sw_run (io_sw io)) = {} \<and> tm_timers (io_tm io) = [] \<and>
     (\<forall>fd c. ctx_at fd io = Inr c \<longrightarrow> fd_events c = 0)"

lemma no_timer_armed:
  assumes "0 < now"
  shows "fst (getNextTimer now m) = u64_max \<longleftrightarrow> tm_timers m = []"
proof (cases "tm_timers m")
  case (Cons a ts)
  have "next_of (tm_objs m) a - now \<noteq> u64_max" if "now < next_of (tm_objs m) a"
  proof
    assume "next_of (tm_objs m) a - now = u64_max"
    then have "next_of (tm_objs m) a = now - 1" by (simp add: u64_max_def algebra_simps)
    moreover have "unat (now - 1) = unat now - 1" using assms by (intro unat_minus_one) simp
    ultimately show False using that by (simp add: word_less_nat_alt)
  qed
  then show ?thesis using Cons by (auto simp: getNextTimer_def u64_max_def Let_def split: if_splits)
qed (simp add: getNextTimer_def)

lemma stopping_in_run:
  assumes "sched_inv w" and "card (dom (sw_run w)) < 2 ^ 64"
  shows "stopping (sw_sched w) \<longleftrightarrow> m_autoStop (sw_sched w) \<and> m_stopping (sw_sched w) \<and>
    m_fibers (sw_sched w) = [] \<and> threads_that running_task (sw_run w) = {}"
  using assms num_zero [of "sw_run w" running_task] by (auto simp: sched_inv_def stopping_def)

lemma sum_list_zero: "(\<And>x. x \<in> set xs \<Longrightarrow> f x = 0) \<Longrightarrow> sum_list (map f xs) = (0 :: u64)"
  by (induction xs) simp_all

lemma no_event_pending:
  assumes "io_inv interest tick io"
  shows "io_pendingEventCount io = 0 \<longleftrightarrow> (\<forall>fd c. ctx_at fd io = Inr c \<longrightarrow> fd_events c = 0)"
proof
  have inv: "table_ok (io_fdContexts io)" "io_pendingEventCount io = pending_sum (io_fdContexts io)"
    using assms by (simp_all add: io_inv_def)
  show "\<forall>fd c. ctx_at fd io = Inr c \<longrightarrow> fd_events c = 0" if "io_pendingEventCount io = 0"
    using nothing_pending [OF inv(1)] that inv(2) ctx_at_InrD by metis
  assume none: "\<forall>fd c. ctx_at fd io = Inr c \<longrightarrow> fd_events c = 0"
  have "fd_events c = 0" if "Some c \<in> set (io_fdContexts io)" for c
  proof -
    from that obtain i where "i < length (io_fdContexts io)" "io_fdContexts io ! i = Some c"
      by (auto simp: in_set_conv_nth)
    then have "ctx_at (int i) io = Inr c" by (simp add: ctx_at_def)
    with none show ?thesis by blast
  qed
  then have "pending_sum (io_fdContexts io) = 0"
    unfolding pending_sum_def
    by (intro sum_list_zero) (auto simp: event_count_def split: option.splits)
  with inv(2) show "io_pendingEventCount io = 0" by simp
qed

lemma idle_head_ends: "fst (idle_head now io) = None \<longleftrightarrow> fst (snd (IOManager_stopping now io))"
proof -
  have again: "fst (getNextTimer now (snd (getNextTimer now m))) = fst (getNextTimer now m)" for m :: "'a fn hps_TimerManager"
    by (auto simp: getNextTimer_def Let_def split: list.splits)
  obtain t tm where "getNextTimer now (io_tm io) = (t, tm)" by (cases "getNextTimer now (io_tm io)")
  moreover from this have "fst (getNextTimer now tm) = t" using again [of "io_tm io"] by simp
  ultimately show ?thesis by (auto simp: idle_head_def IOManager_stopping_def split: prod.splits)
qed



end
