(* ===== verification/Hps_EventTurn.thy ===== *)
theory Hps_EventTurn
  imports Hps_ManagerRuns
begin

unbundle bit_operations_syntax

text \<open>
  A turn of the idle fiber in which \<open>epoll_wait\<close> reports descriptors: what the callbacks of the
  reported events are, that they are queued behind those of the due timers, and that the
  worker's next iterations run them all.
\<close>

section \<open>A reported event\<close>

text \<open>The entry \<open>triggerEvent\<close> makes of an event context.\<close>

definition event_entry :: "'cb hps_EventContext \<Rightarrow> 'cb hps_FiberAndThread" where
  "event_entry e = \<lparr>ft_fiber = (if ec_cb e \<noteq> None then None else ec_fiber e), ft_cb = ec_cb e, ft_thread = -1\<rparr>"

lemma event_entry_full: "ec_full e \<Longrightarrow> ft_full (event_entry e)"
  by (auto simp: event_entry_def ft_full_def ec_full_def)

definition ctx_entries :: "hps_Event \<Rightarrow> 'cb hps_FdContext \<Rightarrow> 'cb hps_FiberAndThread list" where
  "ctx_entries ev c = (if ev AND READ \<noteq> 0 then [event_entry (fd_read c)] else []) @
     (if ev AND WRITE \<noteq> 0 then [event_entry (fd_write c)] else [])"

definition ready_entries ::
  "('cb, 'k) hps_IOManager \<Rightarrow> ev_data \<times> u32 \<Rightarrow> 'cb hps_FiberAndThread list" where
  "ready_entries io e =
     (case fst e of
        EvTickle \<Rightarrow> []
      | EvCtx fd \<Rightarrow> (case ctx_at fd io of Inl _ \<Rightarrow> [] | Inr c \<Rightarrow> ctx_entries (real_events (snd e)) c))"

text \<open>
  What the kernel may report: the pipe, or a context some of whose events are ready; those were
  registered, by threads of the scheduler.
\<close>

definition reported_ctx :: "hps_Event \<Rightarrow> 'cb hps_FdContext \<Rightarrow> bool" where
  "reported_ctx ev c \<longleftrightarrow> ev \<noteq> 0 \<and>
     (ev AND READ \<noteq> 0 \<longrightarrow> fd_events c AND READ \<noteq> 0 \<and> ec_scheduler (fd_read c)) \<and>
     (ev AND WRITE \<noteq> 0 \<longrightarrow> fd_events c AND WRITE \<noteq> 0 \<and> ec_scheduler (fd_write c))"

definition reported :: "int \<Rightarrow> ('cb, 'k) hps_IOManager \<Rightarrow> ev_data \<times> u32 \<Rightarrow> bool" where
  "reported tick io e \<longleftrightarrow>
     (case fst e of
        EvTickle \<Rightarrow> True
      | EvCtx fd \<Rightarrow> fd \<noteq> tick \<and>
          (case ctx_at fd io of Inl _ \<Rightarrow> False | Inr c \<Rightarrow> reported_ctx (real_events (snd e)) c))"

text \<open>A kernel that never refuses to change or remove an interest it has recorded.\<close>

definition reliable_ctl :: "'k epoll_ctl \<Rightarrow> ('k \<Rightarrow> int \<Rightarrow> u32 option) \<Rightarrow> bool" where
  "reliable_ctl ctl interest \<longleftrightarrow>
     (\<forall>op fd ev k. op \<noteq> CTL_ADD \<and> interest k fd \<noteq> None \<longrightarrow> fst (ctl op fd ev k) = 0)"

lemma reliable_ok:
  assumes "reliable_ctl ctl interest" and "op \<noteq> CTL_ADD" and "interest k fd \<noteq> None"
  obtains k' where "ctl op fd ev k = (0, k')"
proof -
  have "fst (ctl op fd ev k) = 0" using assms unfolding reliable_ctl_def by blast
  with that show ?thesis by (cases "ctl op fd ev k") simp
qed

section \<open>Triggering\<close>

lemma triggerEvent_ok:
  assumes at: "ctx_at fd io = Inr c" and on: "fd_events c AND ev \<noteq> 0" and e: "getContext ev c = Inr e"
    and s: "ec_scheduler e" and full: "ec_full e"
  shows "\<exists>io' c'. triggerEvent fd ev io = Inr io' \<and> fired [event_entry e] io io' \<and>
    ctx_at fd io' = Inr c' \<and> fd_events c' = fd_events c AND NOT ev \<and>
    (ev = READ \<longrightarrow> fd_write c' = fd_write c) \<and> (\<forall>g. g \<noteq> fd \<longrightarrow> ctx_at g io' = ctx_at g io)"
proof -
  note d = ctx_at_InrD [OF at]
  let ?c1 = "c\<lparr>fd_events := fd_events c AND NOT ev\<rparr>"
  have get: "getContext ev ?c1 = Inr e" using e by (auto simp: getContext_def split: if_splits)
  let ?ft = "event_entry e"
  let ?c2 = "putContext ev ((if ec_cb e \<noteq> None then e\<lparr>ec_cb := None\<rparr> else e\<lparr>ec_fiber := None\<rparr>)\<lparr>ec_scheduler := False\<rparr>) ?c1"
  let ?io' = "io_schedule ?ft (put_ctx fd ?c2 io)"
  have "?ft = (if ec_cb e \<noteq> None then fst (FiberAndThread_swap (FcCb (ec_cb e)) (-1))
      else fst (FiberAndThread_swap (FcFiber (ec_fiber e)) (-1)))"
    by (simp add: event_entry_def)
  then have 1: "triggerEvent fd ev io = Inr ?io'"
    using at on get s by (simp add: triggerEvent_def Let_def)
  have "fired (filter ft_full [?ft]) (put_ctx fd ?c2 io) ?io'" by (rule io_schedule_fired)
  then have 2: "fired [?ft] io ?io'" using event_entry_full [OF full] by simp
  have 3: "ctx_at fd ?io' = Inr ?c2" using d by (simp add: ctx_at_def)
  have 4: "ctx_at g ?io' = ctx_at g io" if "g \<noteq> fd" for g
  proof (cases "0 \<le> g")
    case True
    with that d(1) have "nat g \<noteq> nat fd" by simp
    then show ?thesis by (simp add: ctx_at_def)
  qed (simp add: ctx_at_def)
  show ?thesis using 1 2 3 4 by (intro exI [of _ ?io'] exI [of _ ?c2]) (simp add: putContext_def)
qed

lemma trigger_if_ok:
  assumes at: "ctx_at fd io = Inr c" and e: "getContext ev c = Inr e"
    and b: "b \<Longrightarrow> fd_events c AND ev \<noteq> 0 \<and> ec_scheduler e \<and> ec_full e"
  shows "\<exists>io' c'. trigger_if b fd ev io = Inr io' \<and> fired (if b then [event_entry e] else []) io io' \<and>
    ctx_at fd io' = Inr c' \<and> fd_events c' = (if b then fd_events c AND NOT ev else fd_events c) \<and>
    (ev = READ \<longrightarrow> fd_write c' = fd_write c) \<and> (\<forall>g. g \<noteq> fd \<longrightarrow> ctx_at g io' = ctx_at g io)"
proof (cases b)
  case True
  with b triggerEvent_ok [OF at _ e] show ?thesis by (fastforce simp: trigger_if_def)
next
  case False
  with at show ?thesis by (simp add: trigger_if_def fired_Nil)
qed

lemma idle_event_ok:
  assumes doc: "reliable_ctl ctl interest" and inv: "io_inv interest tick io"
    and at: "ctx_at fd io = Inr c" and fd: "fd \<noteq> tick" and rep: "reported_ctx (real_events m) c"
  shows "\<exists>io' c'. idle_event ctl (EvCtx fd, m) io = Inr io' \<and> fired (ctx_entries (real_events m) c) io io' \<and>
    ctx_at fd io' = Inr c' \<and> fd_events c' = fd_events c AND NOT (real_events m) \<and>
    (\<forall>g. g \<noteq> fd \<longrightarrow> ctx_at g io' = ctx_at g io)"
proof -
  let ?real = "real_events m"
  let ?left = "fd_events c AND NOT ?real"
  have c: "ctx_ok c" "fd_fd c = fd" using table_ok_at [OF _ at] inv by (auto simp: io_inv_def)
  have masks: "event_mask ?real" "event_mask (fd_events c)"
    using c(1) real_events_mask by (simp_all add: ctx_ok_def)
  have on: "fd_events c AND ?real \<noteq> 0" "fd_events c \<noteq> 0"
    using masks rep by (auto simp: event_mask_def reported_ctx_def event_consts)
  have full: "?real AND READ \<noteq> 0 \<Longrightarrow> ec_full (fd_read c)" "?real AND WRITE \<noteq> 0 \<Longrightarrow> ec_full (fd_write c)"
    using c(1) rep by (auto simp: ctx_ok_def reported_ctx_def)
  have known: "interest (io_kernel io) fd \<noteq> None"
    using inv fd on(2) ctx_at_InrD [OF at] by (auto simp: io_inv_def interest_of_def wanted_def)
  obtain k where k: "ctl (if ?left \<noteq> 0 then CTL_MOD else CTL_DEL) fd (EPOLLET OR ?left) (io_kernel io) = (0, k)"
    by (rule reliable_ok [OF doc _ known, of "if ?left \<noteq> 0 then CTL_MOD else CTL_DEL"]) simp_all
  let ?io1 = "io\<lparr>io_kernel := k\<rparr>"
  have at1: "ctx_at fd ?io1 = Inr c" using at by simp
  from trigger_if_ok [OF at1, of READ "fd_read c" "?real AND READ \<noteq> 0"] full(1) rep obtain io2 c2 where
    2: "trigger_if (?real AND READ \<noteq> 0) fd READ ?io1 = Inr io2" "ctx_at fd io2 = Inr c2" "fd_write c2 = fd_write c"
      "fired (if ?real AND READ \<noteq> 0 then [event_entry (fd_read c)] else []) ?io1 io2"
      "fd_events c2 = (if ?real AND READ \<noteq> 0 then fd_events c AND NOT READ else fd_events c)"
      "\<And>g. g \<noteq> fd \<Longrightarrow> ctx_at g io2 = ctx_at g ?io1"
    by (auto simp: getContext_def reported_ctx_def)
  have w: "fd_events c2 AND WRITE \<noteq> 0" if "?real AND WRITE \<noteq> 0"
    using that rep masks(2) 2(5) by (auto simp: reported_ctx_def event_mask_def event_consts split: if_splits)
  from trigger_if_ok [OF 2(2), of WRITE "fd_write c" "?real AND WRITE \<noteq> 0"] full(2) rep w 2(3) obtain io3 c3 where
    3: "trigger_if (?real AND WRITE \<noteq> 0) fd WRITE io2 = Inr io3" "ctx_at fd io3 = Inr c3"
      "fired (if ?real AND WRITE \<noteq> 0 then [event_entry (fd_write c)] else []) io2 io3"
      "fd_events c3 = (if ?real AND WRITE \<noteq> 0 then fd_events c2 AND NOT WRITE else fd_events c2)"
      "\<And>g. g \<noteq> fd \<Longrightarrow> ctx_at g io3 = ctx_at g io2"
    by (auto simp: getContext_def reported_ctx_def event_consts)
  have "idle_event ctl (EvCtx fd, m) io = Inr io3"
    using at on(1) k 2(1) 3(1) c(2) by (simp add: idle_event_def Let_def NONE_def)
  moreover have "fired (ctx_entries ?real c) io io3"
    using fired_append [OF 2(4) 3(3)] by (simp add: ctx_entries_def)
  moreover have "fd_events c3 = ?left"
    using masks by (auto simp: 3(4) 2(5) event_mask_def event_consts split: if_splits)
  ultimately show ?thesis using 3(2,5) 2(6) by (intro exI [of _ io3] exI [of _ c3]) simp
qed

section \<open>The array of epoll_wait\<close>

lemma same_contexts:
  assumes "\<And>g. EvCtx g \<in> fst ` set evs \<Longrightarrow> ctx_at g io' = ctx_at g io"
  shows "map (ready_entries io') evs = map (ready_entries io) evs"
    and "list_all (reported tick io') evs = list_all (reported tick io) evs"
proof -
  have "ready_entries io' e = ready_entries io e" "reported tick io' e = reported tick io e" if "e \<in> set evs" for e
  proof -
    have "ctx_at g io' = ctx_at g io" if "fst e = EvCtx g" for g
      using \<open>e \<in> set evs\<close> that assms by (metis image_eqI)
    then show "ready_entries io' e = ready_entries io e" "reported tick io' e = reported tick io e"
      by (simp_all add: ready_entries_def reported_def split: ev_data.split)
  qed
  then show "map (ready_entries io') evs = map (ready_entries io) evs"
    and "list_all (reported tick io') evs = list_all (reported tick io) evs"
    by (simp_all cong: list.map_cong list.pred_cong)
qed

text \<open>The events registered on a descriptor, and those an array reports for it.\<close>

definition registered :: "('cb, 'k) hps_IOManager \<Rightarrow> int \<Rightarrow> hps_Event" where
  "registered io fd = (case ctx_at fd io of Inl _ \<Rightarrow> 0 | Inr c \<Rightarrow> fd_events c)"

definition reported_events :: "(ev_data \<times> u32) list \<Rightarrow> int \<Rightarrow> hps_Event" where
  "reported_events evs fd = (case map_of evs (EvCtx fd) of None \<Rightarrow> 0 | Some m \<Rightarrow> real_events m)"

lemma ctx_at_pipe [simp]: "ctx_at g (io\<lparr>io_pipe := p\<rparr>) = ctx_at g io"
  by (simp add: ctx_at_def)

lemma ctx_at_same: "io_fdContexts io' = io_fdContexts io \<Longrightarrow> ctx_at g io' = ctx_at g io"
  unfolding ctx_at_def by presburger

lemma registered_same: "io_fdContexts io' = io_fdContexts io \<Longrightarrow> registered io' = registered io"
  unfolding registered_def fun_eq_iff using ctx_at_same [of io' io] by presburger

lemma idle_events_ok:
  assumes doc: "documented_ctl ctl interest" and rel: "reliable_ctl ctl interest"
    and "io_inv interest tick io" and "distinct (map fst evs)" and "list_all (reported tick io) evs"
  shows "\<exists>io'. ofold (idle_event ctl) evs io = Inr io' \<and>
    fired (concat (map (ready_entries io) evs)) io io' \<and> io_inv interest tick io' \<and>
    (\<forall>fd. registered io' fd = registered io fd AND NOT (reported_events evs fd))"
  using assms(3-5)
proof (induction evs arbitrary: io)
  case Nil
  then show ?case by (simp add: fired_Nil reported_events_def)
next
  case (Cons e evs)
  obtain x m where e: "e = (x, m)" by fastforce
  show ?case
  proof (cases x)
    case EvTickle
    let ?io1 = "io\<lparr>io_pipe := 0\<rparr>"
    have 1: "idle_event ctl e io = Inr ?io1" "io_inv interest tick ?io1"
      using e EvTickle Cons.prems(1) by (simp_all add: idle_event_def io_inv_def)
    note same = same_contexts [of evs ?io1 io, OF ctx_at_pipe]
    have f: "fired xs ?io1 io' = fired xs io io'" for xs and io' by (simp add: fired_def)
    have "registered ?io1 = registered io" "ready_entries io e = []"
      "reported_events (e # evs) = reported_events evs"
      by (simp_all add: registered_def ready_entries_def reported_events_def e EvTickle fun_eq_iff)
    with Cons.IH [OF 1(2)] Cons.prems(2,3) same 1(1) f show ?thesis by simp
  next
    case (EvCtx fd)
    then obtain c where c: "ctx_at fd io = Inr c" "fd \<noteq> tick" "reported_ctx (real_events m) c"
      using Cons.prems(3) e by (auto simp: reported_def split: sum.splits)
    from idle_event_ok [OF rel Cons.prems(1) this] obtain io1 c1 where
      1: "idle_event ctl (EvCtx fd, m) io = Inr io1" "fired (ctx_entries (real_events m) c) io io1"
        "ctx_at fd io1 = Inr c1" "fd_events c1 = fd_events c AND NOT (real_events m)"
        "\<And>g. g \<noteq> fd \<Longrightarrow> ctx_at g io1 = ctx_at g io" by blast
    have inv1: "io_inv interest tick io1" by (rule idle_event_inv [OF doc Cons.prems(1) _ 1(1)]) (use c in simp)
    have new: "EvCtx fd \<notin> fst ` set evs" using Cons.prems(2) e EvCtx by simp
    have "ctx_at g io1 = ctx_at g io" if "EvCtx g \<in> fst ` set evs" for g
      using 1(5) [of g] that new by (cases "g = fd") simp_all
    note same = same_contexts [OF this]
    have "list_all (reported tick io1) evs" "distinct (map fst evs)" using Cons.prems(2,3) same(2) by simp_all
    with Cons.IH [OF inv1] same(1) obtain io' where
      2: "ofold (idle_event ctl) evs io1 = Inr io'" "fired (concat (map (ready_entries io) evs)) io1 io'"
        "io_inv interest tick io'" "\<And>g. registered io' g = registered io1 g AND NOT (reported_events evs g)" by auto
    have none: "reported_events evs fd = 0"
      using new map_of_eq_None_iff [of evs "EvCtx fd"] by (simp add: reported_events_def)
    have "registered io' g = registered io g AND NOT (reported_events (e # evs) g)" for g
      using 1(3-5) 2(4) [of g] c(1) none
      by (cases "g = fd") (simp_all add: registered_def reported_events_def e EvCtx)
    moreover have "fired (concat (map (ready_entries io) (e # evs))) io io'"
      using fired_append [OF 1(2) 2(2)] c(1) by (simp add: ready_entries_def e EvCtx)
    ultimately show ?thesis using 1(1) 2(1,3) e EvCtx by auto
  qed
qed

section \<open>The turn, and the iterations after it\<close>

lemma event_turn:
  assumes run: "\<not> stopping (sw_sched (io_sw io))" and wait: "epoll_wait_loop answers 0 = Some evs"
    and full: "list_all (\<lambda>cb. cb \<noteq> None) cbs"
    and exp: "listExpiredCb now2 [] (snd (getNextTimer now1 (io_tm io))) = Inr (cbs, tm)"
    and doc: "documented_ctl ctl interest" and rel: "reliable_ctl ctl interest"
    and inv: "io_inv interest tick io" and evs: "distinct (map fst evs)" "list_all (reported tick io) evs"
  shows "\<exists>io'. IOManager_idle ctl now1 now2 answers io = Inr (Some SOut, io') \<and>
    io_sw io' = upd_sched (\<lambda>s. s\<lparr>m_fibers := m_fibers s @ map poll_entry cbs @
      concat (map (ready_entries io) evs)\<rparr>) (io_sw io) \<and>
    io_tm io' = tm \<and> io_inv interest tick io' \<and>
    (\<forall>fd. registered io' fd = registered io fd AND NOT (reported_events evs fd))"
proof -
  let ?io1 = "io\<lparr>io_tm := snd (getNextTimer now1 (io_tm io))\<rparr>"
  have head: "idle_head now1 io = (Some 0, ?io1)"
    using run by (auto simp: idle_head_def IOManager_stopping_def split: prod.split)
  let ?io2 = "io\<lparr>io_tm := tm\<rparr>"
  define io3 where "io3 = (if cbs \<noteq> [] then io_schedule_range (map FcCb cbs) ?io2 else ?io2)"
  have "filter ft_full (map (\<lambda>fc. FiberAndThread_new fc (-1)) (map FcCb cbs)) = map poll_entry cbs"
    using full by (induction cbs) (auto simp: ft_full_def poll_entry_def fc_empty_def)
  then have f3: "fired (map poll_entry cbs) ?io2 io3"
    using io_schedule_range_fired [of "map FcCb cbs" ?io2] by (auto simp: io3_def fired_Nil)
  have at: "ctx_at g io3 = ctx_at g io" for g by (rule ctx_at_same) (simp add: io3_def)
  have inv3: "io_inv interest tick io3" using inv by (simp add: io3_def io_inv_def)
  note same = same_contexts [of evs io3 io, OF at]
  have "list_all (reported tick io3) evs" using evs(2) same(2) by simp
  from idle_events_ok [OF doc rel inv3 evs(1) this] obtain io' where
    e: "ofold (idle_event ctl) evs io3 = Inr io'" "fired (concat (map (ready_entries io) evs)) io3 io'"
      "io_inv interest tick io'" "\<forall>fd. registered io' fd = registered io3 fd AND NOT (reported_events evs fd)"
    using same(1) by auto
  have "idle_round ctl now2 evs ?io1 = Inr io'"
    using exp e(1) by (simp add: idle_round_def Let_def io3_def)
  then have "IOManager_idle ctl now1 now2 answers io = Inr (Some SOut, io')"
    by (simp add: IOManager_idle_def head wait)
  moreover have "registered io3 = registered io" by (rule registered_same) (simp add: io3_def)
  moreover have "fired (map poll_entry cbs @ concat (map (ready_entries io) evs)) ?io2 io'"
    by (rule fired_append [OF f3 e(2)])
  ultimately show ?thesis using e(3,4) by (auto simp: fired_def)
qed


text \<open>The worker of Hps_IdleLoop, with a callback registered for reading descriptor 1.\<close>

definition event_io :: "(nat, int \<Rightarrow> u32 option) hps_IOManager" where
  "event_io = idle_io\<lparr>io_pendingEventCount := 1, io_kernel := [1 \<mapsto> EPOLLET OR READ],
     io_fdContexts := [Some (FdContext_new 0),
       Some ((FdContext_new 1)\<lparr>fd_read := \<lparr>ec_scheduler = True, ec_fiber = None, ec_cb = Some (FnUser 3)\<rparr>,
         fd_events := READ\<rparr>)]\<rparr>"

lemma event_io_inv: "io_inv id 99 event_io"
  by (auto simp: io_inv_def event_io_def idle_io_def demo_io_def table_ok_def pending_sum_def interest_of_def
      wanted_def event_count_def less_2_cases_iff FdContext_new_ok nth_Cons ctx_ok_def event_mask_def event_consts
      ec_full_def ec_empty_def FdContext_new_def EventContext_empty_def split: nat.splits)

lemma event_io_parts:
  "io_sw event_io = io_sw idle_io" "io_tm event_io = idle_timers"
  "ctx_at 1 event_io = Inr ((FdContext_new 1)\<lparr>fd_read :=
     \<lparr>ec_scheduler = True, ec_fiber = None, ec_cb = Some (FnUser 3)\<rparr>, fd_events := READ\<rparr>)"
  by (simp_all add: event_io_def idle_io_def ctx_at_def)

lemma demo_ctl_reliable: "reliable_ctl demo_ctl id"
  by (auto simp: reliable_ctl_def demo_ctl_def split: ctl_op.splits)

lemma idle_io_ready:
  "worker_with parked 7 6 1 (io_sw idle_io)" "m_fibers (sw_sched (io_sw idle_io)) = []"
  "\<not> stopping (sw_sched (io_sw idle_io))" "tm_inv idle_timers"
  "is_ok (listExpiredCb 10 [] (snd (getNextTimer 9 idle_timers)))"
  "list_all (\<lambda>a. 10 \<le> next_of (tm_objs idle_timers) a) (tm_timers idle_timers)"
  "due_timers 10 idle_timers = [1]"
proof -
  show "tm_inv idle_timers"
    by (auto simp: tm_inv_def idle_timers_def concordant_def armed_def next_of_def split: if_splits)
qed (simp_all add: idle_io_def worker_with_def parked_def stopping_def idle_fiber_def top_local_def demo_sched_def
    Scheduler_fields_def idle_timers_def getNextTimer_def listExpiredCb_def expire_one_def next_of_def Let_def
    is_ok_iff due_timers_def)


end
