(* ===== verification/Hps_LogFormatter.thy ===== *)
theory Hps_LogFormatter
  imports Hps_Prelude
begin

text \<open>
  hps_sf/log.h and hps_sf/log.cpp, first part: levels, events, the format items and the
  parser of log patterns (\<open>hps_LogFormatter::init\<close>), with its index arithmetic as written.
  \<open>strftime\<close> with \<open>localtime_r\<close> is a parameter of the rendering.
\<close>

section \<open>Levels\<close>

text \<open>\<open>enum Level\<close>: a number, because the code also casts 100 to it.\<close>

type_synonym Level = nat

definition UNKNOW :: Level where "UNKNOW = 0"
definition DEBUG :: Level where "DEBUG = 1"
definition INFO :: Level where "INFO = 2"
definition WARN :: Level where "WARN = 3"
definition ERROR :: Level where "ERROR = 4"
definition FATAL :: Level where "FATAL = 5"

lemmas level_defs = UNKNOW_def DEBUG_def INFO_def WARN_def ERROR_def FATAL_def

definition LogLevel_ToString :: "Level \<Rightarrow> string" where
  "LogLevel_ToString l =
     (if l = DEBUG then ''DEBUG''
      else if l = INFO then ''INFO''
      else if l = WARN then ''WARN''
      else if l = ERROR then ''ERROR''
      else if l = FATAL then ''FATAL''
      else ''UNKNOW'')"

definition LogLevel_FromString :: "string \<Rightarrow> Level" where
  "LogLevel_FromString s =
     (if s = ''debug'' then DEBUG
      else if s = ''info'' then INFO
      else if s = ''warn'' then WARN
      else if s = ''error'' then ERROR
      else if s = ''fatal'' then FATAL
      else if s = ''DEBUG'' then DEBUG
      else if s = ''INFO'' then INFO
      else if s = ''WARN'' then WARN
      else if s = ''ERROR'' then ERROR
      else if s = ''FATAL'' then FATAL
      else UNKNOW)"

section \<open>Events\<close>

record hps_LogEvent =
  le_file :: string
  le_line :: int
  le_elapse :: u32
  le_threadId :: u32
  le_fiberId :: u32
  le_time :: u64
  le_threadName :: string
  le_content :: string
  le_loggerName :: string
  le_level :: Level

text \<open>
  The event the macro \<open>HPS_LOG_LEVEL\<close> builds: where the milliseconds since the start belong
  it passes \<open>GetFiberId()\<close>.
\<close>

definition LOG_LEVEL_event ::
  "string \<Rightarrow> Level \<Rightarrow> string \<Rightarrow> int \<Rightarrow> u32 \<Rightarrow> u32 \<Rightarrow> u64 \<Rightarrow> string \<Rightarrow> string \<Rightarrow> hps_LogEvent" where
  "LOG_LEVEL_event logger level file line fiberId threadId time threadName content =
     \<lparr>le_file = file, le_line = line, le_elapse = fiberId, le_threadId = threadId, le_fiberId = fiberId,
      le_time = time, le_threadName = threadName, le_content = content, le_loggerName = logger,
      le_level = level\<rparr>"

section \<open>Format items\<close>

datatype FormatItem =
    MessageFormatItem | LevelFormatItem | ElapseFormatItem | NameFormatItem | ThreadIdFormatItem
  | NewLineFormatItem | DateTimeFormatItem string | FilenameFormatItem | LineFormatItem
  | TabFormatItem | FiberIdFormatItem | ThreadNameFormatItem | StringFormatItem string

text \<open>\<open>os << n\<close> for an unsigned and a signed number: decimal digits.\<close>

fun show_nat :: "nat \<Rightarrow> string" where
  "show_nat n = (if n < 10 then [char_of (n + 48)] else show_nat (n div 10) @ [char_of (n mod 10 + 48)])"

declare show_nat.simps [simp del]

definition show_int :: "int \<Rightarrow> string" where
  "show_int i = (if i < 0 then CHR ''-'' # show_nat (nat (- i)) else show_nat (nat i))"

definition DateTime_default :: string where
  "DateTime_default = ''%Y-%m-%d %H:%M:%S''"

text \<open>The constructor of the date item replaces an empty format.\<close>

definition DateTimeFormatItem_new :: "string \<Rightarrow> FormatItem" where
  "DateTimeFormatItem_new fmt = DateTimeFormatItem (if fmt = [] then DateTime_default else fmt)"

fun FormatItem_format :: "(string \<Rightarrow> u64 \<Rightarrow> string) \<Rightarrow> Level \<Rightarrow> hps_LogEvent \<Rightarrow> FormatItem \<Rightarrow> string" where
  "FormatItem_format strftime level e MessageFormatItem = le_content e"
| "FormatItem_format strftime level e LevelFormatItem = LogLevel_ToString level"
| "FormatItem_format strftime level e ElapseFormatItem = show_nat (unat (le_elapse e))"
| "FormatItem_format strftime level e NameFormatItem = le_loggerName e"
| "FormatItem_format strftime level e ThreadIdFormatItem = show_nat (unat (le_threadId e))"
| "FormatItem_format strftime level e FiberIdFormatItem = show_nat (unat (le_fiberId e))"
| "FormatItem_format strftime level e ThreadNameFormatItem = le_threadName e"
| "FormatItem_format strftime level e (DateTimeFormatItem fmt) = strftime fmt (le_time e)"
| "FormatItem_format strftime level e FilenameFormatItem = le_file e"
| "FormatItem_format strftime level e LineFormatItem = show_int (le_line e)"
| "FormatItem_format strftime level e NewLineFormatItem = [CHR 0x0A]"
| "FormatItem_format strftime level e (StringFormatItem s) = s"
| "FormatItem_format strftime level e TabFormatItem = [CHR 0x09]"

text \<open>The table \<open>s_format_items\<close>.\<close>

definition s_format_items :: "string \<Rightarrow> (string \<Rightarrow> FormatItem) option" where
  "s_format_items s =
     (if s = ''m'' then Some (\<lambda>_. MessageFormatItem)
      else if s = ''p'' then Some (\<lambda>_. LevelFormatItem)
      else if s = ''r'' then Some (\<lambda>_. ElapseFormatItem)
      else if s = ''c'' then Some (\<lambda>_. NameFormatItem)
      else if s = ''t'' then Some (\<lambda>_. ThreadIdFormatItem)
      else if s = ''n'' then Some (\<lambda>_. NewLineFormatItem)
      else if s = ''d'' then Some DateTimeFormatItem_new
      else if s = ''f'' then Some (\<lambda>_. FilenameFormatItem)
      else if s = ''l'' then Some (\<lambda>_. LineFormatItem)
      else if s = ''T'' then Some (\<lambda>_. TabFormatItem)
      else if s = ''F'' then Some (\<lambda>_. FiberIdFormatItem)
      else if s = ''N'' then Some (\<lambda>_. ThreadNameFormatItem)
      else None)"

section \<open>The pattern parser\<close>

text \<open>\<open>isalpha\<close> in the C locale; \<open>substr\<close> clips its length at the end.\<close>

definition isalpha :: "char \<Rightarrow> bool" where
  "isalpha c \<longleftrightarrow> (let n = of_char c :: nat in (65 \<le> n \<and> n \<le> 90) \<or> (97 \<le> n \<and> n \<le> 122))"

definition substr :: "string \<Rightarrow> nat \<Rightarrow> nat \<Rightarrow> string" where
  "substr p pos len = take len (drop pos p)"

text \<open>
  The inner loop: \<open>n\<close>, \<open>fmt_status\<close>, \<open>fmt_begin\<close>, \<open>str\<close>, \<open>fmt\<close> are its variables, \<open>i\<close> the
  position of the percent sign; the result is their values when it ends.
\<close>

function scan ::
  "string \<Rightarrow> nat \<Rightarrow> nat \<Rightarrow> bool \<Rightarrow> nat \<Rightarrow> string \<Rightarrow> string \<Rightarrow> nat \<times> bool \<times> string \<times> string" where
  "scan p i n fmt_status fmt_begin str fmt =
     (if n < length p then
        if \<not> fmt_status \<and> \<not> isalpha (p ! n) \<and> p ! n \<noteq> CHR ''{'' \<and> p ! n \<noteq> CHR ''}'' then
          (n, fmt_status, substr p (i + 1) (n - i - 1), fmt)
        else if \<not> fmt_status \<and> p ! n = CHR ''{'' then
          scan p i (n + 1) True n (substr p (i + 1) (n - i - 1)) fmt
        else if fmt_status \<and> p ! n = CHR ''}'' then
          (n + 1, False, str, substr p (fmt_begin + 1) (n - fmt_begin - 1))
        else
          scan p i (n + 1) fmt_status fmt_begin
            (if n + 1 = length p \<and> str = [] then drop (i + 1) p else str) fmt
      else (n, fmt_status, str, fmt))"
  by pat_completeness auto
termination
  by (relation "measure (\<lambda>(p, i, n, _). length p - n)") auto

declare scan.simps [simp del]

text \<open>The tuples of \<open>vec\<close>: text, format, and 0 for text or 1 for an item.\<close>

type_synonym vec_entry = "string \<times> string \<times> nat"

definition flush :: "string \<Rightarrow> vec_entry list" where
  "flush nstr = (if nstr \<noteq> [] then [(nstr, [], 0)] else [])"

text \<open>
  The outer loop from position \<open>i\<close>: what it still appends to \<open>vec\<close> (with the last flush), and
  whether it sets \<open>m_error\<close>. A position never moves back: the fuel is the rest of the pattern.
\<close>

lemma scan_advances: "n \<le> length p \<Longrightarrow> n \<le> fst (scan p i n st fb s f) \<and> fst (scan p i n st fb s f) \<le> length p"
proof (induction p i n st fb s f rule: scan.induct)
  case (1 p i n st fb s f)
  then show ?case by (subst (1 2) scan.simps) (auto simp: Let_def)
qed

function parse_from :: "string \<Rightarrow> nat \<Rightarrow> string \<Rightarrow> vec_entry list \<times> bool" where
  "parse_from p i nstr =
     (if i < length p then
        if p ! i \<noteq> CHR ''%'' then parse_from p (i + 1) (nstr @ [p ! i])
        else if i + 1 < length p \<and> p ! (i + 1) = CHR ''%'' then
          parse_from p (i + 1) (nstr @ [p ! (i + 1)])
        else
          let r = scan p i (i + 1) False 0 [] [];
              n = fst r; fmt_status = fst (snd r); str = fst (snd (snd r)); fmt = snd (snd (snd r)) in
          if \<not> fmt_status then
            (case parse_from p n [] of (vec, err) \<Rightarrow> (flush nstr @ (str, fmt, 1) # vec, err))
          else
            (case parse_from p (i + 1) nstr of (vec, err) \<Rightarrow> ((''<<pattern_error>>'', fmt, 0) # vec, True))
      else (flush nstr, False))"
  by pat_completeness auto
termination
proof (relation "measure (\<lambda>(p, i, nstr). length p - i)", goal_cases)
  case (4 p i nstr r n fmt_status str fmt)
  then have "i + 1 \<le> n" using scan_advances [of "i + 1" p i False 0 "[]" "[]"] by simp
  with 4 show ?case by simp
qed auto

declare parse_from.simps [simp del]

text \<open>From the tuples to the items; an unknown name becomes a text and an error.\<close>

definition item_of :: "vec_entry \<Rightarrow> FormatItem \<times> bool" where
  "item_of v = (case v of (str, fmt, kind) \<Rightarrow>
     if kind = 0 then (StringFormatItem str, False)
     else (case s_format_items str of
             None \<Rightarrow> (StringFormatItem (''<<error_format %'' @ str @ ''>>''), True)
           | Some mk \<Rightarrow> (mk fmt, False)))"

record hps_LogFormatter =
  lf_pattern :: string
  lf_items :: "FormatItem list"
  lf_error :: bool

definition LogFormatter_new :: "string \<Rightarrow> hps_LogFormatter" where
  "LogFormatter_new p =
     (case parse_from p 0 [] of (vec, err) \<Rightarrow>
        \<lparr>lf_pattern = p, lf_items = map (fst \<circ> item_of) vec,
         lf_error = (err \<or> list_ex (snd \<circ> item_of) vec)\<rparr>)"

text \<open>The pattern in the constructor of \<open>hps_Logger\<close>.\<close>

definition default_pattern :: string where
  "default_pattern = ''%d{%Y-%m-%d %H:%M:%S}%T%t%T%T%N%T%F%T[%p]%T[%c]%T%f:%l%T%m%n''"

definition LogFormatter_format ::
  "(string \<Rightarrow> u64 \<Rightarrow> string) \<Rightarrow> Level \<Rightarrow> hps_LogEvent \<Rightarrow> hps_LogFormatter \<Rightarrow> string" where
  "LogFormatter_format strftime level e f = concat (map (FormatItem_format strftime level e) (lf_items f))"

end
