(* ===== verification/Hps_LogFormatterClaims.thy ===== *)
theory Hps_LogFormatterClaims
  imports Hps_LogFormatter
begin

text \<open>
  Lemmas and properties of the log patterns: what the inner loop returns on an item, the
  reference printer of item lists with its round trip, the pattern every logger starts with,
  and the escape \<open>%%\<close>.
\<close>

section \<open>The inner loop on one item\<close>

definition ends_name :: "string \<Rightarrow> bool" where
  "ends_name rest = (case rest of [] \<Rightarrow> True
     | c # _ \<Rightarrow> \<not> isalpha c \<and> c \<noteq> CHR ''{'' \<and> c \<noteq> CHR ''}'')"

lemma isalpha_percent [simp]:
  "\<not> isalpha (CHR ''%'')" "\<not> isalpha (CHR ''{'')" "\<not> isalpha (CHR ''}'')"
  by (simp_all add: isalpha_def)

lemma nth_at [simp]:
  "(pre @ a # xs) ! length pre = a"
  "(pre @ a # b # xs) ! Suc (length pre) = b"
  "(pre @ a # b # c # xs) ! Suc (Suc (length pre)) = c"
  by (simp_all add: nth_append)

lemma drop_at [simp]:
  "drop (Suc (length pre)) (pre @ a # xs) = xs"
  "drop (Suc (Suc (length pre))) (pre @ a # b # xs) = xs"
  by (simp_all add: drop_append)

lemma scan_name:
  assumes "isalpha c" and "ends_name rest"
  shows "scan (pre @ CHR ''%'' # c # rest) (length pre) (Suc (length pre)) False 0 [] []
    = (length pre + 2, False, [c], [])"
proof (cases rest)
  case Nil
  have "c \<noteq> CHR ''{''" "c \<noteq> CHR ''}''" using assms(1) by auto
  then show ?thesis
    using assms(1) Nil by (subst scan.simps) (simp, subst scan.simps, simp)
next
  case (Cons d ds)
  have "c \<noteq> CHR ''{''" "c \<noteq> CHR ''}''" using assms(1) by auto
  then show ?thesis
    using assms Cons
    by (subst scan.simps) (simp, subst scan.simps, simp add: ends_name_def substr_def)
qed

lemma scan_format:
  assumes "CHR ''}'' \<notin> set fmt" and "str \<noteq> []"
  shows "scan (pre @ fmt @ CHR ''}'' # rest) i (length pre) True fb str []
    = (length pre + length fmt + 1, False, str,
       substr (pre @ fmt @ CHR ''}'' # rest) (fb + 1) (length pre + length fmt - fb - 1))"
  using assms(1)
proof (induction fmt arbitrary: pre)
  case Nil
  show ?case by (subst scan.simps) simp
next
  case (Cons c fmt)
  have "scan (pre @ c # fmt @ CHR ''}'' # rest) i (length pre) True fb str []
      = scan ((pre @ [c]) @ fmt @ CHR ''}'' # rest) i (length (pre @ [c])) True fb str []"
    using Cons.prems assms(2) by (subst scan.simps) auto
  also have "\<dots> = (length (pre @ [c]) + length fmt + 1, False, str,
      substr ((pre @ [c]) @ fmt @ CHR ''}'' # rest) (fb + 1) (length (pre @ [c]) + length fmt - fb - 1))"
    by (rule Cons.IH) (use Cons.prems in simp)
  finally show ?case by simp
qed

lemma scan_braced:
  assumes "isalpha c" and "CHR ''}'' \<notin> set fmt"
  shows "scan (pre @ CHR ''%'' # c # CHR ''{'' # fmt @ CHR ''}'' # rest) (length pre) (Suc (length pre)) False 0 [] []
    = (length pre + length fmt + 4, False, [c], fmt)"
proof -
  let ?p = "pre @ CHR ''%'' # c # CHR ''{'' # fmt @ CHR ''}'' # rest"
  let ?pre = "pre @ [CHR ''%'', c, CHR ''{'']"
  have "c \<noteq> CHR ''{''" "c \<noteq> CHR ''}''" using assms(1) by auto
  then have "scan ?p (length pre) (Suc (length pre)) False 0 [] []
      = scan (?pre @ fmt @ CHR ''}'' # rest) (length pre) (length ?pre) True (length pre + 2) [c] []"
    using assms(1)
    by (subst scan.simps) (simp, subst scan.simps, simp add: substr_def)
  also have "\<dots> = (length ?pre + length fmt + 1, False, [c],
      substr (?pre @ fmt @ CHR ''}'' # rest) (length pre + 2 + 1) (length ?pre + length fmt - (length pre + 2) - 1))"
    by (rule scan_format) (use assms in auto)
  finally show ?thesis by (simp add: substr_def numeral_eq_Suc)
qed

section \<open>The outer loop\<close>

lemma parse_text:
  assumes "CHR ''%'' \<notin> set s"
  shows "parse_from (pre @ s @ rest) (length pre) nstr
    = parse_from (pre @ s @ rest) (length pre + length s) (nstr @ s)"
  using assms
proof (induction s arbitrary: pre nstr)
  case Nil
  then show ?case by simp
next
  case (Cons c s)
  have "parse_from (pre @ (c # s) @ rest) (length pre) nstr
      = parse_from ((pre @ [c]) @ s @ rest) (length (pre @ [c])) (nstr @ [c])"
    using Cons.prems by (subst parse_from.simps) auto
  also have "\<dots> = parse_from ((pre @ [c]) @ s @ rest) (length (pre @ [c]) + length s) ((nstr @ [c]) @ s)"
    by (rule Cons.IH) (use Cons.prems in simp)
  finally show ?case by simp
qed

lemma parse_end: "parse_from p (length p) nstr = (flush nstr, False)"
  by (subst parse_from.simps) simp

lemma parse_item:
  assumes "scan p i (Suc i) False 0 [] [] = (n, False, str, fmt)"
    and "i < length p" and "p ! i = CHR ''%''" and "Suc i < length p \<Longrightarrow> p ! Suc i \<noteq> CHR ''%''"
  shows "parse_from p i nstr = (flush nstr @ (str, fmt, 1) # fst (parse_from p n []), snd (parse_from p n []))"
  using assms by (subst parse_from.simps) (auto simp: Let_def split: prod.splits)

lemma parse_empty_name:
  assumes "CHR ''%'' \<notin> set u" and "ends_name u"
  shows "parse_from (t @ CHR ''%'' # u) (length t) nstr = (flush nstr @ ([], [], 1) # flush u, False)"
proof -
  let ?p = "t @ CHR ''%'' # u"
  have scan: "scan ?p (length t) (Suc (length t)) False 0 [] [] = (Suc (length t), False, [], [])"
    using assms(2) by (cases u) (subst scan.simps, simp add: ends_name_def substr_def nth_append)+
  have "parse_from ?p (length t) nstr = (flush nstr @ ([], [], 1) # fst (parse_from ?p (Suc (length t)) []),
      snd (parse_from ?p (Suc (length t)) []))"
    by (rule parse_item [OF scan]) (use assms(1) in \<open>cases u; auto simp: nth_append\<close>)+
  moreover have "parse_from ?p (Suc (length t)) [] = (flush u, False)"
    using parse_text [OF assms(1), of "t @ ''%''" "[]" "[]"] parse_end [of ?p u] by simp
  ultimately show ?thesis by simp
qed

section \<open>The reference printer\<close>

fun item_name :: "FormatItem \<Rightarrow> char" where
  "item_name MessageFormatItem = CHR ''m''"
| "item_name LevelFormatItem = CHR ''p''"
| "item_name ElapseFormatItem = CHR ''r''"
| "item_name NameFormatItem = CHR ''c''"
| "item_name ThreadIdFormatItem = CHR ''t''"
| "item_name NewLineFormatItem = CHR ''n''"
| "item_name (DateTimeFormatItem _) = CHR ''d''"
| "item_name FilenameFormatItem = CHR ''f''"
| "item_name LineFormatItem = CHR ''l''"
| "item_name TabFormatItem = CHR ''T''"
| "item_name FiberIdFormatItem = CHR ''F''"
| "item_name ThreadNameFormatItem = CHR ''N''"
| "item_name (StringFormatItem _) = CHR ''%''"

fun print_item :: "FormatItem \<Rightarrow> string" where
  "print_item (StringFormatItem s) = s"
| "print_item (DateTimeFormatItem fmt) = ''%d{'' @ fmt @ ''}''"
| "print_item it = [CHR ''%'', item_name it]"

definition print_pattern :: "FormatItem list \<Rightarrow> string" where
  "print_pattern items = concat (map print_item items)"

fun starts_with_text :: "FormatItem list \<Rightarrow> bool" where
  "starts_with_text (StringFormatItem s # _) = True"
| "starts_with_text _ = False"

text \<open>
  Lists that a pattern can express: texts are not empty, hold no percent sign and are not
  adjacent; a date has a format without a closing brace; what follows a plain item cannot be
  read as part of its name.
\<close>

fun printable :: "FormatItem list \<Rightarrow> bool" where
  "printable [] = True"
| "printable (StringFormatItem s # xs) =
     (s \<noteq> [] \<and> CHR ''%'' \<notin> set s \<and> \<not> starts_with_text xs \<and> printable xs)"
| "printable (DateTimeFormatItem fmt # xs) = (fmt \<noteq> [] \<and> CHR ''}'' \<notin> set fmt \<and> printable xs)"
| "printable (it # xs) = (ends_name (print_pattern xs) \<and> printable xs)"

fun entry_of :: "FormatItem \<Rightarrow> vec_entry" where
  "entry_of (StringFormatItem s) = (s, [], 0)"
| "entry_of (DateTimeFormatItem fmt) = (''d'', fmt, 1)"
| "entry_of it = ([item_name it], [], 1)"

lemma print_pattern_simps [simp]:
  "print_pattern [] = []"
  "print_pattern (it # xs) = print_item it @ print_pattern xs"
  by (simp_all add: print_pattern_def)

lemma item_of_entry: "printable (it # xs) \<Longrightarrow> item_of (entry_of it) = (it, False)"
  by (cases it) (simp_all add: item_of_def s_format_items_def DateTimeFormatItem_new_def)

lemma isalpha_name: "isalpha (item_name it) \<longleftrightarrow> \<not> starts_with_text [it]"
  by (cases it) (simp_all add: isalpha_def)

lemma print_plain:
  assumes "\<not> starts_with_text [it]" and "\<And>fmt. it \<noteq> DateTimeFormatItem fmt"
  shows "print_item it = [CHR ''%'', item_name it]" and "entry_of it = ([item_name it], [], 1)"
    and "printable (it # xs) \<longleftrightarrow> ends_name (print_pattern xs) \<and> printable xs"
  using assms by (cases it; simp)+

lemma parse_plain_item:
  assumes "isalpha c" and "ends_name rest"
  shows "parse_from (pre @ CHR ''%'' # c # rest) (length pre) nstr =
    (flush nstr @ ([c], [], 1) # fst (parse_from (pre @ CHR ''%'' # c # rest) (length pre + 2) []),
     snd (parse_from (pre @ CHR ''%'' # c # rest) (length pre + 2) []))"
proof (rule parse_item)
  have "c \<noteq> CHR ''%''" using assms(1) by auto
  then show "(pre @ CHR ''%'' # c # rest) ! Suc (length pre) \<noteq> CHR ''%''" by simp
qed (simp_all add: scan_name [OF assms])

lemma parse_date_item:
  assumes "CHR ''}'' \<notin> set fmt" and p: "p = pre @ CHR ''%'' # CHR ''d'' # CHR ''{'' # fmt @ CHR ''}'' # rest"
  shows "parse_from p (length pre) nstr =
    (flush nstr @ (''d'', fmt, 1) # fst (parse_from p (length pre + length fmt + 4) []),
     snd (parse_from p (length pre + length fmt + 4) []))"
  unfolding p
proof (rule parse_item)
  show "scan (pre @ CHR ''%'' # CHR ''d'' # CHR ''{'' # fmt @ CHR ''}'' # rest) (length pre)
      (Suc (length pre)) False 0 [] [] = (length pre + length fmt + 4, False, ''d'', fmt)"
    by (rule scan_braced) (simp_all add: isalpha_def assms(1))
qed simp_all

lemma parse_printed:
  assumes "printable items" and "nstr = [] \<or> \<not> starts_with_text items"
  shows "parse_from (pre @ print_pattern items) (length pre) nstr = (flush nstr @ map entry_of items, False)"
  using assms
proof (induction items arbitrary: pre nstr)
  case Nil
  show ?case using parse_end [of pre nstr] by simp
next
  case (Cons it items)
  let ?p = "pre @ print_pattern (it # items)"
  have step: "parse_from ?p (length pre + length (print_item it)) nstr' = (flush nstr' @ map entry_of items, False)"
    if "printable items" "nstr' = [] \<or> \<not> starts_with_text items" for nstr'
    using Cons.IH [of nstr' "pre @ print_item it"] that by simp
  consider (str) s where "it = StringFormatItem s" | (date) fmt where "it = DateTimeFormatItem fmt"
    | (plain) "\<not> starts_with_text [it]" "\<And>fmt. it \<noteq> DateTimeFormatItem fmt"
    by (cases it) auto
  then show ?case
  proof cases
    case str
    with Cons.prems step [of s] parse_text [of s pre "print_pattern items" nstr] show ?thesis
      by (simp add: flush_def)
  next
    case date
    with Cons.prems step [of "[]"] parse_date_item [OF _ refl, of fmt pre "print_pattern items" nstr] show ?thesis
      by (simp add: flush_def add_ac numeral_eq_Suc)
  next
    case plain
    have "isalpha (item_name it)" using plain(1) isalpha_name by blast
    with Cons.prems plain step [of "[]"] parse_plain_item [of "item_name it" "print_pattern items" pre nstr]
    show ?thesis by (simp add: print_plain flush_def)
  qed
qed

lemma printable_tl: "printable (it # xs) \<Longrightarrow> printable xs"
  by (cases it) simp_all

lemma items_of_entries:
  "printable items \<Longrightarrow> map (fst \<circ> item_of) (map entry_of items) = items
    \<and> \<not> list_ex (snd \<circ> item_of) (map entry_of items)"
proof (induction items)
  case Nil
  show ?case by simp
next
  case (Cons it items)
  with item_of_entry [OF Cons.prems] printable_tl [OF Cons.prems] show ?case by simp
qed

lemma LogFormatter_new_printed:
  assumes "printable items"
  shows "LogFormatter_new (print_pattern items) =
    \<lparr>lf_pattern = print_pattern items, lf_items = items, lf_error = False\<rparr>"
  using parse_printed [of items "[]" "[]"] items_of_entries [OF assms] assms
  by (simp add: LogFormatter_new_def flush_def)

definition default_items :: "FormatItem list" where
  "default_items =
     [DateTimeFormatItem DateTime_default, TabFormatItem, ThreadIdFormatItem, TabFormatItem, TabFormatItem,
      ThreadNameFormatItem, TabFormatItem, FiberIdFormatItem, TabFormatItem,
      StringFormatItem ''['', LevelFormatItem, StringFormatItem '']'', TabFormatItem,
      StringFormatItem ''['', NameFormatItem, StringFormatItem '']'', TabFormatItem,
      FilenameFormatItem, StringFormatItem '':'', LineFormatItem, TabFormatItem, MessageFormatItem, NewLineFormatItem]"

lemma default_printable: "printable default_items"
  by (simp add: default_items_def DateTime_default_def ends_name_def isalpha_def)

lemma default_pattern_printed: "default_pattern = print_pattern default_items"
  by (simp add: default_items_def default_pattern_def DateTime_default_def)

section \<open>Properties\<close>

text \<open>
  C23: Round trip of \<open>hps_LogFormatter::init\<close>. Write any list of format items as a pattern
  (\<open>%x\<close> for an item, \<open>%d{...}\<close> for a date, texts as they are). If texts are non-empty, not
  adjacent and without percent signs, dates have a non-empty format without a closing brace,
  and what follows a plain item does not continue its name, then the parser gives back
  exactly that list, and no error.
\<close>

theorem pattern_round_trip:
  assumes "printable items"
  shows "LogFormatter_new (print_pattern items) =
    \<lparr>lf_pattern = print_pattern items, lf_items = items, lf_error = False\<rparr>"
  by (rule LogFormatter_new_printed [OF assms])

theorem pattern_round_trip_witness:
  "LogFormatter_new ''%d{%H:%M} <%p> %m'' =
     \<lparr>lf_pattern = ''%d{%H:%M} <%p> %m'',
      lf_items = [DateTimeFormatItem ''%H:%M'', StringFormatItem '' <'', LevelFormatItem,
        StringFormatItem ''> '', MessageFormatItem], lf_error = False\<rparr>"
  using pattern_round_trip [of "[DateTimeFormatItem ''%H:%M'', StringFormatItem '' <'', LevelFormatItem,
    StringFormatItem ''> '', MessageFormatItem]"]
  by (simp add: ends_name_def isalpha_def)

text \<open>
  The pattern every new logger has is accepted, and a record is written as: time, tab, thread
  id, two tabs, thread name, tab, fiber id, tab, level in brackets, tab, logger name in
  brackets, tab, file and line, tab, message, newline.
\<close>

theorem default_pattern_renders:
  "\<not> lf_error (LogFormatter_new default_pattern) \<and>
   LogFormatter_format strftime level e (LogFormatter_new default_pattern) =
     strftime ''%Y-%m-%d %H:%M:%S'' (le_time e) @ [CHR 0x09] @ show_nat (unat (le_threadId e)) @
     [CHR 0x09, CHR 0x09] @ le_threadName e @ [CHR 0x09] @ show_nat (unat (le_fiberId e)) @
     [CHR 0x09] @ ''['' @ LogLevel_ToString level @ '']'' @ [CHR 0x09] @ ''['' @ le_loggerName e @ '']'' @
     [CHR 0x09] @ le_file e @ '':'' @ show_int (le_line e) @ [CHR 0x09] @ le_content e @ [CHR 0x0A]"
  unfolding default_pattern_printed LogFormatter_new_printed [OF default_printable]
  by (simp add: LogFormatter_format_def default_items_def DateTime_default_def)

text \<open>
  The escape \<open>%%\<close> does not work: the parser adds the percent sign to the text but advances by
  one character only, so the second percent sign starts an item with an empty name. A pattern
  with \<open>%%\<close> at its end or before a character that cannot continue a name is therefore in error,
  and shows the marker \<open><<error_format %>>\<close> after the percent sign.
\<close>

theorem percent_escape_is_error:
  assumes "CHR ''%'' \<notin> set t" and "CHR ''%'' \<notin> set u" and "ends_name u"
  shows "LogFormatter_new (t @ ''%%'' @ u) =
    \<lparr>lf_pattern = t @ ''%%'' @ u,
     lf_items = [StringFormatItem (t @ ''%''), StringFormatItem ''<<error_format %>>''] @
       (if u = [] then [] else [StringFormatItem u]),
     lf_error = True\<rparr>"
proof -
  let ?p = "t @ ''%%'' @ u"
  have "parse_from ?p 0 [] = parse_from ?p (length t) t"
    using parse_text [OF assms(1), of "[]" "''%%'' @ u" "[]"] by simp
  also have "\<dots> = parse_from ?p (Suc (length t)) (t @ ''%'')"
    by (subst parse_from.simps) simp
  also have "\<dots> = parse_from ((t @ ''%'') @ CHR ''%'' # u) (length (t @ ''%'')) (t @ ''%'')"
    by simp
  also have "\<dots> = ([(t @ ''%'', [], 0), ([], [], 1)] @ flush u, False)"
    by (subst parse_empty_name [OF assms(2,3)]) (simp add: flush_def)
  finally show ?thesis
    by (simp add: LogFormatter_new_def item_of_def s_format_items_def flush_def)
qed

theorem percent_escape_is_error_witness:
  "LogFormatter_new ''100%%'' = \<lparr>lf_pattern = ''100%%'',
     lf_items = [StringFormatItem ''100%'', StringFormatItem ''<<error_format %>>''], lf_error = True\<rparr>"
  using percent_escape_is_error [of "''100''" "[]"] by (simp add: ends_name_def)

end
