(* ===== verification/Hps_Logger.thy ===== *)
theory Hps_Logger
  imports Hps_LogFormatterClaims
begin

text \<open>
  hps_sf/log.h and hps_sf/log.cpp, second part: appenders, loggers and the logger manager.
  Loggers and appenders are shared objects: a state holds the objects in two lists, a pointer is
  the position in its list, so that two loggers can share an appender. Formatters are never
  changed after construction, a pointer to one is the value. What an appender writes is
  recorded with the appender; whether a file accepts it is not modelled.
\<close>

section \<open>State\<close>

datatype appender_kind = StdoutAppender | FileAppender string

record hps_LogAppender =
  ap_kind :: appender_kind
  ap_level :: Level
  ap_hasFormatter :: bool
  ap_formatter :: "hps_LogFormatter option"

record hps_Logger =
  lg_root :: "nat option"
  lg_name :: string
  lg_level :: Level
  lg_appenders :: "nat list"
  lg_formatter :: "hps_LogFormatter option"

record log_state =
  ls_appenders :: "hps_LogAppender list"
  ls_logger :: "hps_Logger list"
  ls_names :: "string \<rightharpoonup> nat"
  ls_root :: nat
  ls_out :: "(nat \<times> string) list"

definition look :: "'a list \<Rightarrow> nat \<Rightarrow> 'a option" where
  "look xs i = (if i < length xs then Some (xs ! i) else None)"

definition upd_logger :: "nat \<Rightarrow> (hps_Logger \<Rightarrow> hps_Logger) \<Rightarrow> log_state \<Rightarrow> log_state" where
  "upd_logger l f s = s\<lparr>ls_logger := (ls_logger s)[l := f (ls_logger s ! l)]\<rparr>"

definition upd_appender :: "nat \<Rightarrow> (hps_LogAppender \<Rightarrow> hps_LogAppender) \<Rightarrow> log_state \<Rightarrow> log_state" where
  "upd_appender a f s = s\<lparr>ls_appenders := (ls_appenders s)[a := f (ls_appenders s ! a)]\<rparr>"

text \<open>A method call through a pointer to a logger or an appender.\<close>

definition on_logger :: "nat \<Rightarrow> log_state \<Rightarrow> (hps_Logger \<Rightarrow> 'a outcome) \<Rightarrow> 'a outcome" where
  "on_logger l s f = obind (deref (look (ls_logger s) l) ''logger'') f"

definition on_appender :: "nat \<Rightarrow> log_state \<Rightarrow> (hps_LogAppender \<Rightarrow> 'a outcome) \<Rightarrow> 'a outcome" where
  "on_appender a s f = obind (deref (look (ls_appenders s) a) ''appender'') f"

section \<open>Appenders\<close>

definition LogAppender_new :: "appender_kind \<Rightarrow> log_state \<Rightarrow> log_state \<times> nat" where
  "LogAppender_new k s =
     (s\<lparr>ls_appenders := ls_appenders s @
        [\<lparr>ap_kind = k, ap_level = DEBUG, ap_hasFormatter = False, ap_formatter = None\<rparr>]\<rparr>,
      length (ls_appenders s))"

definition LogAppender_setFormatter :: "nat \<Rightarrow> hps_LogFormatter option \<Rightarrow> log_state \<Rightarrow> log_state outcome" where
  "LogAppender_setFormatter a val s = on_appender a s (\<lambda>_.
     Inr (upd_appender a (\<lambda>p. p\<lparr>ap_formatter := val, ap_hasFormatter := (val \<noteq> None)\<rparr>) s))"

definition LogAppender_getFormatter :: "nat \<Rightarrow> log_state \<Rightarrow> hps_LogFormatter option outcome" where
  "LogAppender_getFormatter a s = on_appender a s (\<lambda>p. Inr (ap_formatter p))"

definition LogAppender_setLevel :: "nat \<Rightarrow> Level \<Rightarrow> log_state \<Rightarrow> log_state outcome" where
  "LogAppender_setLevel a level s = on_appender a s (\<lambda>_. Inr (upd_appender a (\<lambda>p. p\<lparr>ap_level := level\<rparr>) s))"

definition LogAppender_log ::
  "(string \<Rightarrow> u64 \<Rightarrow> string) \<Rightarrow> nat \<Rightarrow> Level \<Rightarrow> hps_LogEvent \<Rightarrow> log_state \<Rightarrow> log_state outcome" where
  "LogAppender_log strftime a level e s = on_appender a s (\<lambda>p.
     if ap_level p \<le> level then
       obind (deref (ap_formatter p) ''m_formatter'') (\<lambda>f.
         Inr (s\<lparr>ls_out := ls_out s @ [(a, LogFormatter_format strftime level e f)]\<rparr>))
     else Inr s)"

section \<open>Loggers\<close>

definition Logger_new :: "string \<Rightarrow> log_state \<Rightarrow> log_state \<times> nat" where
  "Logger_new name s =
     (s\<lparr>ls_logger := ls_logger s @
        [\<lparr>lg_root = None, lg_name = name, lg_level = DEBUG, lg_appenders = [],
          lg_formatter = Some (LogFormatter_new default_pattern)\<rparr>]\<rparr>,
      length (ls_logger s))"

definition inherit_formatter :: "hps_LogFormatter option \<Rightarrow> nat \<Rightarrow> log_state \<Rightarrow> log_state outcome" where
  "inherit_formatter f a s = on_appender a s (\<lambda>p.
     Inr (if ap_hasFormatter p then s else upd_appender a (\<lambda>p. p\<lparr>ap_formatter := f\<rparr>) s))"

definition Logger_setFormatter :: "nat \<Rightarrow> hps_LogFormatter option \<Rightarrow> log_state \<Rightarrow> log_state outcome" where
  "Logger_setFormatter l val s = on_logger l s (\<lambda>lg.
     ofold (inherit_formatter val) (lg_appenders lg) (upd_logger l (\<lambda>lg. lg\<lparr>lg_formatter := val\<rparr>) s))"

definition Logger_setFormatter_string :: "nat \<Rightarrow> string \<Rightarrow> log_state \<Rightarrow> log_state outcome" where
  "Logger_setFormatter_string l val s = on_logger l s (\<lambda>_.
     let f = LogFormatter_new val in
     if lf_error f then Inr s else Logger_setFormatter l (Some f) s)"

definition Logger_addAppender :: "nat \<Rightarrow> nat \<Rightarrow> log_state \<Rightarrow> log_state outcome" where
  "Logger_addAppender l a s = on_logger l s (\<lambda>lg.
     obind (LogAppender_getFormatter a s) (\<lambda>f.
       let s1 = (if f = None then upd_appender a (\<lambda>p. p\<lparr>ap_formatter := lg_formatter lg\<rparr>) s else s) in
       Inr (upd_logger l (\<lambda>lg. lg\<lparr>lg_appenders := lg_appenders lg @ [a]\<rparr>) s1)))"

definition Logger_delAppender :: "nat \<Rightarrow> nat \<Rightarrow> log_state \<Rightarrow> log_state outcome" where
  "Logger_delAppender l a s = on_logger l s (\<lambda>_.
     Inr (upd_logger l (\<lambda>lg. lg\<lparr>lg_appenders := remove1 a (lg_appenders lg)\<rparr>) s))"

definition Logger_clearAppenders :: "nat \<Rightarrow> log_state \<Rightarrow> log_state outcome" where
  "Logger_clearAppenders l s = on_logger l s (\<lambda>_.
     Inr (upd_logger l (\<lambda>lg. lg\<lparr>lg_appenders := []\<rparr>) s))"

definition Logger_setLevel :: "nat \<Rightarrow> Level \<Rightarrow> log_state \<Rightarrow> log_state outcome" where
  "Logger_setLevel l val s = on_logger l s (\<lambda>_. Inr (upd_logger l (\<lambda>lg. lg\<lparr>lg_level := val\<rparr>) s))"

text \<open>
  \<open>log\<close> calls itself on the root: the fuel bounds the chain of roots (a cycle of roots, which no
  operation builds, would not return).
\<close>

fun Logger_log ::
  "(string \<Rightarrow> u64 \<Rightarrow> string) \<Rightarrow> nat \<Rightarrow> nat \<Rightarrow> Level \<Rightarrow> hps_LogEvent \<Rightarrow> log_state \<Rightarrow> log_state outcome" where
  "Logger_log strftime 0 l level e s = Inl (Undefined ''fuel'')"
| "Logger_log strftime (Suc k) l level e s = on_logger l s (\<lambda>lg.
     if lg_level lg \<le> level then
       if lg_appenders lg \<noteq> [] then
         ofold (\<lambda>a. LogAppender_log strftime a level e) (lg_appenders lg) s
       else (case lg_root lg of
               Some r \<Rightarrow> Logger_log strftime k r level e s
             | None \<Rightarrow> Inr s)
     else Inr s)"

text \<open>
  The macro \<open>HPS_LOG_LEVEL\<close> with the destructor of \<open>hps_LogEventWarp\<close>: nothing below the
  logger's level, else the event goes to the logger.
\<close>

definition HPS_LOG_LEVEL ::
  "(string \<Rightarrow> u64 \<Rightarrow> string) \<Rightarrow> nat \<Rightarrow> nat \<Rightarrow> Level \<Rightarrow> string \<Rightarrow> int \<Rightarrow> u32 \<Rightarrow> u32 \<Rightarrow> u64 \<Rightarrow> string \<Rightarrow> string \<Rightarrow>
   log_state \<Rightarrow> log_state outcome" where
  "HPS_LOG_LEVEL strftime k l level file line fiberId threadId time threadName content s = on_logger l s (\<lambda>lg.
     if lg_level lg \<le> level then
       Logger_log strftime k l level
         (LOG_LEVEL_event (lg_name lg) level file line fiberId threadId time threadName content) s
     else Inr s)"

section \<open>The manager\<close>

definition LoggerManager_new :: "log_state outcome" where
  "LoggerManager_new =
     (let s0 = \<lparr>ls_appenders = [], ls_logger = [], ls_names = Map.empty, ls_root = 0, ls_out = []\<rparr>;
          (s1, r) = Logger_new ''root'' s0;
          (s2, a) = LogAppender_new StdoutAppender s1 in
      obind (Logger_addAppender r a (s2\<lparr>ls_root := r\<rparr>)) (\<lambda>s3.
      on_logger r s3 (\<lambda>lg. Inr (s3\<lparr>ls_names := (ls_names s3)(lg_name lg \<mapsto> r)\<rparr>))))"

definition getLogger :: "string \<Rightarrow> log_state \<Rightarrow> log_state \<times> nat" where
  "getLogger name s = (case ls_names s name of
       Some l \<Rightarrow> (s, l)
     | None \<Rightarrow>
         let (s1, l) = Logger_new name s;
             s2 = upd_logger l (\<lambda>lg. lg\<lparr>lg_root := Some (ls_root s1)\<rparr>) s1 in
         (s2\<lparr>ls_names := (ls_names s2)(name \<mapsto> l)\<rparr>, l))"

section \<open>Operations of a program\<close>

datatype log_op =
    GetLogger string | NewLogger string | NewAppender appender_kind
  | AddAppender nat nat | DelAppender nat nat | ClearAppenders nat
  | SetLevel nat Level | SetFormatter nat "hps_LogFormatter option" | SetFormatterString nat string
  | AppenderSetFormatter nat "hps_LogFormatter option" | AppenderSetLevel nat Level
  | LogCall nat Level hps_LogEvent

fun log_exec :: "(string \<Rightarrow> u64 \<Rightarrow> string) \<Rightarrow> log_op \<Rightarrow> log_state \<Rightarrow> log_state outcome" where
  "log_exec sf (GetLogger n) s = Inr (fst (getLogger n s))"
| "log_exec sf (NewLogger n) s = Inr (fst (Logger_new n s))"
| "log_exec sf (NewAppender k) s = Inr (fst (LogAppender_new k s))"
| "log_exec sf (AddAppender l a) s = Logger_addAppender l a s"
| "log_exec sf (DelAppender l a) s = Logger_delAppender l a s"
| "log_exec sf (ClearAppenders l) s = Logger_clearAppenders l s"
| "log_exec sf (SetLevel l v) s = Logger_setLevel l v s"
| "log_exec sf (SetFormatter l v) s = Logger_setFormatter l v s"
| "log_exec sf (SetFormatterString l v) s = Logger_setFormatter_string l v s"
| "log_exec sf (AppenderSetFormatter a v) s = LogAppender_setFormatter a v s"
| "log_exec sf (AppenderSetLevel a v) s = LogAppender_setLevel a v s"
| "log_exec sf (LogCall l v e) s = Logger_log sf 2 l v e s"

text \<open>Calls through valid pointers that do not take a formatter away.\<close>

fun log_legal :: "log_op \<Rightarrow> log_state \<Rightarrow> bool" where
  "log_legal (GetLogger n) s = True"
| "log_legal (NewLogger n) s = True"
| "log_legal (NewAppender k) s = True"
| "log_legal (AddAppender l a) s = (l < length (ls_logger s) \<and> a < length (ls_appenders s))"
| "log_legal (DelAppender l a) s = (l < length (ls_logger s))"
| "log_legal (ClearAppenders l) s = (l < length (ls_logger s))"
| "log_legal (SetLevel l v) s = (l < length (ls_logger s))"
| "log_legal (SetFormatter l v) s = (l < length (ls_logger s) \<and> v \<noteq> None)"
| "log_legal (SetFormatterString l v) s = (l < length (ls_logger s))"
| "log_legal (AppenderSetFormatter a v) s = (a < length (ls_appenders s) \<and> v \<noteq> None)"
| "log_legal (AppenderSetLevel a v) s = (a < length (ls_appenders s))"
| "log_legal (LogCall l v e) s = (l < length (ls_logger s))"

definition log_step :: "(string \<Rightarrow> u64 \<Rightarrow> string) \<Rightarrow> log_state \<Rightarrow> log_state \<Rightarrow> bool" where
  "log_step sf s t \<longleftrightarrow> (\<exists>op. log_legal op s \<and> log_exec sf op s = Inr t)"

end
