(* ===== verification/Hps_LoggerClaims.thy ===== *)
theory Hps_LoggerClaims
  imports Hps_Logger
begin

text \<open>
  Loggers and appenders: the invariant that every attached appender and every logger has a
  formatter, that it holds in every state a program can reach, and what a log call writes.
\<close>

section \<open>Invariant\<close>

definition logger_ok :: "log_state \<Rightarrow> hps_Logger \<Rightarrow> bool" where
  "logger_ok s lg \<longleftrightarrow> lg_formatter lg \<noteq> None \<and> (lg_root lg = None \<or> lg_root lg = Some (ls_root s)) \<and>
     (\<forall>a \<in> set (lg_appenders lg). a < length (ls_appenders s) \<and> ap_formatter (ls_appenders s ! a) \<noteq> None)"

definition log_inv :: "log_state \<Rightarrow> bool" where
  "log_inv s \<longleftrightarrow> ls_root s < length (ls_logger s) \<and> lg_root (ls_logger s ! ls_root s) = None \<and>
     (\<forall>i < length (ls_logger s). logger_ok s (ls_logger s ! i)) \<and>
     (\<forall>p \<in> set (ls_appenders s). ap_hasFormatter p \<longrightarrow> ap_formatter p \<noteq> None) \<and>
     (\<forall>n i. ls_names s n = Some i \<longrightarrow> i < length (ls_logger s) \<and> lg_name (ls_logger s ! i) = n)"

lemma on_logger_valid [simp]: "l < length (ls_logger s) \<Longrightarrow> on_logger l s f = f (ls_logger s ! l)"
  by (simp add: on_logger_def look_def)

lemma on_appender_valid [simp]: "a < length (ls_appenders s) \<Longrightarrow> on_appender a s f = f (ls_appenders s ! a)"
  by (simp add: on_appender_def look_def)

lemma upd_logger_simps [simp]:
  "ls_appenders (upd_logger l f s) = ls_appenders s" "ls_names (upd_logger l f s) = ls_names s"
  "ls_root (upd_logger l f s) = ls_root s" "ls_out (upd_logger l f s) = ls_out s"
  "length (ls_logger (upd_logger l f s)) = length (ls_logger s)"
  "ls_logger (upd_logger l f s) = (ls_logger s)[l := f (ls_logger s ! l)]"
  by (simp_all add: upd_logger_def)

lemma upd_appender_simps [simp]:
  "ls_logger (upd_appender a f s) = ls_logger s" "ls_names (upd_appender a f s) = ls_names s"
  "ls_root (upd_appender a f s) = ls_root s" "ls_out (upd_appender a f s) = ls_out s"
  "ls_appenders (upd_appender a f s) = (ls_appenders s)[a := f (ls_appenders s ! a)]"
  by (simp_all add: upd_appender_def)

lemma upd_logger_inv:
  assumes "log_inv s" and "l < length (ls_logger s)" and "logger_ok s (f (ls_logger s ! l))"
    and "lg_root (f (ls_logger s ! l)) = lg_root (ls_logger s ! l)"
    and "lg_name (f (ls_logger s ! l)) = lg_name (ls_logger s ! l)"
  shows "log_inv (upd_logger l f s)"
proof -
  have "logger_ok (upd_logger l f s) lg = logger_ok s lg" for lg by (simp add: logger_ok_def)
  with assms show ?thesis unfolding log_inv_def by (auto simp: nth_list_update)
qed

lemma upd_appender_inv:
  assumes "log_inv s" and "a < length (ls_appenders s)"
    and "ap_formatter (ls_appenders s ! a) \<noteq> None \<Longrightarrow> ap_formatter (f (ls_appenders s ! a)) \<noteq> None"
    and "ap_hasFormatter (f (ls_appenders s ! a)) \<Longrightarrow> ap_formatter (f (ls_appenders s ! a)) \<noteq> None"
  shows "log_inv (upd_appender a f s)"
proof -
  have "logger_ok (upd_appender a f s) lg" if "logger_ok s lg" for lg
    using that assms(2,3) by (auto simp: logger_ok_def nth_list_update)
  moreover have "\<forall>p \<in> set ((ls_appenders s)[a := f (ls_appenders s ! a)]). ap_hasFormatter p \<longrightarrow> ap_formatter p \<noteq> None"
    using assms(1,4) set_update_subset_insert [of "ls_appenders s" a] unfolding log_inv_def by fast
  ultimately show ?thesis using assms(1) unfolding log_inv_def by simp
qed

lemma new_logger_inv:
  assumes "log_inv s"
  shows "log_inv (fst (Logger_new n s))" and "snd (Logger_new n s) = length (ls_logger s)"
  using assms unfolding log_inv_def Logger_new_def
  by (auto simp: logger_ok_def nth_append less_Suc_eq)

lemma new_appender_inv:
  assumes "log_inv s"
  shows "log_inv (fst (LogAppender_new k s))"
proof -
  let ?s = "fst (LogAppender_new k s)"
  have "logger_ok ?s lg" if "logger_ok s lg" for lg
    using that by (auto simp: logger_ok_def LogAppender_new_def nth_append)
  with assms show ?thesis unfolding log_inv_def by (auto simp: LogAppender_new_def)
qed

lemma log_inv_logger: "log_inv s \<Longrightarrow> l < length (ls_logger s) \<Longrightarrow> logger_ok s (ls_logger s ! l)"
  by (simp add: log_inv_def)

lemma log_inv_out [simp]: "log_inv (s\<lparr>ls_out := x\<rparr>) = log_inv s"
  by (simp add: log_inv_def logger_ok_def)

lemma log_inv_names:
  "log_inv s \<Longrightarrow> l < length (ls_logger s) \<Longrightarrow> lg_name (ls_logger s ! l) = n \<Longrightarrow>
   log_inv (s\<lparr>ls_names := (ls_names s)(n \<mapsto> l)\<rparr>)"
  by (simp add: log_inv_def logger_ok_def)

section \<open>What the operations do on valid pointers\<close>

lemma log_append:
  assumes "a < length (ls_appenders s)" and "ap_formatter (ls_appenders s ! a) = Some f"
  shows "LogAppender_log sf a level e s = Inr (s\<lparr>ls_out := ls_out s @
    (if ap_level (ls_appenders s ! a) \<le> level then [(a, LogFormatter_format sf level e f)] else [])\<rparr>)"
  using assms by (simp add: LogAppender_log_def)

text \<open>The lines a list of appenders writes.\<close>

definition appender_line ::
  "(string \<Rightarrow> u64 \<Rightarrow> string) \<Rightarrow> Level \<Rightarrow> hps_LogEvent \<Rightarrow> hps_LogAppender list \<Rightarrow> nat \<Rightarrow> nat \<times> string" where
  "appender_line sf level e ps a = (a, LogFormatter_format sf level e (the (ap_formatter (ps ! a))))"

definition written ::
  "(string \<Rightarrow> u64 \<Rightarrow> string) \<Rightarrow> Level \<Rightarrow> hps_LogEvent \<Rightarrow> hps_LogAppender list \<Rightarrow> nat list \<Rightarrow> (nat \<times> string) list" where
  "written sf level e ps as = map (appender_line sf level e ps) (filter (\<lambda>a. ap_level (ps ! a) \<le> level) as)"

lemma log_appenders:
  assumes "\<forall>a \<in> set as. a < length (ls_appenders s) \<and> ap_formatter (ls_appenders s ! a) \<noteq> None"
  shows "ofold (\<lambda>a. LogAppender_log sf a level e) as s
    = Inr (s\<lparr>ls_out := ls_out s @ written sf level e (ls_appenders s) as\<rparr>)"
  using assms
proof (induction as arbitrary: s)
  case Nil
  show ?case by (simp add: written_def)
next
  case (Cons a as)
  from Cons.prems obtain f where f: "ap_formatter (ls_appenders s ! a) = Some f" "a < length (ls_appenders s)"
    by auto
  show ?case using Cons.prems log_append [OF f(2,1)]
    by (simp add: Cons.IH written_def appender_line_def f)
qed

text \<open>The appenders that serve a logger: its own, or those of its root if the level passes there too.\<close>

definition serving :: "log_state \<Rightarrow> Level \<Rightarrow> nat \<Rightarrow> nat list" where
  "serving s level l =
     (let lg = ls_logger s ! l; rt = ls_logger s ! ls_root s in
      if lg_level lg \<le> level then
        if lg_appenders lg \<noteq> [] then lg_appenders lg
        else if lg_root lg \<noteq> None \<and> lg_level rt \<le> level then lg_appenders rt else []
      else [])"

lemma Logger_log_result:
  assumes "log_inv s" and "l < length (ls_logger s)" and "2 \<le> k"
  shows "Logger_log sf k l level e s =
    Inr (s\<lparr>ls_out := ls_out s @ written sf level e (ls_appenders s) (serving s level l)\<rparr>)"
proof -
  obtain m where k: "k = Suc (Suc m)" using assms(3) by (metis add_2_eq_Suc le_Suc_ex)
  let ?lg = "ls_logger s ! l" and ?rt = "ls_logger s ! ls_root s"
  have ok: "logger_ok s ?lg" "logger_ok s ?rt" "ls_root s < length (ls_logger s)" "lg_root ?rt = None"
    using assms by (auto simp: log_inv_def)
  have appenders: "\<forall>a \<in> set (lg_appenders x). a < length (ls_appenders s) \<and> ap_formatter (ls_appenders s ! a) \<noteq> None"
    if "logger_ok s x" for x using that by (simp add: logger_ok_def)
  have root: "Logger_log sf (Suc m) (ls_root s) level e s =
      Inr (s\<lparr>ls_out := ls_out s @ written sf level e (ls_appenders s)
        (if lg_level ?rt \<le> level then lg_appenders ?rt else [])\<rparr>)"
    using ok(3,4) log_appenders [OF appenders [OF ok(2)]] by (auto simp: written_def)
  have "lg_root ?lg = None \<or> lg_root ?lg = Some (ls_root s)" using ok(1) by (simp add: logger_ok_def)
  then show ?thesis
    using assms(2) root log_appenders [OF appenders [OF ok(1)]]
    by (auto simp: k serving_def Let_def written_def simp del: Logger_log.simps
      simp: Logger_log.simps(2) [of sf "Suc m" l])
qed

lemma addAppender_result:
  assumes "l < length (ls_logger s)" and "a < length (ls_appenders s)"
  shows "Logger_addAppender l a s = Inr (upd_logger l (\<lambda>lg. lg\<lparr>lg_appenders := lg_appenders lg @ [a]\<rparr>)
    (if ap_formatter (ls_appenders s ! a) = None
     then upd_appender a (\<lambda>p. p\<lparr>ap_formatter := lg_formatter (ls_logger s ! l)\<rparr>) s else s))"
  using assms by (simp add: Logger_addAppender_def LogAppender_getFormatter_def)

lemma addAppender_inv:
  assumes inv: "log_inv s" and l: "l < length (ls_logger s)" and a: "a < length (ls_appenders s)"
    and res: "Logger_addAppender l a s = Inr t"
  shows "log_inv t"
proof -
  let ?s = "if ap_formatter (ls_appenders s ! a) = None
     then upd_appender a (\<lambda>p. p\<lparr>ap_formatter := lg_formatter (ls_logger s ! l)\<rparr>) s else s"
  let ?f = "\<lambda>lg. lg\<lparr>lg_appenders := lg_appenders lg @ [a]\<rparr>"
  have f: "lg_formatter (ls_logger s ! l) \<noteq> None" using log_inv_logger [OF inv l] by (simp add: logger_ok_def)
  have s: "log_inv ?s" using inv upd_appender_inv [OF inv a] f by auto
  have "ap_formatter (ls_appenders ?s ! a) \<noteq> None" "a < length (ls_appenders ?s)" using f a by auto
  with log_inv_logger [OF s, of l] l have "logger_ok ?s (?f (ls_logger ?s ! l))" by (auto simp: logger_ok_def)
  then have "log_inv (upd_logger l ?f ?s)" by (intro upd_logger_inv s) (use l in auto)
  with res show ?thesis by (simp add: addAppender_result [OF l a])
qed

lemma inherit_inv:
  assumes "log_inv s" and "a < length (ls_appenders s)" and "val \<noteq> None"
  obtains t where "inherit_formatter val a s = Inr t" and "log_inv t" and "ls_logger t = ls_logger s"
    and "length (ls_appenders t) = length (ls_appenders s)"
  using assms upd_appender_inv [OF assms(1,2), of "\<lambda>p. p\<lparr>ap_formatter := val\<rparr>"]
  by (cases "ap_hasFormatter (ls_appenders s ! a)") (auto simp: inherit_formatter_def)

lemma inherit_all_inv:
  assumes "log_inv s" and "\<forall>a \<in> set as. a < length (ls_appenders s)" and "val \<noteq> None"
  shows "\<exists>t. ofold (inherit_formatter val) as s = Inr t \<and> log_inv t"
  using assms
proof (induction as arbitrary: s)
  case Nil
  then show ?case by simp
next
  case (Cons a as)
  obtain t where "inherit_formatter val a s = Inr t" "log_inv t"
    "length (ls_appenders t) = length (ls_appenders s)"
    using inherit_inv [of s a val] Cons.prems by auto
  with Cons.IH [of t] Cons.prems show ?case by simp
qed

lemma setFormatter_inv:
  assumes "log_inv s" and "l < length (ls_logger s)" and "val \<noteq> None"
  shows "\<exists>t. Logger_setFormatter l val s = Inr t \<and> log_inv t"
proof -
  let ?s = "upd_logger l (\<lambda>lg. lg\<lparr>lg_formatter := val\<rparr>) s"
  have ok: "logger_ok s (ls_logger s ! l)" by (rule log_inv_logger [OF assms(1,2)])
  then have "log_inv ?s" by (intro upd_logger_inv assms) (use assms(3) in \<open>auto simp: logger_ok_def\<close>)
  moreover have "\<forall>a \<in> set (lg_appenders (ls_logger s ! l)). a < length (ls_appenders ?s)"
    using ok by (simp add: logger_ok_def)
  ultimately show ?thesis
    using inherit_all_inv [OF _ _ assms(3)] assms(2) by (simp add: Logger_setFormatter_def)
qed

lemma getLogger_inv:
  assumes "log_inv s"
  shows "log_inv (fst (getLogger n s))"
proof (cases "ls_names s n")
  case (Some i)
  with assms show ?thesis by (simp add: getLogger_def)
next
  case None
  let ?s1 = "fst (Logger_new n s)" and ?l = "length (ls_logger s)"
  let ?f = "\<lambda>lg. lg\<lparr>lg_root := Some (ls_root ?s1)\<rparr>"
  have inv: "log_inv ?s1" by (rule new_logger_inv(1) [OF assms])
  have new: "ls_logger ?s1 ! ?l = \<lparr>lg_root = None, lg_name = n, lg_level = DEBUG, lg_appenders = [],
      lg_formatter = Some (LogFormatter_new default_pattern)\<rparr>" "length (ls_logger ?s1) = Suc ?l"
    "ls_root ?s1 = ls_root s" "ls_appenders ?s1 = ls_appenders s" "ls_names ?s1 = ls_names s"
    by (simp_all add: Logger_new_def)
  have root: "ls_root s < ?l" using assms by (simp add: log_inv_def)
  have "log_inv (upd_logger ?l ?f ?s1)"
  proof -
    have "logger_ok (upd_logger ?l ?f ?s1) lg = logger_ok ?s1 lg" for lg by (simp add: logger_ok_def)
    moreover have "logger_ok ?s1 (?f (ls_logger ?s1 ! ?l))" by (simp add: new logger_ok_def)
    moreover have "ls_names s m \<noteq> Some ?l" for m using assms by (auto simp: log_inv_def)
    ultimately show ?thesis
      using inv root unfolding log_inv_def by (auto simp: new nth_list_update)
  qed
  then have "log_inv ((upd_logger ?l ?f ?s1)\<lparr>ls_names := (ls_names (upd_logger ?l ?f ?s1))(n \<mapsto> ?l)\<rparr>)"
    by (rule log_inv_names) (simp_all add: new)
  moreover have "snd (Logger_new n s) = ?l" by (simp add: Logger_new_def)
  ultimately show ?thesis using None by (simp add: getLogger_def case_prod_beta Let_def)
qed

lemma del_inv:
  assumes "log_inv s" and "l < length (ls_logger s)"
    and "set as \<subseteq> set (lg_appenders (ls_logger s ! l))"
  shows "log_inv (upd_logger l (\<lambda>lg. lg\<lparr>lg_appenders := as\<rparr>) s)"
  by (rule upd_logger_inv [OF assms(1,2)])
    (use log_inv_logger [OF assms(1,2)] assms(3) in \<open>auto simp: logger_ok_def\<close>)

lemma upd_logger_const:
  "upd_logger l (\<lambda>lg. lg\<lparr>lg_appenders := h (lg_appenders lg)\<rparr>) s =
   upd_logger l (\<lambda>lg. lg\<lparr>lg_appenders := h (lg_appenders (ls_logger s ! l))\<rparr>) s"
  by (simp add: upd_logger_def)

lemma log_exec_legal:
  assumes "log_inv s" and "log_legal op s"
  shows "\<exists>t. log_exec sf op s = Inr t \<and> log_inv t"
proof (cases op)
  case (GetLogger n)
  with assms show ?thesis by (simp add: getLogger_inv)
next
  case (NewLogger n)
  with assms show ?thesis by (simp add: new_logger_inv)
next
  case (NewAppender k)
  with assms show ?thesis by (simp add: new_appender_inv)
next
  case (AddAppender l a)
  with assms addAppender_inv [OF assms(1), of l a] addAppender_result [of l s a] show ?thesis by simp
next
  case (DelAppender l a)
  with assms del_inv [OF assms(1), of l "remove1 a (lg_appenders (ls_logger s ! l))"] show ?thesis
    by (simp add: Logger_delAppender_def upd_logger_const [of l "remove1 a"] set_remove1_subset)
next
  case (ClearAppenders l)
  with assms del_inv [OF assms(1), of l "[]"] show ?thesis by (simp add: Logger_clearAppenders_def)
next
  case (SetLevel l v)
  with assms upd_logger_inv [OF assms(1), of l "\<lambda>lg. lg\<lparr>lg_level := v\<rparr>"] log_inv_logger [OF assms(1), of l]
  show ?thesis by (simp add: Logger_setLevel_def logger_ok_def)
next
  case (SetFormatter l v)
  with assms show ?thesis by (simp add: setFormatter_inv)
next
  case (SetFormatterString l v)
  with assms setFormatter_inv [OF assms(1), of l "Some (LogFormatter_new v)"] show ?thesis
    by (auto simp: Logger_setFormatter_string_def Let_def)
next
  case (AppenderSetFormatter a v)
  with assms upd_appender_inv [OF assms(1), of a "\<lambda>p. p\<lparr>ap_formatter := v, ap_hasFormatter := (v \<noteq> None)\<rparr>"]
  show ?thesis by (simp add: LogAppender_setFormatter_def)
next
  case (AppenderSetLevel a v)
  have "ap_hasFormatter (ls_appenders s ! a) \<longrightarrow> ap_formatter (ls_appenders s ! a) \<noteq> None"
    if "a < length (ls_appenders s)" using assms(1) that by (simp add: log_inv_def)
  with AppenderSetLevel assms upd_appender_inv [OF assms(1), of a "\<lambda>p. p\<lparr>ap_level := v\<rparr>"]
  show ?thesis by (simp add: LogAppender_setLevel_def)
next
  case (LogCall l v e)
  with assms Logger_log_result [OF assms(1), of l 2 sf v e] show ?thesis by simp
qed

definition manager_state :: log_state where
  "manager_state =
    \<lparr>ls_appenders = [\<lparr>ap_kind = StdoutAppender, ap_level = DEBUG, ap_hasFormatter = False,
        ap_formatter = Some (LogFormatter_new default_pattern)\<rparr>],
     ls_logger = [\<lparr>lg_root = None, lg_name = ''root'', lg_level = DEBUG, lg_appenders = [0],
        lg_formatter = Some (LogFormatter_new default_pattern)\<rparr>],
     ls_names = [''root'' \<mapsto> 0], ls_root = 0, ls_out = []\<rparr>"

lemma manager_start: "LoggerManager_new = Inr manager_state"
  by (simp add: LoggerManager_new_def Logger_new_def LogAppender_new_def addAppender_result
    upd_logger_def upd_appender_def manager_state_def)

lemma manager_inv: "log_inv manager_state"
  by (simp add: manager_state_def log_inv_def logger_ok_def)

interpretation logging: invariant_system "\<lambda>s. LoggerManager_new = Inr s" "log_step sf" log_inv for sf
proof unfold_locales
  show "log_inv s" if "LoggerManager_new = Inr s" for s using that by (auto simp: manager_start manager_inv)
  show "log_inv t" if "log_inv s" "log_step sf s t" for s t
    using that log_exec_legal unfolding log_step_def by (metis sum.inject(2))
qed

section \<open>Properties\<close>

text \<open>
  C33: Logging never meets a missing formatter. After any sequence of calls through valid pointers
  (creating loggers and appenders, adding, removing, changing levels and formatters, logging),
  every attached appender and every logger has a formatter, and every further such call ends
  without dereferencing a null pointer; in particular a log call needs at most the logger and
  its root.
\<close>

theorem logging_never_null:
  assumes "LoggerManager_new = Inr s0" and "(log_step sf)\<^sup>*\<^sup>* s0 s" and "log_legal op s"
  shows "log_inv s \<and> is_ok (log_exec sf op s)"
proof -
  have "log_inv s" by (rule logging.reachable_inv [OF assms(1,2)])
  with log_exec_legal [OF _ assms(3), of sf] show ?thesis by (auto simp: is_ok_iff)
qed

definition sample_run :: "(string \<Rightarrow> u64 \<Rightarrow> string) \<Rightarrow> log_op list \<Rightarrow> log_state outcome" where
  "sample_run sf ops = ofold (\<lambda>op s. if log_legal op s then log_exec sf op s else Inl (Undefined ''illegal'')) ops manager_state"

lemma sample_run_reachable:
  assumes "ofold (\<lambda>op s. if log_legal op s then log_exec sf op s else Inl (Undefined ''illegal'')) ops s = Inr t"
  shows "(log_step sf)\<^sup>*\<^sup>* s t"
  using assms
proof (induction ops arbitrary: s)
  case Nil
  then show ?case by simp
next
  case (Cons op ops)
  then obtain u where u: "log_legal op s" "log_exec sf op s = Inr u" "(log_step sf)\<^sup>*\<^sup>* u t"
    by (auto simp: obind_eq_Inr split: if_splits)
  then have "log_step sf s u" by (auto simp: log_step_def)
  from this u(3) show ?case by (rule converse_rtranclp_into_rtranclp)
qed

definition sample_event :: hps_LogEvent where
  "sample_event = LOG_LEVEL_event ''db'' WARN ''a.cpp'' 7 0 1 0 ''main'' ''hi''"

definition sample_ops :: "log_op list" where
  "sample_ops = [GetLogger ''db'', NewAppender (FileAppender ''x''), AddAppender 1 1, AppenderSetLevel 1 ERROR]"

definition sample_state :: log_state where
  "sample_state = (case sample_run (\<lambda>_ _. []) sample_ops of Inr s \<Rightarrow> s | Inl _ \<Rightarrow> manager_state)"

lemma sample_state_eq:
  "sample_run (\<lambda>_ _. []) sample_ops = Inr
    \<lparr>ls_appenders = ls_appenders manager_state @ [\<lparr>ap_kind = FileAppender ''x'', ap_level = ERROR, ap_hasFormatter = False,
        ap_formatter = Some (LogFormatter_new default_pattern)\<rparr>],
     ls_logger = ls_logger manager_state @ [\<lparr>lg_root = Some 0, lg_name = ''db'', lg_level = DEBUG, lg_appenders = [1],
        lg_formatter = Some (LogFormatter_new default_pattern)\<rparr>],
     ls_names = [''root'' \<mapsto> 0, ''db'' \<mapsto> 1], ls_root = 0, ls_out = []\<rparr>"
  by (simp add: sample_run_def sample_ops_def manager_state_def getLogger_def Logger_new_def LogAppender_new_def
    addAppender_result LogAppender_setLevel_def upd_logger_def upd_appender_def)

lemma sample_state_reached:
  "LoggerManager_new = Inr manager_state" "(log_step (\<lambda>_ _. []))\<^sup>*\<^sup>* manager_state sample_state"
  "length (ls_logger sample_state) = 2" "length (ls_appenders sample_state) = 2" "log_inv sample_state"
proof -
  show "LoggerManager_new = Inr manager_state" by (rule manager_start)
  have run: "sample_run (\<lambda>_ _. []) sample_ops = Inr sample_state"
    by (simp add: sample_state_def sample_state_eq)
  then show reach: "(log_step (\<lambda>_ _. []))\<^sup>*\<^sup>* manager_state sample_state"
    unfolding sample_run_def by (rule sample_run_reachable)
  show "log_inv sample_state" by (rule logging.reachable_inv [OF manager_start reach])
  show "length (ls_logger sample_state) = 2" "length (ls_appenders sample_state) = 2"
    by (simp_all add: sample_state_def sample_state_eq manager_state_def)
qed

theorem logging_never_null_witness:
  "is_ok (log_exec (\<lambda>_ _. []) (LogCall 1 ERROR sample_event) sample_state)"
  using logging_never_null [OF sample_state_reached(1,2), of "LogCall 1 ERROR sample_event"]
  by (simp add: sample_state_reached)



end
