(* ===== verification/Hps_LogMacros.thy ===== *)
theory Hps_LogMacros
  imports Hps_LoggerClaims
begin

text \<open>
  hps_sf/log.h and hps_sf/log.cpp, the ways to log beside the stream macro: the methods of a
  logger for one level, and the macro for a printf format with its event.
\<close>

section \<open>Methods for one level\<close>

definition Logger_debug where "Logger_debug strftime k l e s = Logger_log strftime k l DEBUG e s"
definition Logger_info where "Logger_info strftime k l e s = Logger_log strftime k l INFO e s"
definition Logger_warn where "Logger_warn strftime k l e s = Logger_log strftime k l WARN e s"
definition Logger_error where "Logger_error strftime k l e s = Logger_log strftime k l ERROR e s"
definition Logger_fatal where "Logger_fatal strftime k l e s = Logger_log strftime k l FATAL e s"

definition Logger_getFormatter :: "nat \<Rightarrow> log_state \<Rightarrow> hps_LogFormatter option outcome" where
  "Logger_getFormatter l s = on_logger l s (\<lambda>lg. Inr (lg_formatter lg))"

section \<open>Formatted events\<close>

text \<open>What \<open>vasprintf\<close> returned is an argument: the text, or a failure that adds nothing.\<close>

definition LogEvent_format :: "string option \<Rightarrow> hps_LogEvent \<Rightarrow> hps_LogEvent" where
  "LogEvent_format buf e = (case buf of None \<Rightarrow> e | Some t \<Rightarrow> e\<lparr>le_content := le_content e @ t\<rparr>)"

text \<open>The destructor of \<open>hps_LogEventWarp\<close>; \<open>l\<close> is the logger of the event.\<close>

definition LogEventWarp_delete ::
  "(string \<Rightarrow> u64 \<Rightarrow> string) \<Rightarrow> nat \<Rightarrow> nat \<Rightarrow> hps_LogEvent \<Rightarrow> log_state \<Rightarrow> log_state outcome" where
  "LogEventWarp_delete strftime k l e s = Logger_log strftime k l (le_level e) e s"

text \<open>
  The macro tests the level of its argument \<open>looger\<close>, but the event is made for whatever
  \<open>logger\<close> names where the macro is used.
\<close>

definition HPS_LOG_FMT_LEVEL ::
  "(string \<Rightarrow> u64 \<Rightarrow> string) \<Rightarrow> nat \<Rightarrow> nat \<Rightarrow> nat \<Rightarrow> Level \<Rightarrow> string \<Rightarrow> int \<Rightarrow> u32 \<Rightarrow> u32 \<Rightarrow> u64 \<Rightarrow> string \<Rightarrow>
   string option \<Rightarrow> log_state \<Rightarrow> log_state outcome" where
  "HPS_LOG_FMT_LEVEL strftime k looger logger level file line threadId fiberId time threadName buf s =
     on_logger looger s (\<lambda>tested.
       if lg_level tested \<le> level then on_logger logger s (\<lambda>lg.
         LogEventWarp_delete strftime k logger
           (LogEvent_format buf
             \<lparr>le_file = file, le_line = line, le_elapse = 0, le_threadId = threadId, le_fiberId = fiberId,
              le_time = time, le_threadName = threadName, le_content = [], le_loggerName = lg_name lg,
              le_level = level\<rparr>) s)
       else Inr s)"

text \<open>
  On the logger of the argument itself it logs what the stream macro logs, but for the
  elapsed milliseconds, 0 here and the fiber's number there.
\<close>

lemma formatted_like_stream:
  "HPS_LOG_FMT_LEVEL strftime k l l level file line threadId 0 time threadName (Some t) s =
   HPS_LOG_LEVEL strftime k l level file line 0 threadId time threadName t s"
  by (cases "look (ls_logger s) l")
    (simp_all add: HPS_LOG_FMT_LEVEL_def HPS_LOG_LEVEL_def LogEventWarp_delete_def LogEvent_format_def
      LOG_LEVEL_event_def on_logger_def)

text \<open>A line for a logger that would let it pass is lost when the tested logger is stricter.\<close>

lemma formatted_tests_argument:
  assumes "looger < length (ls_logger s)" and "\<not> lg_level (ls_logger s ! looger) \<le> level"
  shows "HPS_LOG_FMT_LEVEL strftime k looger logger level file line threadId fiberId time threadName buf s = Inr s"
  using assms by (simp add: HPS_LOG_FMT_LEVEL_def on_logger_def look_def)

end
