(* ===== verification/Hps_FileAppender.thy ===== *)
theory Hps_FileAppender
  imports Hps_LoggerClaims
begin

text \<open>
  hps_sf/log.cpp, the stream of \<open>hps_FileLogAppender\<close>. \<open>std::ofstream\<close> is modelled as the standard
  describes it: whether its buffer has a file open, and whether its state is failed. Whether the
  system can open the file and take the text are arguments of every call, as is the clock.
\<close>

section \<open>The output stream\<close>

record ofstream =
  os_open :: bool
  os_fail :: bool

definition ofstream_new :: ofstream where
  "ofstream_new = \<lparr>os_open = False, os_fail = False\<rparr>"

text \<open>
  \<open>close()\<close> fails if nothing is open. \<open>open()\<close> fails if a file is open already, else it clears
  the state when the system opens the file. Output does nothing in a failed state, and fails if
  nothing is open or the system does not take it.
\<close>

definition ofstream_close :: "ofstream \<Rightarrow> ofstream" where
  "ofstream_close f = (if os_open f then f\<lparr>os_open := False\<rparr> else f\<lparr>os_fail := True\<rparr>)"

definition ofstream_open :: "bool \<Rightarrow> ofstream \<Rightarrow> ofstream" where
  "ofstream_open ok f =
     (if os_open f then f\<lparr>os_fail := True\<rparr>
      else if ok then \<lparr>os_open = True, os_fail = False\<rparr> else f\<lparr>os_fail := True\<rparr>)"

definition ofstream_put :: "bool \<Rightarrow> string \<Rightarrow> ofstream \<Rightarrow> ofstream \<times> string list" where
  "ofstream_put ok t f =
     (if os_fail f then (f, [])
      else if os_open f \<and> ok then (f, [t])
      else (f\<lparr>os_fail := True\<rparr>, []))"

section \<open>The appender\<close>

text \<open>With what reached the file, and how often the error line was printed.\<close>

record hps_FileLogAppender =
  fl_level :: Level
  fl_formatter :: "hps_LogFormatter option"
  fl_filename :: string
  fl_filestream :: ofstream
  fl_latsTime :: u64
  fl_written :: "string list"
  fl_errors :: nat

definition FileLogAppender_reopen :: "bool \<Rightarrow> hps_FileLogAppender \<Rightarrow> bool \<times> hps_FileLogAppender" where
  "FileLogAppender_reopen ok s =
     (let f1 = (if \<not> os_fail (fl_filestream s) then ofstream_close (fl_filestream s) else fl_filestream s);
          f2 = ofstream_open ok f1 in
      (\<not> os_fail f2, s\<lparr>fl_filestream := f2\<rparr>))"

definition FileLogAppender_new :: "bool \<Rightarrow> string \<Rightarrow> hps_FileLogAppender" where
  "FileLogAppender_new ok filename =
     snd (FileLogAppender_reopen ok
       \<lparr>fl_level = DEBUG, fl_formatter = None, fl_filename = filename, fl_filestream = ofstream_new,
        fl_latsTime = 0, fl_written = [], fl_errors = 0\<rparr>)"

text \<open>The error line is printed when the stream is good after the output.\<close>

definition FileLogAppender_log ::
  "(string \<Rightarrow> u64 \<Rightarrow> string) \<Rightarrow> u64 \<Rightarrow> bool \<Rightarrow> bool \<Rightarrow> Level \<Rightarrow> hps_LogEvent \<Rightarrow> hps_FileLogAppender \<Rightarrow>
   hps_FileLogAppender outcome" where
  "FileLogAppender_log strftime now open_ok put_ok level e s =
     (if fl_level s \<le> level then
        let s1 = (if now \<noteq> fl_latsTime s
                  then (snd (FileLogAppender_reopen open_ok s))\<lparr>fl_latsTime := now\<rparr> else s) in
        obind (deref (fl_formatter s1) ''m_formatter'') (\<lambda>f.
          case ofstream_put put_ok (LogFormatter_format strftime level e f) (fl_filestream s1) of
            (g, out) \<Rightarrow> Inr (s1\<lparr>fl_filestream := g, fl_written := fl_written s1 @ out,
                                fl_errors := (if os_fail g then fl_errors s1 else Suc (fl_errors s1))\<rparr>))
      else Inr s)"

text \<open>A call: the clock, the two answers of the system, level and event.\<close>

type_synonym file_call = "u64 \<times> bool \<times> bool \<times> Level \<times> hps_LogEvent"

fun file_call :: "(string \<Rightarrow> u64 \<Rightarrow> string) \<Rightarrow> file_call \<Rightarrow> hps_FileLogAppender \<Rightarrow> hps_FileLogAppender outcome" where
  "file_call strftime (now, open_ok, put_ok, level, e) s = FileLogAppender_log strftime now open_ok put_ok level e s"

section \<open>The states of the stream\<close>

text \<open>A failed stream with an open file stays so; every other failed stream has no file.\<close>

definition stuck :: "hps_FileLogAppender \<Rightarrow> bool" where
  "stuck s \<longleftrightarrow> os_open (fl_filestream s) \<and> os_fail (fl_filestream s)"

definition healthy :: "hps_FileLogAppender \<Rightarrow> bool" where
  "healthy s \<longleftrightarrow> os_open (fl_filestream s) \<and> \<not> os_fail (fl_filestream s)"

lemmas stream_defs = ofstream_new_def ofstream_close_def ofstream_open_def ofstream_put_def
  FileLogAppender_reopen_def stuck_def healthy_def

lemma stuck_call:
  assumes "stuck s" and "file_call strftime c s = Inr t"
  shows "stuck t \<and> fl_written t = fl_written s \<and> fl_formatter t = fl_formatter s"
proof -
  obtain now op pu level e where c: "c = (now, op, pu, level, e)" by (cases c)
  show ?thesis
    using assms unfolding c
    by (auto simp: FileLogAppender_log_def stream_defs Let_def obind_eq_Inr deref_eq_Inr split: if_splits prod.splits)
qed

lemma stuck_calls:
  "stuck s \<Longrightarrow> ofold (file_call strftime) cs s = Inr t \<Longrightarrow> fl_written t = fl_written s"
proof (induction cs arbitrary: s)
  case Nil
  then show ?case by simp
next
  case (Cons c cs)
  then obtain u where u: "file_call strftime c s = Inr u" "ofold (file_call strftime) cs u = Inr t"
    by (auto simp: obind_eq_Inr)
  from stuck_call [OF Cons.prems(1) u(1)] Cons.IH [OF _ u(2)] show ?case by simp
qed

lemma call_defined: "fl_formatter s \<noteq> None \<Longrightarrow>
  \<exists>t. file_call strftime c s = Inr t \<and> fl_formatter t = fl_formatter s \<and> fl_level t = fl_level s"
  by (cases c) (auto simp: FileLogAppender_log_def FileLogAppender_reopen_def Let_def split: prod.split)

lemma calls_defined: "fl_formatter s \<noteq> None \<Longrightarrow> \<exists>t. ofold (file_call strftime) cs s = Inr t"
proof (induction cs arbitrary: s)
  case Nil
  then show ?case by simp
next
  case (Cons c cs)
  obtain u where "file_call strftime c s = Inr u" "fl_formatter u = fl_formatter s"
    using call_defined [OF Cons.prems] by blast
  with Cons show ?case by simp
qed

lemma healthy_call:
  assumes "healthy s" and "fl_formatter s = Some f"
  shows "\<exists>t. file_call strftime (now, True, True, level, e) s = Inr t \<and> healthy t \<and> fl_formatter t = Some f \<and>
    fl_level t = fl_level s \<and>
    fl_written t = fl_written s @ (if fl_level s \<le> level then [LogFormatter_format strftime level e f] else []) \<and>
    fl_errors t = fl_errors s + (if fl_level s \<le> level then 1 else 0)"
  using assms by (auto simp: FileLogAppender_log_def stream_defs Let_def)

lemma lost_call:
  assumes "healthy s" and "fl_formatter s = Some f" and "fl_level s \<le> level"
  shows "\<exists>t. file_call strftime (now, True, False, level, e) s = Inr t \<and> stuck t \<and> fl_formatter t = Some f \<and>
    fl_written t = fl_written s"
  using assms by (auto simp: FileLogAppender_log_def stream_defs Let_def)

section \<open>Properties\<close>

text \<open>
  While the system opens the file and takes the text, an appender with a good stream writes
  every event its level lets pass, in its format and in order, across all reopenings (one for
  every new second) - and prints the line \<open>LogFile error\<close> for each of them, because the test
  of the stream is the wrong way round.
\<close>

theorem file_log_writes_all:
  assumes "healthy s" and "fl_formatter s = Some f"
    and "list_all (\<lambda>(now, open_ok, put_ok, level, e). open_ok \<and> put_ok) cs"
  shows "\<exists>t. ofold (file_call strftime) cs s = Inr t \<and> healthy t \<and>
    fl_written t = fl_written s @ map (\<lambda>(now, open_ok, put_ok, level, e). LogFormatter_format strftime level e f)
      (filter (\<lambda>(now, open_ok, put_ok, level, e). fl_level s \<le> level) cs) \<and>
    fl_errors t = fl_errors s + length (filter (\<lambda>(now, open_ok, put_ok, level, e). fl_level s \<le> level) cs)"
  using assms
proof (induction cs arbitrary: s)
  case Nil
  then show ?case by simp
next
  case (Cons c cs)
  obtain now level e where c: "c = (now, True, True, level, e)" using Cons.prems(3) by (cases c) auto
  obtain u where u: "file_call strftime c s = Inr u" "healthy u" "fl_formatter u = Some f" "fl_level u = fl_level s"
    "fl_written u = fl_written s @ (if fl_level s \<le> level then [LogFormatter_format strftime level e f] else [])"
    "fl_errors u = fl_errors s + (if fl_level s \<le> level then 1 else 0)"
    using healthy_call [OF Cons.prems(1,2)] unfolding c by blast
  from Cons.IH [OF u(2,3)] Cons.prems(3) u show ?case by (auto simp: c)
qed

theorem file_log_writes_all_witness:
  "\<exists>t. ofold (file_call (\<lambda>_ _. [])) [(1, True, True, INFO, sample_event), (1, True, True, UNKNOW, sample_event), (2, True, True, WARN, sample_event)]
      ((FileLogAppender_new True ''x'')\<lparr>fl_formatter := Some (LogFormatter_new ''%p'')\<rparr>) = Inr t \<and>
    fl_written t = [''INFO'', ''WARN''] \<and> fl_errors t = 2"
proof -
  define s where "s = (FileLogAppender_new True ''x'')\<lparr>fl_formatter := Some (LogFormatter_new ''%p'')\<rparr>"
  have p: "LogFormatter_new ''%p'' = \<lparr>lf_pattern = ''%p'', lf_items = [LevelFormatItem], lf_error = False\<rparr>"
    using LogFormatter_new_printed [of "[LevelFormatItem]"] by (simp add: ends_name_def)
  have s: "healthy s" "fl_formatter s = Some (LogFormatter_new ''%p'')" "fl_written s = []" "fl_errors s = 0" "fl_level s = DEBUG"
    by (simp_all add: s_def FileLogAppender_new_def stream_defs Let_def)
  from file_log_writes_all [OF s(1,2), of "[(1, True, True, INFO, sample_event), (1, True, True, UNKNOW, sample_event), (2, True, True, WARN, sample_event)]" "\<lambda>_ _. []"]
  show ?thesis
    unfolding s_def [symmetric]
    by (auto simp: s(3-5) p LogFormatter_format_def level_defs LogLevel_ToString_def simp del: file_call.simps ofold.simps)
qed

text \<open>
  C35: One lost line is final. When the system once does not take the text of an appender with a
  good stream, the stream is failed with its file still open: \<open>reopen\<close> then skips closing it,
  and opening an open stream fails. Every later call returns, but nothing is ever written
  again, whatever the system would do and however many seconds pass.
\<close>

theorem one_failed_write_is_final:
  assumes "healthy s" and "fl_formatter s = Some f" and "fl_level s \<le> level"
  shows "\<exists>t. ofold (file_call strftime) ((now, True, False, level, e) # cs) s = Inr t \<and> fl_written t = fl_written s"
proof -
  obtain u where u: "file_call strftime (now, True, False, level, e) s = Inr u" "stuck u" "fl_formatter u = Some f"
    "fl_written u = fl_written s"
    using lost_call [OF assms] by blast
  obtain t where t: "ofold (file_call strftime) cs u = Inr t" using calls_defined [of u] u(3) by auto
  from stuck_calls [OF u(2) t] u t show ?thesis by simp
qed

theorem one_failed_write_is_final_witness:
  "\<exists>t. ofold (file_call (\<lambda>_ _. [])) [(1, True, False, INFO, sample_event), (2, True, True, FATAL, sample_event)]
      ((FileLogAppender_new True ''x'')\<lparr>fl_formatter := Some (LogFormatter_new ''%p'')\<rparr>) = Inr t \<and> fl_written t = []"
proof -
  let ?s = "(FileLogAppender_new True ''x'')\<lparr>fl_formatter := Some (LogFormatter_new ''%p'')\<rparr>"
  have "healthy ?s" "fl_level ?s \<le> INFO" "fl_written ?s = []"
    by (simp_all add: FileLogAppender_new_def stream_defs Let_def level_defs)
  with one_failed_write_is_final [of ?s "LogFormatter_new ''%p''" INFO "\<lambda>_ _. []" 1 sample_event
      "[(2, True, True, FATAL, sample_event)]"]
  show ?thesis by simp
qed

end
