(* ===== verification/Hps_Yaml.thy ===== *)
theory Hps_Yaml
  imports Hps_Config "HOL-Library.AList"
begin

text \<open>
  The rest of yaml-cpp that the sources call, as a parameter: loading, building and looking up.
  The documented behaviour is a predicate on the parameter, and a concrete document type with
  a printer and a reader satisfies it.
\<close>

section \<open>The library\<close>

text \<open>
  \<open>YAML::Load\<close>, \<open>YAML::Node()\<close>, assignment of a string, \<open>push_back\<close>, assignment to
  \<open>n[k]\<close>, \<open>size()\<close>, \<open>n[i]\<close>, \<open>n[k]\<close> with \<open>IsDefined()\<close>, \<open>as<std::string>()\<close>.
\<close>

record 'n yaml_doc = "'n yaml" +
  y_Load :: "string \<Rightarrow> 'n outcome"
  y_Null :: 'n
  y_string :: "string \<Rightarrow> 'n"
  y_IsSequence :: "'n \<Rightarrow> bool"
  y_push :: "'n \<Rightarrow> 'n \<Rightarrow> 'n"
  y_put :: "'n \<Rightarrow> string \<Rightarrow> 'n \<Rightarrow> 'n"
  y_size :: "'n \<Rightarrow> nat"
  y_at :: "'n \<Rightarrow> nat \<Rightarrow> 'n"
  y_get :: "'n \<Rightarrow> string \<Rightarrow> 'n option outcome"
  y_as_string :: "'n \<Rightarrow> string outcome"

definition map_node :: "('n, 'z) yaml_doc_scheme \<Rightarrow> 'n \<Rightarrow> bool" where
  "map_node Y n \<longleftrightarrow> n = y_Null Y \<or> y_IsMap Y n"

definition seq_node :: "('n, 'z) yaml_doc_scheme \<Rightarrow> 'n \<Rightarrow> bool" where
  "seq_node Y n \<longleftrightarrow> n = y_Null Y \<or> y_IsSequence Y n"

text \<open>
  What yaml-cpp promises: an emitted node is read back; a new node is empty; assigning to a key
  makes a node a map and updates its entries, which a look-up reads; pushing makes it a
  sequence with one more element; a string assigned is the string read.
\<close>

definition documented_yaml :: "('n, 'z) yaml_doc_scheme \<Rightarrow> bool" where
  "documented_yaml Y \<longleftrightarrow>
     (\<forall>n. y_Load Y (y_emit Y n) = Inr n) \<and>
     y_entries Y (y_Null Y) = [] \<and> y_size Y (y_Null Y) = 0 \<and>
     (\<forall>n k v. map_node Y n \<longrightarrow>
        y_IsMap Y (y_put Y n k v) \<and> y_entries Y (y_put Y n k v) = AList.update k v (y_entries Y n)) \<and>
     (\<forall>n k. map_node Y n \<longrightarrow> y_get Y n k = Inr (map_of (y_entries Y n) k)) \<and>
     (\<forall>n v. seq_node Y n \<longrightarrow>
        y_IsSequence Y (y_push Y n v) \<and> y_size Y (y_push Y n v) = Suc (y_size Y n) \<and>
        list_all (\<lambda>i. y_at Y (y_push Y n v) i = (if i = y_size Y n then v else y_at Y n i)) [0..<Suc (y_size Y n)]) \<and>
     (\<forall>s. y_as_string Y (y_string Y s) = Inr s)"

named_theorems yaml_laws \<open>the documented behaviour of the library\<close>

lemma documented_yamlD [yaml_laws]:
  assumes "documented_yaml Y"
  shows "y_Load Y (y_emit Y n) = Inr n"
    and "y_entries Y (y_Null Y) = []" and "y_size Y (y_Null Y) = 0"
    and "map_node Y n \<Longrightarrow> y_IsMap Y (y_put Y n k v)"
    and "map_node Y n \<Longrightarrow> y_entries Y (y_put Y n k v) = AList.update k v (y_entries Y n)"
    and "map_node Y n \<Longrightarrow> y_get Y n k = Inr (map_of (y_entries Y n) k)"
    and "seq_node Y n \<Longrightarrow> y_IsSequence Y (y_push Y n v)"
    and "seq_node Y n \<Longrightarrow> y_size Y (y_push Y n v) = Suc (y_size Y n)"
    and "seq_node Y n \<Longrightarrow> list_all (\<lambda>i. y_at Y (y_push Y n v) i = (if i = y_size Y n then v else y_at Y n i)) [0..<Suc (y_size Y n)]"
    and "y_as_string Y (y_string Y s) = Inr s"
  using assms unfolding documented_yaml_def by blast+

lemma node_kinds [simp]: "map_node Y (y_Null Y)" "seq_node Y (y_Null Y)"
  by (simp_all add: map_node_def seq_node_def)

lemma map_node_put: "documented_yaml Y \<Longrightarrow> map_node Y n \<Longrightarrow> map_node Y (y_put Y n k v)"
  by (simp add: map_node_def documented_yamlD(4))

section \<open>Building sequences and maps\<close>

definition seq_of :: "('n, 'z) yaml_doc_scheme \<Rightarrow> 'n list \<Rightarrow> 'n" where
  "seq_of Y ns = foldl (y_push Y) (y_Null Y) ns"

definition y_elems :: "('n, 'z) yaml_doc_scheme \<Rightarrow> 'n \<Rightarrow> 'n list" where
  "y_elems Y n = map (y_at Y n) [0..<y_size Y n]"

lemma elems_push:
  assumes "documented_yaml Y" and "seq_node Y n"
  shows "y_elems Y (y_push Y n v) = y_elems Y n @ [v]"
  using documented_yamlD(8) [OF assms] documented_yamlD(9) [OF assms, of v]
  by (simp add: y_elems_def list_all_iff)

lemma seq_of_node: "documented_yaml Y \<Longrightarrow> seq_node Y (seq_of Y ns)"
  by (induction ns rule: rev_induct) (simp_all add: seq_of_def seq_node_def documented_yamlD(7))

lemma elems_seq_of: "documented_yaml Y \<Longrightarrow> y_elems Y (seq_of Y ns) = ns"
proof (induction ns rule: rev_induct)
  case Nil
  then show ?case by (simp add: seq_of_def y_elems_def documented_yamlD(3))
next
  case (snoc n ns)
  then show ?case
    using elems_push [OF snoc.prems seq_of_node [OF snoc.prems], of ns n] by (simp add: seq_of_def)
qed

lemma put_same_key:
  assumes "documented_yaml Y" and "map_node Y n"
  shows "map_node Y (y_put Y n k v)" and "y_get Y (y_put Y n k v) j = Inr (if j = k then Some v else map_of (y_entries Y n) j)"
  using documented_yamlD(5,6) [OF assms(1)] assms map_node_put [OF assms]
  by (auto simp: update_conv')

section \<open>A document type\<close>

datatype ynode = YNull | YScalar string | YSeq "ynode list" | YMap "(string \<times> ynode) list"

text \<open>A number in unary with a dot, then what it counts.\<close>

definition put_count :: "nat \<Rightarrow> string" where
  "put_count n = replicate n (CHR ''1'') @ ''.''"

fun get_count :: "string \<Rightarrow> (nat \<times> string) option" where
  "get_count [] = None"
| "get_count (c # cs) =
     (if c = CHR ''1'' then map_option (\<lambda>(n, r). (Suc n, r)) (get_count cs)
      else if c = CHR ''.'' then Some (0, cs) else None)"

definition put_text :: "string \<Rightarrow> string" where
  "put_text s = put_count (length s) @ s"

definition get_text :: "string \<Rightarrow> (string \<times> string) option" where
  "get_text cs = (case get_count cs of None \<Rightarrow> None
     | Some (n, r) \<Rightarrow> if n \<le> length r then Some (take n r, drop n r) else None)"

fun put_node :: "ynode \<Rightarrow> string" where
  "put_node YNull = ''~''"
| "put_node (YScalar s) = ''s'' @ put_text s"
| "put_node (YSeq ns) = ''q'' @ put_count (length ns) @ concat (map put_node ns)"
| "put_node (YMap es) = ''m'' @ put_count (length es) @ concat (map (\<lambda>e. put_text (fst e) @ put_node (snd e)) es)"

fun repeat :: "nat \<Rightarrow> (string \<Rightarrow> ('a \<times> string) option) \<Rightarrow> string \<Rightarrow> ('a list \<times> string) option" where
  "repeat 0 p cs = Some ([], cs)"
| "repeat (Suc n) p cs = (case p cs of None \<Rightarrow> None
     | Some (x, r) \<Rightarrow> map_option (\<lambda>(xs, r'). (x # xs, r')) (repeat n p r))"

definition get_entry :: "(string \<Rightarrow> ('a \<times> string) option) \<Rightarrow> string \<Rightarrow> ((string \<times> 'a) \<times> string) option" where
  "get_entry p cs = (case get_text cs of None \<Rightarrow> None
     | Some (k, r) \<Rightarrow> map_option (\<lambda>(v, r'). ((k, v), r')) (p r))"

fun get_node :: "nat \<Rightarrow> string \<Rightarrow> (ynode \<times> string) option" where
  "get_node 0 cs = None"
| "get_node (Suc f) [] = None"
| "get_node (Suc f) (c # cs) =
     (if c = CHR ''~'' then Some (YNull, cs)
      else if c = CHR ''s'' then map_option (\<lambda>(s, r). (YScalar s, r)) (get_text cs)
      else (case get_count cs of None \<Rightarrow> None
        | Some (n, r) \<Rightarrow>
            if c = CHR ''q'' then map_option (\<lambda>(ns, r'). (YSeq ns, r')) (repeat n (get_node f) r)
            else if c = CHR ''m'' then map_option (\<lambda>(es, r'). (YMap es, r')) (repeat n (get_entry (get_node f)) r)
            else None))"

lemma get_put_count: "get_count (put_count n @ r) = Some (n, r)"
  by (induction n) (simp_all add: put_count_def)

lemma get_put_text: "get_text (put_text s @ r) = Some (s, r)"
  by (simp add: get_text_def put_text_def get_put_count)

lemma repeat_put:
  assumes "\<And>x r. x \<in> set xs \<Longrightarrow> p (q x @ r) = Some (x, r)"
  shows "repeat (length xs) p (concat (map q xs) @ r) = Some (xs, r)"
  using assms by (induction xs arbitrary: r) simp_all

fun depth :: "ynode \<Rightarrow> nat" where
  "depth YNull = 1"
| "depth (YScalar s) = 1"
| "depth (YSeq ns) = Suc (sum_list (map depth ns))"
| "depth (YMap es) = Suc (sum_list (map (\<lambda>e. depth (snd e)) es))"

lemma get_put_node: "depth n \<le> f \<Longrightarrow> get_node f (put_node n @ r) = Some (n, r)"
proof (induction n arbitrary: f r)
  case YNull
  then show ?case by (cases f) simp_all
next
  case (YScalar s)
  then show ?case by (cases f) (simp_all add: get_put_text)
next
  case (YSeq ns)
  then obtain g where f: "f = Suc g" "sum_list (map depth ns) \<le> g" by (cases f) auto
  have "get_node g (put_node x @ r) = Some (x, r)" if "x \<in> set ns" for x r
    using YSeq.IH [OF that, of g r] f(2) member_le_sum_list [of "depth x" "map depth ns"] that by simp
  from repeat_put [of ns "get_node g" put_node, OF this] show ?case by (simp add: f get_put_count)
next
  case (YMap es)
  then obtain g where f: "f = Suc g" "sum_list (map (\<lambda>e. depth (snd e)) es) \<le> g" by (cases f) auto
  have "get_entry (get_node g) ((put_text (fst x) @ put_node (snd x)) @ r) = Some (x, r)" if "x \<in> set es" for x r
  proof -
    have "snd x \<in> Basic_BNFs.snds x" by (cases x) simp
    with YMap.IH [OF that this, of g r] f(2) that
      member_le_sum_list [of "depth (snd x)" "map (\<lambda>e. depth (snd e)) es"]
    show ?thesis by (simp add: get_entry_def get_put_text)
  qed
  from repeat_put [of es "get_entry (get_node g)" "\<lambda>e. put_text (fst e) @ put_node (snd e)", OF this]
  show ?case by (simp add: f get_put_count)
qed

lemma depth_length: "depth n \<le> length (put_node n)"
proof (induction n)
  case (YSeq ns)
  have "sum_list (map depth ns) \<le> length (concat (map put_node ns))"
    using YSeq by (simp add: length_concat comp_def sum_list_mono)
  then show ?case by simp
next
  case (YMap es)
  have "depth (snd e) \<le> length (put_text (fst e) @ put_node (snd e))" if "e \<in> set es" for e
  proof -
    have "snd e \<in> Basic_BNFs.snds e" by (cases e) simp
    from YMap [OF that this] show ?thesis by simp
  qed
  then have "sum_list (map (\<lambda>e. depth (snd e)) es) \<le> sum_list (map (\<lambda>e. length (put_text (fst e) @ put_node (snd e))) es)"
    by (rule sum_list_mono)
  then show ?case by (simp add: length_concat comp_def)
qed simp_all

definition ynode_yaml :: "ynode yaml_doc" where
  "ynode_yaml = \<lparr>y_IsMap = (\<lambda>n. case n of YMap _ \<Rightarrow> True | _ \<Rightarrow> False),
     y_entries = (\<lambda>n. case n of YMap es \<Rightarrow> es | _ \<Rightarrow> []),
     y_IsScalar = (\<lambda>n. case n of YScalar _ \<Rightarrow> True | _ \<Rightarrow> False),
     y_Scalar = (\<lambda>n. case n of YScalar s \<Rightarrow> s | _ \<Rightarrow> []),
     y_emit = put_node,
     y_Load = (\<lambda>t. case get_node (length t) t of Some (n, []) \<Rightarrow> Inr n | _ \<Rightarrow> Inl (Thrown ''ParserException'')),
     y_Null = YNull, y_string = YScalar,
     y_IsSequence = (\<lambda>n. case n of YSeq _ \<Rightarrow> True | _ \<Rightarrow> False),
     y_push = (\<lambda>n v. case n of YSeq ns \<Rightarrow> YSeq (ns @ [v]) | _ \<Rightarrow> YSeq [v]),
     y_put = (\<lambda>n k v. case n of YMap es \<Rightarrow> YMap (AList.update k v es) | _ \<Rightarrow> YMap [(k, v)]),
     y_size = (\<lambda>n. case n of YSeq ns \<Rightarrow> length ns | YMap es \<Rightarrow> length es | _ \<Rightarrow> 0),
     y_at = (\<lambda>n i. case n of YSeq ns \<Rightarrow> if i < length ns then ns ! i else YNull | _ \<Rightarrow> YNull),
     y_get = (\<lambda>n k. case n of YMap es \<Rightarrow> Inr (map_of es k) | YScalar _ \<Rightarrow> Inl (Thrown ''BadSubscript'') | _ \<Rightarrow> Inr None),
     y_as_string = (\<lambda>n. case n of YScalar s \<Rightarrow> Inr s | YNull \<Rightarrow> Inr ''null'' | _ \<Rightarrow> Inl (Thrown ''BadConversion''))\<rparr>"

lemma ynode_load: "y_Load ynode_yaml (y_emit ynode_yaml n) = Inr n"
  using get_put_node [OF depth_length, of n "[]"] by (simp add: ynode_yaml_def)

lemma ynode_documented: "documented_yaml ynode_yaml"
proof -
  note load = ynode_load
  show ?thesis
    unfolding documented_yaml_def
    by (intro conjI allI load)
      (auto simp: ynode_yaml_def map_node_def seq_node_def nth_append list_all_iff split: ynode.splits)
qed

end
