(* ===== verification/Hps_LogConfig.thy ===== *)
theory Hps_LogConfig
  imports Hps_LoggerClaims Hps_Yaml Hps_StdSet "HOL-Library.List_Lexorder" "HOL-Library.Char_ord"
begin

text \<open>
  hps_sf/log.cpp, third part: the definitions of a logs configuration, their conversion from and
  to text, the listener that applies a change of them to the loggers, and the description of
  the loggers as text (\<open>toYAMLString\<close>). A \<open>std::set\<close> of definitions is its list in order.
\<close>

section \<open>Definitions\<close>

record hps_LogAppenderDefine =
  ad_type :: int
  ad_level :: Level
  ad_formatter :: string
  ad_file :: string

record hps_LogDefine =
  ld_name :: string
  ld_level :: Level
  ld_formatter :: string
  ld_appenders :: "hps_LogAppenderDefine list"

text \<open>\<open>operator==\<close> of both compares every member, which is equality here; \<open>operator<\<close> the names.\<close>

definition LogDefine_less :: "hps_LogDefine \<Rightarrow> hps_LogDefine \<Rightarrow> bool" where
  "LogDefine_less a b \<longleftrightarrow> ld_name a < ld_name b"

section \<open>From text\<close>

text \<open>\<open>n[k].IsDefined()\<close>, and then \<open>n[k].as<std::string>()\<close>.\<close>

definition string_member :: "('n, 'z) yaml_doc_scheme \<Rightarrow> 'n \<Rightarrow> string \<Rightarrow> string option outcome" where
  "string_member Y n k = obind (y_get Y n k) (\<lambda>m. case m of
     None \<Rightarrow> Inr None
   | Some x \<Rightarrow> obind (y_as_string Y x) (\<lambda>s. Inr (Some s)))"

definition or_empty :: "string option \<Rightarrow> string" where
  "or_empty s = (case s of None \<Rightarrow> [] | Some t \<Rightarrow> t)"

text \<open>One appender; \<open>None\<close> where the loop continues without it.\<close>

definition read_appender :: "('n, 'z) yaml_doc_scheme \<Rightarrow> 'n \<Rightarrow> hps_LogAppenderDefine option outcome" where
  "read_appender Y a = obind (string_member Y a ''type'') (\<lambda>ty. case ty of
     None \<Rightarrow> Inr None
   | Some type \<Rightarrow>
       if type = ''hps_FileLogAppender'' then
         obind (string_member Y a ''file'') (\<lambda>file. case file of
           None \<Rightarrow> Inr None
         | Some f \<Rightarrow> obind (string_member Y a ''formatter'') (\<lambda>fm.
             Inr (Some \<lparr>ad_type = 1, ad_level = UNKNOW, ad_formatter = or_empty fm, ad_file = f\<rparr>)))
       else if type = ''hps_StdoutLogAppender'' then
         Inr (Some \<lparr>ad_type = 2, ad_level = UNKNOW, ad_formatter = [], ad_file = []\<rparr>)
       else Inr None)"

definition read_appenders :: "('n, 'z) yaml_doc_scheme \<Rightarrow> 'n \<Rightarrow> hps_LogAppenderDefine list outcome" where
  "read_appenders Y aps = ofold (\<lambda>x acc. obind (read_appender Y (y_at Y aps x)) (\<lambda>r.
     Inr (case r of None \<Rightarrow> acc | Some lad \<Rightarrow> acc @ [lad]))) [0..<y_size Y aps] []"

definition read_define :: "('n, 'z) yaml_doc_scheme \<Rightarrow> 'n \<Rightarrow> hps_LogDefine option outcome" where
  "read_define Y n = obind (string_member Y n ''name'') (\<lambda>nm. case nm of
     None \<Rightarrow> Inr None
   | Some name \<Rightarrow>
       obind (string_member Y n ''level'') (\<lambda>lv.
       obind (string_member Y n ''formatter'') (\<lambda>fm.
       obind (y_get Y n ''appenders'') (\<lambda>aps.
       obind (case aps of None \<Rightarrow> Inr [] | Some seq \<Rightarrow> read_appenders Y seq) (\<lambda>as.
         Inr (Some \<lparr>ld_name = name, ld_level = LogLevel_FromString (or_empty lv),
                    ld_formatter = or_empty fm, ld_appenders = as\<rparr>))))))"

definition LogDefines_from :: "('n, 'z) yaml_doc_scheme \<Rightarrow> string \<Rightarrow> hps_LogDefine list outcome" where
  "LogDefines_from Y v = obind (y_Load Y v) (\<lambda>node.
     ofold (\<lambda>i vec. obind (read_define Y (y_at Y node i)) (\<lambda>r. case r of
         None \<Rightarrow> Inr vec
       | Some ld \<Rightarrow> obind (std_insert LogDefine_less ld vec) (\<lambda>(_, vec'). Inr vec')))
       [0..<y_size Y node] [])"

section \<open>To text\<close>

definition put_string :: "('n, 'z) yaml_doc_scheme \<Rightarrow> string \<Rightarrow> string \<Rightarrow> 'n \<Rightarrow> 'n" where
  "put_string Y k s n = y_put Y n k (y_string Y s)"

definition put_level :: "('n, 'z) yaml_doc_scheme \<Rightarrow> Level \<Rightarrow> 'n \<Rightarrow> 'n" where
  "put_level Y l n = (if l \<noteq> UNKNOW then put_string Y ''level'' (LogLevel_ToString l) n else n)"

text \<open>\<open>n[k].push_back(v)\<close>\<close>

definition push_member :: "('n, 'z) yaml_doc_scheme \<Rightarrow> string \<Rightarrow> 'n \<Rightarrow> 'n \<Rightarrow> 'n" where
  "push_member Y k n v =
     y_put Y n k (y_push Y (case y_get Y n k of Inr (Some m) \<Rightarrow> m | _ \<Rightarrow> y_Null Y) v)"

definition appender_node :: "('n, 'z) yaml_doc_scheme \<Rightarrow> hps_LogAppenderDefine \<Rightarrow> 'n" where
  "appender_node Y a =
     (let n1 = (if ad_type a = 1
                then put_string Y ''file'' (ad_file a) (put_string Y ''type'' ''hps_FileLogAppender'' (y_Null Y))
                else put_string Y ''type'' ''hps_StdoutLogAppender'' (y_Null Y));
          n2 = put_level Y (ad_level a) n1 in
      if ad_formatter a \<noteq> [] then put_string Y ''formatter'' (ad_formatter a) n2 else n2)"

definition define_node :: "('n, 'z) yaml_doc_scheme \<Rightarrow> hps_LogDefine \<Rightarrow> 'n" where
  "define_node Y i =
     (let n1 = put_level Y (ld_level i) (put_string Y ''name'' (ld_name i) (y_Null Y));
          n2 = (if ld_formatter i \<noteq> [] then put_string Y ''formatter'' (ld_formatter i) n1 else n1) in
      foldl (push_member Y ''appenders'') n2 (map (appender_node Y) (ld_appenders i)))"

definition LogDefines_to :: "('n, 'z) yaml_doc_scheme \<Rightarrow> hps_LogDefine list \<Rightarrow> string" where
  "LogDefines_to Y v = y_emit Y (foldl (y_push Y) (y_Null Y) (map (define_node Y) v))"

section \<open>The loggers as text\<close>

definition put_formatter :: "('n, 'z) yaml_doc_scheme \<Rightarrow> hps_LogFormatter option \<Rightarrow> 'n \<Rightarrow> 'n" where
  "put_formatter Y f n = (case f of None \<Rightarrow> n | Some g \<Rightarrow> put_string Y ''formatter'' (lf_pattern g) n)"

definition File_toYAMLString :: "('n, 'z) yaml_doc_scheme \<Rightarrow> string \<Rightarrow> hps_LogAppender \<Rightarrow> string" where
  "File_toYAMLString Y m_filename p =
     y_emit Y (put_formatter Y (if ap_hasFormatter p then ap_formatter p else None)
       (put_string Y ''type'' ''hps_FileAppender''
         (put_string Y ''file'' m_filename (put_level Y (ap_level p) (y_Null Y)))))"

definition Stdout_toYAMLString :: "('n, 'z) yaml_doc_scheme \<Rightarrow> hps_LogAppender \<Rightarrow> string" where
  "Stdout_toYAMLString Y p =
     y_emit Y (put_formatter Y (if ap_hasFormatter p then ap_formatter p else None)
       (put_level Y (ap_level p) (put_string Y ''type'' ''hps_StdoutLogAppender'' (y_Null Y))))"

definition LogAppender_toYAMLString :: "('n, 'z) yaml_doc_scheme \<Rightarrow> hps_LogAppender \<Rightarrow> string" where
  "LogAppender_toYAMLString Y p = (case ap_kind p of
     FileAppender m_filename \<Rightarrow> File_toYAMLString Y m_filename p
   | StdoutAppender \<Rightarrow> Stdout_toYAMLString Y p)"

lemmas toYAMLString_defs = LogAppender_toYAMLString_def File_toYAMLString_def Stdout_toYAMLString_def

definition Logger_toYAMLString :: "('n, 'z) yaml_doc_scheme \<Rightarrow> log_state \<Rightarrow> hps_Logger \<Rightarrow> string outcome" where
  "Logger_toYAMLString Y s lg =
     (let n1 = put_formatter Y (lg_formatter lg)
                 (put_string Y ''type'' ''hps_StdoutLogAppender''
                   (put_level Y (lg_level lg) (put_string Y ''name'' (lg_name lg) (y_Null Y)))) in
      obind (ofold (\<lambda>a n. on_appender a s (\<lambda>p.
               obind (y_Load Y (LogAppender_toYAMLString Y p)) (\<lambda>m. Inr (push_member Y ''appenders'' n m))))
             (lg_appenders lg) n1) (\<lambda>n. Inr (y_emit Y n)))"

text \<open>\<open>names\<close> are the keys of the map in its order.\<close>

definition LoggerManager_toYAMLString ::
  "('n, 'z) yaml_doc_scheme \<Rightarrow> string list \<Rightarrow> log_state \<Rightarrow> string outcome" where
  "LoggerManager_toYAMLString Y names s =
     obind (ofold (\<lambda>n node. obind (deref (ls_names s n) ''i.second'') (\<lambda>l. on_logger l s (\<lambda>lg.
              obind (Logger_toYAMLString Y s lg) (\<lambda>t. obind (y_Load Y t) (\<lambda>m. Inr (y_push Y node m))))))
            names (y_Null Y)) (\<lambda>node. Inr (y_emit Y node))"

section \<open>The listener\<close>

text \<open>An appender of a definition, on logger \<open>l\<close>: a type other than 1 and 2 leaves the pointer null.\<close>

definition make_appender :: "hps_LogAppenderDefine \<Rightarrow> log_state \<Rightarrow> (log_state \<times> nat) outcome" where
  "make_appender a s =
     (if ad_type a = 1 then Inr (LogAppender_new (FileAppender (ad_file a)) s)
      else if ad_type a = 2 then Inr (LogAppender_new StdoutAppender s)
      else Inl (NullDeref ''ap''))"

definition apply_appender :: "nat \<Rightarrow> hps_LogAppenderDefine \<Rightarrow> log_state \<Rightarrow> log_state outcome" where
  "apply_appender l a s =
     obind (make_appender a s) (\<lambda>(s1, ap).
     obind (LogAppender_setLevel ap (ad_level a) s1) (\<lambda>s2.
     obind (if ad_formatter a \<noteq> [] then
              (let fmt = LogFormatter_new (ad_formatter a) in
               if \<not> lf_error fmt then LogAppender_setFormatter ap (Some fmt) s2 else Inr s2)
            else Inr s2) (\<lambda>s3.
     Logger_addAppender l ap s3)))"

definition apply_to_logger :: "hps_LogDefine \<Rightarrow> nat \<Rightarrow> log_state \<Rightarrow> log_state outcome" where
  "apply_to_logger i l s =
     obind (Logger_setLevel l (ld_level i) s) (\<lambda>s1.
     obind (if ld_formatter i \<noteq> [] then Logger_setFormatter_string l (ld_formatter i) s1 else Inr s1) (\<lambda>s2.
     obind (Logger_clearAppenders l s2) (\<lambda>s3.
     ofold (apply_appender l) (ld_appenders i) s3)))"

text \<open>
  A definition of the new value: a logger for a new or a changed one; for an unchanged one the
  pointer stays null, and is used all the same.
\<close>

definition apply_define :: "hps_LogDefine list \<Rightarrow> hps_LogDefine \<Rightarrow> log_state \<Rightarrow> log_state outcome" where
  "apply_define old_value i s =
     obind (std_find LogDefine_less i old_value) (\<lambda>it.
       if (case it of None \<Rightarrow> True | Some p \<Rightarrow> i \<noteq> old_value ! p) then
         (case getLogger (ld_name i) s of (s1, l) \<Rightarrow> apply_to_logger i l s1)
       else Inl (NullDeref ''logger''))"

definition remove_define :: "hps_LogDefine list \<Rightarrow> hps_LogDefine \<Rightarrow> log_state \<Rightarrow> log_state outcome" where
  "remove_define new_value i s =
     obind (std_find LogDefine_less i new_value) (\<lambda>it. case it of
       None \<Rightarrow> (case getLogger (ld_name i) s of (s1, l) \<Rightarrow>
         obind (Logger_setLevel l 100 s1) (Logger_clearAppenders l))
     | Some _ \<Rightarrow> Inr s)"

definition on_logs_changed ::
  "(string \<Rightarrow> u64 \<Rightarrow> string) \<Rightarrow> nat \<Rightarrow> string \<Rightarrow> int \<Rightarrow> u32 \<Rightarrow> u32 \<Rightarrow> u64 \<Rightarrow> string \<Rightarrow>
   hps_LogDefine list \<Rightarrow> hps_LogDefine list \<Rightarrow> log_state \<Rightarrow> log_state outcome" where
  "on_logs_changed strftime k file line fiberId threadId time threadName old_value new_value s =
     obind (HPS_LOG_LEVEL strftime k (ls_root s) INFO file line fiberId threadId time threadName
              ''on_logger_change_conf_changed'' s) (\<lambda>s1.
     obind (ofold (apply_define old_value) new_value s1) (\<lambda>s2.
     ofold (remove_define new_value) old_value s2))"

end
