(* ===== verification/Hps_LexicalCast.thy ===== *)
theory Hps_LexicalCast
  imports Hps_Yaml
begin

text \<open>
  hps_sf/config.h, the partial specialisations of \<open>hps_LexicalCast\<close> for containers. The
  conversion of an element is an argument, which is how a template calls the next one; the
  \<open>boost::lexical_cast\<close> of the generic template stays a parameter. Every loop converts element by element
  through text: the text of an element is loaded as a node, a node is emitted as text.
\<close>

section \<open>The generic conversion\<close>

text \<open>\<open>lexical_cast\<close> stands for \<open>boost::lexical_cast\<close> from the one type to the other; it can throw.\<close>

definition LexicalCast :: "('f \<Rightarrow> 't outcome) \<Rightarrow> 'f \<Rightarrow> 't outcome" where
  "LexicalCast lexical_cast v = lexical_cast v"

section \<open>Vectors and lists\<close>

definition cast_vector_from ::
  "('n, 'z) yaml_doc_scheme \<Rightarrow> (string \<Rightarrow> 'a outcome) \<Rightarrow> string \<Rightarrow> 'a list outcome" where
  "cast_vector_from Y from_elem v =
     obind (y_Load Y v) (\<lambda>node.
       ofold (\<lambda>i vec. obind (from_elem (y_emit Y (y_at Y node i))) (\<lambda>x. Inr (vec @ [x])))
         [0..<y_size Y node] [])"

definition push_elem ::
  "('n, 'z) yaml_doc_scheme \<Rightarrow> ('a \<Rightarrow> string outcome) \<Rightarrow> 'a \<Rightarrow> 'n \<Rightarrow> 'n outcome" where
  "push_elem Y to_elem i node =
     obind (to_elem i) (\<lambda>t. obind (y_Load Y t) (\<lambda>m. Inr (y_push Y node m)))"

definition cast_vector_to ::
  "('n, 'z) yaml_doc_scheme \<Rightarrow> ('a \<Rightarrow> string outcome) \<Rightarrow> 'a list \<Rightarrow> string outcome" where
  "cast_vector_to Y to_elem v = obind (ofold (push_elem Y to_elem) v (y_Null Y)) (\<lambda>node. Inr (y_emit Y node))"

text \<open>The specialisations for lists have the same bodies.\<close>

definition cast_list_from ::
  "('n, 'z) yaml_doc_scheme \<Rightarrow> (string \<Rightarrow> 'a outcome) \<Rightarrow> string \<Rightarrow> 'a list outcome" where
  "cast_list_from = cast_vector_from"

definition cast_list_to ::
  "('n, 'z) yaml_doc_scheme \<Rightarrow> ('a \<Rightarrow> string outcome) \<Rightarrow> 'a list \<Rightarrow> string outcome" where
  "cast_list_to = cast_vector_to"

section \<open>Sets\<close>

text \<open>\<open>order\<close> lists a container in the order it iterates: sorted for \<open>std::set\<close> and \<open>std::map\<close>, any for the others.\<close>

definition cast_set_from ::
  "('n, 'z) yaml_doc_scheme \<Rightarrow> (string \<Rightarrow> 'a outcome) \<Rightarrow> string \<Rightarrow> 'a set outcome" where
  "cast_set_from Y from_elem v =
     obind (y_Load Y v) (\<lambda>node.
       ofold (\<lambda>i vec. obind (from_elem (y_emit Y (y_at Y node i))) (\<lambda>x. Inr (insert x vec)))
         [0..<y_size Y node] {})"

definition cast_set_to ::
  "('n, 'z) yaml_doc_scheme \<Rightarrow> ('a set \<Rightarrow> 'a list) \<Rightarrow> ('a \<Rightarrow> string outcome) \<Rightarrow> 'a set \<Rightarrow> string outcome" where
  "cast_set_to Y order to_elem v =
     obind (ofold (push_elem Y to_elem) (order v) (y_Null Y)) (\<lambda>node. Inr (y_emit Y node))"

text \<open>The specialisations for unordered sets have the same bodies; only the order of iteration differs.\<close>

definition cast_unordered_set_from ::
  "('n, 'z) yaml_doc_scheme \<Rightarrow> (string \<Rightarrow> 'a outcome) \<Rightarrow> string \<Rightarrow> 'a set outcome" where
  "cast_unordered_set_from = cast_set_from"

definition cast_unordered_set_to ::
  "('n, 'z) yaml_doc_scheme \<Rightarrow> ('a set \<Rightarrow> 'a list) \<Rightarrow> ('a \<Rightarrow> string outcome) \<Rightarrow> 'a set \<Rightarrow> string outcome" where
  "cast_unordered_set_to = cast_set_to"

section \<open>Maps\<close>

text \<open>\<open>insert\<close> keeps the entry that is there.\<close>

definition cast_map_from ::
  "('n, 'z) yaml_doc_scheme \<Rightarrow> (string \<Rightarrow> 'a outcome) \<Rightarrow> string \<Rightarrow> (string \<rightharpoonup> 'a) outcome" where
  "cast_map_from Y from_elem v =
     obind (y_Load Y v) (\<lambda>node.
       ofold (\<lambda>it vec. obind (from_elem (y_emit Y (snd it))) (\<lambda>x.
           Inr (if vec (fst it) = None then vec(fst it \<mapsto> x) else vec)))
         (y_entries Y node) Map.empty)"

definition put_elem ::
  "('n, 'z) yaml_doc_scheme \<Rightarrow> ('a \<Rightarrow> string outcome) \<Rightarrow> string \<times> 'a \<Rightarrow> 'n \<Rightarrow> 'n outcome" where
  "put_elem Y to_elem i node =
     obind (to_elem (snd i)) (\<lambda>t. obind (y_Load Y t) (\<lambda>m. Inr (y_put Y node (fst i) m)))"

definition cast_map_to ::
  "('n, 'z) yaml_doc_scheme \<Rightarrow> ((string \<rightharpoonup> 'a) \<Rightarrow> (string \<times> 'a) list) \<Rightarrow> ('a \<Rightarrow> string outcome) \<Rightarrow>
   (string \<rightharpoonup> 'a) \<Rightarrow> string outcome" where
  "cast_map_to Y order to_elem v =
     obind (ofold (put_elem Y to_elem) (order v) (y_Null Y)) (\<lambda>node. Inr (y_emit Y node))"

text \<open>And those for unordered maps.\<close>

definition cast_unordered_map_from ::
  "('n, 'z) yaml_doc_scheme \<Rightarrow> (string \<Rightarrow> 'a outcome) \<Rightarrow> string \<Rightarrow> (string \<rightharpoonup> 'a) outcome" where
  "cast_unordered_map_from = cast_map_from"

definition cast_unordered_map_to ::
  "('n, 'z) yaml_doc_scheme \<Rightarrow> ((string \<rightharpoonup> 'a) \<Rightarrow> (string \<times> 'a) list) \<Rightarrow> ('a \<Rightarrow> string outcome) \<Rightarrow> 
   (string \<rightharpoonup> 'a) \<Rightarrow> string outcome" where
  "cast_unordered_map_to = cast_map_to"

lemmas twins = cast_list_from_def cast_list_to_def cast_unordered_set_from_def cast_unordered_set_to_def
  cast_unordered_map_from_def cast_unordered_map_to_def

section \<open>Conversion through a node\<close>

text \<open>What a value becomes when it is written, stored as a node, and read back.\<close>

definition through_yaml ::
  "('n, 'z) yaml_doc_scheme \<Rightarrow> ('a \<Rightarrow> string outcome) \<Rightarrow> (string \<Rightarrow> 'a outcome) \<Rightarrow> 'a \<Rightarrow> 'a outcome" where
  "through_yaml Y to_v from_v x =
     obind (to_v x) (\<lambda>t. obind (y_Load Y t) (\<lambda>n. from_v (y_emit Y n)))"

definition elem_node :: "('n, 'z) yaml_doc_scheme \<Rightarrow> ('a \<Rightarrow> string outcome) \<Rightarrow> 'a \<Rightarrow> 'n" where
  "elem_node Y to_v x = (case obind (to_v x) (y_Load Y) of Inr n \<Rightarrow> n | Inl _ \<Rightarrow> y_Null Y)"

lemma through_yaml_elem:
  assumes "through_yaml Y to_v from_v x = Inr y"
  shows "obind (to_v x) (\<lambda>t. obind (y_Load Y t) f) = f (elem_node Y to_v x)"
    and "from_v (y_emit Y (elem_node Y to_v x)) = Inr y"
  using assms by (auto simp: through_yaml_def elem_node_def obind_eq_Inr)

lemma push_elem_ok: "through_yaml Y to_v from_v x = Inr y \<Longrightarrow> push_elem Y to_v x n = Inr (y_push Y n (elem_node Y to_v x))"
  by (simp add: push_elem_def through_yaml_elem(1))

lemma put_elem_ok:
  "through_yaml Y to_v from_v (snd e) = Inr y \<Longrightarrow>
   put_elem Y to_v e n = Inr (y_put Y n (fst e) (elem_node Y to_v (snd e)))"
  by (simp add: put_elem_def through_yaml_elem(1))

lemma push_elems:
  assumes "list_all (\<lambda>x. through_yaml Y to_v from_v x = Inr x) xs"
  shows "ofold (push_elem Y to_v) xs n = Inr (foldl (y_push Y) n (map (elem_node Y to_v) xs))"
  using assms by (induction xs arbitrary: n) (simp_all add: push_elem_ok [where from_v = from_v])

lemma ofold_nodes:
  assumes "list_all (\<lambda>x. from_v (y_emit Y (node x)) = Inr x) xs"
  shows "ofold (\<lambda>n acc. obind (from_v (y_emit Y n)) (\<lambda>x. Inr (f x acc))) (map node xs) acc
    = Inr (fold f xs acc)"
  using assms by (induction xs arbitrary: acc) simp_all

lemma ofold_map: "ofold f (map g xs) s = ofold (\<lambda>x. f (g x)) xs s"
  by (induction xs arbitrary: s) (auto intro: obind_cong)

lemma read_elems:
  assumes Y: "documented_yaml Y" and elems: "list_all (\<lambda>x. through_yaml Y to_v from_v x = Inr x) xs"
  defines "n \<equiv> seq_of Y (map (elem_node Y to_v) xs)"
  shows "ofold (\<lambda>i acc. obind (from_v (y_emit Y (y_at Y n i))) (\<lambda>x. Inr (f x acc))) [0..<y_size Y n] acc
    = Inr (fold f xs acc)"
proof -
  have "map (y_at Y n) [0..<y_size Y n] = map (elem_node Y to_v) xs"
    using elems_seq_of [OF Y] unfolding n_def y_elems_def by blast
  moreover have "list_all (\<lambda>x. from_v (y_emit Y (elem_node Y to_v x)) = Inr x) xs"
    using elems by (induction xs) (auto dest: through_yaml_elem(2))
  ultimately show ?thesis
    using ofold_nodes [of from_v Y "elem_node Y to_v" xs f acc]
    by (simp flip: ofold_map [of "\<lambda>m acc. obind (from_v (y_emit Y m)) (\<lambda>x. Inr (f x acc))" "y_at Y n"])
qed

lemma seq_written:
  assumes "list_all (\<lambda>x. through_yaml Y to_v from_v x = Inr x) xs"
  shows "obind (ofold (push_elem Y to_v) xs (y_Null Y)) (\<lambda>node. Inr (y_emit Y node))
    = Inr (y_emit Y (seq_of Y (map (elem_node Y to_v) xs)))"
  using push_elems [OF assms, of "y_Null Y"] by (simp add: seq_of_def)

lemma fold_snoc: "fold (\<lambda>x vec. vec @ [x]) xs acc = acc @ xs"
  by (induction xs arbitrary: acc) simp_all

lemma fold_insert: "fold insert xs acc = acc \<union> set xs"
  by (induction xs arbitrary: acc) auto

lemma seq_through:
  assumes "documented_yaml Y" and "list_all (\<lambda>x. through_yaml Y to_v from_v x = Inr x) xs"
  shows "cast_vector_from Y from_v (y_emit Y (seq_of Y (map (elem_node Y to_v) xs))) = Inr xs"
    and "cast_set_from Y from_v (y_emit Y (seq_of Y (map (elem_node Y to_v) xs))) = Inr (set xs)"
  using read_elems [OF assms, of "\<lambda>x vec. vec @ [x]" "[]"] read_elems [OF assms, of insert "{}"]
  by (simp_all add: cast_vector_from_def cast_set_from_def documented_yamlD(1) [OF assms(1)] fold_snoc fold_insert)

section \<open>Maps through a node\<close>

definition map_of_nodes :: "('n, 'z) yaml_doc_scheme \<Rightarrow> (string \<times> 'n) list \<Rightarrow> 'n" where
  "map_of_nodes Y es = foldl (\<lambda>n e. y_put Y n (fst e) (snd e)) (y_Null Y) es"

lemma update_fresh: "k \<notin> set (map fst es) \<Longrightarrow> AList.update k v es = es @ [(k, v)]"
  by (induction es) auto

lemma map_of_nodes_entries:
  assumes "documented_yaml Y" and "distinct (map fst es)"
  shows "map_node Y (map_of_nodes Y es) \<and> y_entries Y (map_of_nodes Y es) = es"
  using assms(2)
proof (induction es rule: rev_induct)
  case Nil
  show ?case by (simp add: map_of_nodes_def documented_yamlD(2) [OF assms(1)])
next
  case (snoc e es)
  then have IH: "map_node Y (map_of_nodes Y es)" "y_entries Y (map_of_nodes Y es) = es"
    and fresh: "fst e \<notin> set (map fst es)" by auto
  have "map_of_nodes Y (es @ [e]) = y_put Y (map_of_nodes Y es) (fst e) (snd e)"
    by (simp add: map_of_nodes_def)
  with map_node_put [OF assms(1) IH(1)] documented_yamlD(5) [OF assms(1) IH(1)] update_fresh [OF fresh]
  show ?case by (simp add: IH(2))
qed

lemma put_elems:
  assumes "list_all (\<lambda>e. through_yaml Y to_v from_v (snd e) = Inr (snd e)) es"
  shows "ofold (put_elem Y to_v) es n =
    Inr (foldl (\<lambda>n e. y_put Y n (fst e) (snd e)) n (map (\<lambda>e. (fst e, elem_node Y to_v (snd e))) es))"
  using assms by (induction es arbitrary: n) (simp_all add: put_elem_ok [where from_v = from_v])

lemma read_entries:
  assumes "list_all (\<lambda>e. through_yaml Y to_v from_v (snd e) = Inr (snd e)) es"
    and "distinct (map fst es)" and "\<forall>e \<in> set es. m (fst e) = None"
  shows "ofold (\<lambda>it vec. obind (from_v (y_emit Y (snd it))) (\<lambda>x.
      Inr (if vec (fst it) = None then vec(fst it \<mapsto> x) else vec)))
    (map (\<lambda>e. (fst e, elem_node Y to_v (snd e))) es) m = Inr (m ++ map_of es)"
  using assms
proof (induction es arbitrary: m)
  case Nil
  show ?case by simp
next
  case (Cons e es)
  have "from_v (y_emit Y (elem_node Y to_v (snd e))) = Inr (snd e)"
    using Cons.prems(1) by (auto dest: through_yaml_elem(2))
  moreover have "(m(fst e \<mapsto> snd e)) ++ map_of es = m ++ map_of (e # es)"
    using Cons.prems(2) by (simp add: map_add_upd_left dom_map_of_conv_image_fst)
  moreover have "\<forall>x \<in> set es. (m(fst e \<mapsto> snd e)) (fst x) = None"
    using Cons.prems(2,3) by (auto simp: image_iff)
  moreover have "m (fst e) = None" using Cons.prems(3) by simp
  ultimately show ?case
    using Cons.prems(1,2) Cons.IH [of "m(fst e \<mapsto> snd e)"] by (simp del: fun_upd_apply map_of.simps)
qed

lemma map_through:
  assumes Y: "documented_yaml Y" and elems: "list_all (\<lambda>e. through_yaml Y to_v from_v (snd e) = Inr (snd e)) es"
    and dist: "distinct (map fst es)"
  defines "n \<equiv> map_of_nodes Y (map (\<lambda>e. (fst e, elem_node Y to_v (snd e))) es)"
  shows "obind (ofold (put_elem Y to_v) es (y_Null Y)) (\<lambda>node. Inr (y_emit Y node)) = Inr (y_emit Y n)"
    and "cast_map_from Y from_v (y_emit Y n) = Inr (map_of es)"
proof -
  show "obind (ofold (put_elem Y to_v) es (y_Null Y)) (\<lambda>node. Inr (y_emit Y node)) = Inr (y_emit Y n)"
    by (simp add: put_elems [OF elems] n_def map_of_nodes_def)
  have "distinct (map fst (map (\<lambda>e. (fst e, elem_node Y to_v (snd e))) es))"
    using dist by (simp add: comp_def)
  then have "y_entries Y n = map (\<lambda>e. (fst e, elem_node Y to_v (snd e))) es"
    unfolding n_def using map_of_nodes_entries [OF Y] by blast
  then show "cast_map_from Y from_v (y_emit Y n) = Inr (map_of es)"
    using read_entries [OF elems dist, of Map.empty]
    by (simp add: cast_map_from_def documented_yamlD(1) [OF Y])
qed

section \<open>Properties\<close>

text \<open>A value comes back from text, and from text through a node.\<close>

definition comes_back ::
  "('n, 'z) yaml_doc_scheme \<Rightarrow> ('a \<Rightarrow> string outcome) \<Rightarrow> (string \<Rightarrow> 'a outcome) \<Rightarrow> 'a \<Rightarrow> bool" where
  "comes_back Y to_v from_v x \<longleftrightarrow>
     obind (to_v x) from_v = Inr x \<and> through_yaml Y to_v from_v x = Inr x"

lemma comes_backI:
  assumes "documented_yaml Y" and "to_v x = Inr (y_emit Y n)" and "from_v (y_emit Y n) = Inr x"
  shows "comes_back Y to_v from_v x"
  using assms by (simp add: comes_back_def through_yaml_def documented_yamlD(1) [OF assms(1)])

lemma vector_comes_back:
  assumes "documented_yaml Y" and "list_all (\<lambda>x. through_yaml Y to_v from_v x = Inr x) xs"
  shows "comes_back Y (cast_vector_to Y to_v) (cast_vector_from Y from_v) xs"
  using assms
  by (intro comes_backI [where n = "seq_of Y (map (elem_node Y to_v) xs)"])
    (auto simp: cast_vector_to_def seq_written seq_through)

lemma set_comes_back:
  assumes "documented_yaml Y" and "list_all (\<lambda>x. through_yaml Y to_v from_v x = Inr x) (order S)"
    and "set (order S) = S"
  shows "comes_back Y (cast_set_to Y order to_v) (cast_set_from Y from_v) S"
  using assms
  by (intro comes_backI [where n = "seq_of Y (map (elem_node Y to_v) (order S))"])
    (auto simp: cast_set_to_def seq_written seq_through)

lemma map_comes_back:
  assumes "documented_yaml Y"
    and "list_all (\<lambda>e. through_yaml Y to_v from_v (snd e) = Inr (snd e)) (order m)"
    and "distinct (map fst (order m))" and "map_of (order m) = m"
  shows "comes_back Y (cast_map_to Y order to_v) (cast_map_from Y from_v) m"
  using assms map_through [of Y to_v from_v "order m"]
  by (intro comes_backI [where n = "map_of_nodes Y (map (\<lambda>e. (fst e, elem_node Y to_v (snd e))) (order m))"])
    (auto simp: cast_map_to_def)

text \<open>
  C28: Writing a container as text and reading it back gives the same container, for vectors and
  lists, for sets and unordered sets, for maps and unordered maps, if every element comes back
  when it goes through text and a YAML node. The container then comes back through text and a
  node as well, so that the property carries over to containers of containers of any depth.
\<close>

theorem containers_round_trip:
  assumes "documented_yaml Y"
    and "list_all (\<lambda>x. through_yaml Y to_v from_v x = Inr x) xs"
    and "list_all (\<lambda>x. through_yaml Y to_v from_v x = Inr x) (set_order S)" and "set (set_order S) = S"
    and "list_all (\<lambda>e. through_yaml Y to_v from_v (snd e) = Inr (snd e)) (map_order m)"
    and "distinct (map fst (map_order m))" and "map_of (map_order m) = m"
  shows "comes_back Y (cast_vector_to Y to_v) (cast_vector_from Y from_v) xs \<and>
    comes_back Y (cast_list_to Y to_v) (cast_list_from Y from_v) xs \<and>
    comes_back Y (cast_set_to Y set_order to_v) (cast_set_from Y from_v) S \<and>
    comes_back Y (cast_unordered_set_to Y set_order to_v) (cast_unordered_set_from Y from_v) S \<and>
    comes_back Y (cast_map_to Y map_order to_v) (cast_map_from Y from_v) m \<and>
    comes_back Y (cast_unordered_map_to Y map_order to_v) (cast_unordered_map_from Y from_v) m"
  unfolding twins
  using assms by (intro conjI vector_comes_back set_comes_back map_comes_back)

section \<open>What the elements must satisfy\<close>

lemma push_elems_Inr:
  assumes "ofold (push_elem Y to_v) xs n = Inr m"
  shows "m = foldl (y_push Y) n (map (elem_node Y to_v) xs)"
    and "list_all (\<lambda>x. obind (to_v x) (y_Load Y) = Inr (elem_node Y to_v x)) xs"
proof -
  have "m = foldl (y_push Y) n (map (elem_node Y to_v) xs) \<and>
      list_all (\<lambda>x. obind (to_v x) (y_Load Y) = Inr (elem_node Y to_v x)) xs"
    using assms
  proof (induction xs arbitrary: n)
    case Nil
    then show ?case by simp
  next
    case (Cons x xs)
    from Cons.prems obtain n' where push: "push_elem Y to_v x n = Inr n'"
      and rest: "ofold (push_elem Y to_v) xs n' = Inr m" by (auto simp: obind_eq_Inr)
    from push obtain t k where "to_v x = Inr t" "y_Load Y t = Inr k" "n' = y_push Y n k"
      by (auto simp: push_elem_def obind_eq_Inr)
    with Cons.IH [OF rest] show ?case by (simp add: elem_node_def)
  qed
  then show "m = foldl (y_push Y) n (map (elem_node Y to_v) xs)"
    and "list_all (\<lambda>x. obind (to_v x) (y_Load Y) = Inr (elem_node Y to_v x)) xs" by blast+
qed

lemma ofold_collect:
  "ofold (\<lambda>n acc. obind (g n) (\<lambda>x. Inr (acc @ [x]))) ns acc = Inr r \<Longrightarrow>
   \<exists>ys. r = acc @ ys \<and> map g ns = map Inr ys"
proof (induction ns arbitrary: acc)
  case Nil
  then show ?case by simp
next
  case (Cons n ns)
  from Cons.prems obtain x where "g n = Inr x"
    and rest: "ofold (\<lambda>n acc. obind (g n) (\<lambda>x. Inr (acc @ [x]))) ns (acc @ [x]) = Inr r"
    by (auto simp: obind_eq_Inr)
  with Cons.IH [OF rest] show ?case by (auto intro: exI [of _ "x # _"])
qed

lemma vector_comes_back_only_if:
  assumes Y: "documented_yaml Y" and "comes_back Y (cast_vector_to Y to_v) (cast_vector_from Y from_v) xs"
  shows "list_all (\<lambda>x. through_yaml Y to_v from_v x = Inr x) xs"
proof -
  let ?nodes = "map (elem_node Y to_v) xs"
  obtain m where written: "ofold (push_elem Y to_v) xs (y_Null Y) = Inr m"
    and read: "cast_vector_from Y from_v (y_emit Y m) = Inr xs"
    using assms(2) by (auto simp: comes_back_def cast_vector_to_def obind_eq_Inr)
  note elems = push_elems_Inr [OF written]
  have m: "m = seq_of Y ?nodes" using elems(1) by (simp add: seq_of_def)
  have at: "map (y_at Y m) [0..<y_size Y m] = ?nodes"
    using elems_seq_of [OF Y] unfolding m y_elems_def by blast
  have "ofold (\<lambda>n acc. obind (from_v (y_emit Y n)) (\<lambda>x. Inr (acc @ [x]))) (map (y_at Y m) [0..<y_size Y m]) [] = Inr xs"
    using read unfolding ofold_map by (simp add: cast_vector_from_def documented_yamlD(1) [OF Y])
  from ofold_collect [OF this [unfolded at]]
  have "map (\<lambda>x. from_v (y_emit Y (elem_node Y to_v x))) xs = map Inr xs" by (simp add: comp_def)
  then have "list_all (\<lambda>x. from_v (y_emit Y (elem_node Y to_v x)) = Inr x) xs" by (induction xs) simp_all
  with elems(2) show ?thesis
    by (fastforce simp: list_all_iff through_yaml_def obind_eq_Inr)
qed

text \<open>
  Elements are parsed as YAML. A vector comes back from its text exactly if each element
  comes back through a YAML node. For a vector of strings, whose elements the generic conversion
  leaves as they are, that is: each string must be the text YAML emits for what it reads
  in it. A string with a leading blank, say, is changed.
\<close>

theorem vector_round_trip_iff:
  assumes "documented_yaml Y"
  shows "(comes_back Y (cast_vector_to Y to_v) (cast_vector_from Y from_v) xs \<longleftrightarrow>
      list_all (\<lambda>x. through_yaml Y to_v from_v x = Inr x) xs) \<and>
    (comes_back Y (cast_vector_to Y (LexicalCast Inr)) (cast_vector_from Y (LexicalCast Inr)) ss \<longleftrightarrow>
      list_all (\<lambda>s. case y_Load Y s of Inr n \<Rightarrow> y_emit Y n = s | Inl _ \<Rightarrow> False) ss)"
proof -
  have iff: "comes_back Y (cast_vector_to Y f) (cast_vector_from Y g) zs \<longleftrightarrow>
      list_all (\<lambda>x. through_yaml Y f g x = Inr x) zs" for f :: "'v \<Rightarrow> string outcome" and g zs
    using vector_comes_back [OF assms] vector_comes_back_only_if [OF assms] by blast
  have "through_yaml Y (LexicalCast Inr) (LexicalCast Inr) s = Inr s \<longleftrightarrow>
      (case y_Load Y s of Inr n \<Rightarrow> y_emit Y n = s | Inl _ \<Rightarrow> False)" for s
    by (cases "y_Load Y s") (auto simp: through_yaml_def LexicalCast_def)
  then show ?thesis by (simp add: iff)
qed

definition sample_to :: "nat \<Rightarrow> string outcome" where
  "sample_to n = Inr (put_node (YScalar (replicate n (CHR ''x''))))"

definition sample_of :: "string \<Rightarrow> nat outcome" where
  "sample_of t = (case y_Load ynode_yaml t of
     Inr (YScalar s) \<Rightarrow> Inr (length s) | _ \<Rightarrow> Inl (Thrown ''bad_lexical_cast''))"

lemma sample_through: "through_yaml ynode_yaml sample_to sample_of n = Inr n"
proof -
  have "put_node k = y_emit ynode_yaml k" for k by (simp add: ynode_yaml_def)
  then show ?thesis by (simp add: through_yaml_def sample_to_def sample_of_def ynode_load)
qed

theorem containers_round_trip_witness:
  "obind (cast_vector_to ynode_yaml sample_to [3, 0, 3]) (cast_vector_from ynode_yaml sample_of) = Inr [3, 0, 3] \<and>
   obind (cast_map_to ynode_yaml (\<lambda>_. [(''a'', 2), (''b'', 1)]) sample_to [''b'' \<mapsto> 1, ''a'' \<mapsto> 2])
     (cast_map_from ynode_yaml sample_of) = Inr [''b'' \<mapsto> 1, ''a'' \<mapsto> 2]"
  using containers_round_trip [OF ynode_documented, of sample_to sample_of "[3, 0, 3]" "\<lambda>_. [5, 1]" "{5, 1}"
      "\<lambda>_. [(''a'', 2), (''b'', 1)]" "[''b'' \<mapsto> 1, ''a'' \<mapsto> 2]"]
  by (simp add: sample_through comes_back_def)

text \<open>In the document type above a text without a leading mark does not parse.\<close>

theorem vector_round_trip_iff_witness:
  "\<not> comes_back ynode_yaml (cast_vector_to ynode_yaml (LexicalCast Inr)) (cast_vector_from ynode_yaml (LexicalCast Inr))
      [put_node YNull, '' x''] \<and>
   comes_back ynode_yaml (cast_vector_to ynode_yaml (LexicalCast Inr)) (cast_vector_from ynode_yaml (LexicalCast Inr))
      [put_node YNull, put_node (YScalar ''x'')]"
proof -
  have "y_Load ynode_yaml '' x'' = Inl (Thrown ''ParserException'')" by (simp add: ynode_yaml_def)
  moreover have "y_Load ynode_yaml (put_node n) = Inr n \<and> y_emit ynode_yaml n = put_node n" for n
    using ynode_load [of n] by (simp add: ynode_yaml_def)
  ultimately show ?thesis
    using vector_round_trip_iff [OF ynode_documented, of sample_to sample_of "[]"]
    by (simp del: put_node.simps)
qed

end
