(* ===== verification/Hps_LogConfigProps.thy ===== *)
theory Hps_LogConfigProps
  imports Hps_LogConfig Hps_LexicalCast
begin

text \<open>
  Lemmas on the logs configuration: what the nodes of definitions contain and what is read back
  from them, and what the listener does to one logger.
\<close>

section \<open>Sets of definitions\<close>

lemma define_order: "strict_weak_order LogDefine_less ds"
  unfolding strict_weak_order_def LogDefine_less_def by (auto simp: not_less)

lemma insert_last:
  assumes "sorted_wrt LogDefine_less (ds @ [d])"
  shows "std_insert LogDefine_less d ds = Inr (length ds, ds @ [d])"
proof -
  have less: "\<forall>y \<in> set ds. LogDefine_less y d" and sorted: "sorted_wrt LogDefine_less ds"
    using assms by (auto simp: sorted_wrt_append)
  have "lower_bound LogDefine_less d ds = length ds"
    using less by (simp add: lower_bound_def takeWhile_eq_all_conv [THEN iffD2])
  with sorted show ?thesis by (simp add: std_insert_def set_contract_def define_order Let_def)
qed

section \<open>Members of nodes\<close>

lemma put_string_node [yaml_laws]:
  assumes "documented_yaml Y" and "map_node Y n"
  shows "map_node Y (put_string Y k s n)"
    and "y_entries Y (put_string Y k s n) = AList.update k (y_string Y s) (y_entries Y n)"
  using assms by (simp_all add: put_string_def map_node_put documented_yamlD(5))

lemma put_level_node [yaml_laws]:
  assumes "documented_yaml Y" and "map_node Y n"
  shows "map_node Y (put_level Y l n)"
    and "y_entries Y (put_level Y l n) =
      (if l \<noteq> UNKNOW then AList.update ''level'' (y_string Y (LogLevel_ToString l)) (y_entries Y n) else y_entries Y n)"
  using assms by (simp_all add: put_level_def put_string_node)

lemma put_formatter_node [yaml_laws]:
  assumes "documented_yaml Y" and "map_node Y n"
  shows "map_node Y (put_formatter Y f n)"
    and "y_entries Y (put_formatter Y f n) =
      (case f of None \<Rightarrow> y_entries Y n | Some g \<Rightarrow> AList.update ''formatter'' (y_string Y (lf_pattern g)) (y_entries Y n))"
  using assms by (simp_all add: put_formatter_def put_string_node split: option.split)

lemma string_member_node:
  assumes "documented_yaml Y" and "map_node Y n"
  shows "string_member Y n k = (case map_of (y_entries Y n) k of
    None \<Rightarrow> Inr None | Some x \<Rightarrow> obind (y_as_string Y x) (\<lambda>s. Inr (Some s)))"
  using documented_yamlD(6) [OF assms] by (simp add: string_member_def)

lemma update_last: "k \<notin> set (map fst es) \<Longrightarrow> AList.update k v (es @ [(k, w)]) = es @ [(k, v)]"
  by (induction es) auto

lemma push_members:
  assumes Y: "documented_yaml Y" and n: "map_node Y n" and k: "k \<notin> set (map fst (y_entries Y n))"
  shows "map_node Y (foldl (push_member Y k) n ms) \<and>
    y_entries Y (foldl (push_member Y k) n ms) = y_entries Y n @ (if ms = [] then [] else [(k, seq_of Y ms)])"
proof (induction ms rule: rev_induct)
  case Nil
  with n show ?case by simp
next
  case (snoc m ms)
  let ?n = "foldl (push_member Y k) n ms"
  have node: "map_node Y ?n" and entries: "y_entries Y ?n = y_entries Y n @ (if ms = [] then [] else [(k, seq_of Y ms)])"
    using snoc by simp_all
  have "map_of (y_entries Y n) k = None" using k by (simp add: map_of_eq_None_iff)
  then have "y_get Y ?n k = Inr (if ms = [] then None else Some (seq_of Y ms))"
    using documented_yamlD(6) [OF Y node, of k] by (simp add: entries map_add_def)
  then have push: "push_member Y k ?n m = y_put Y ?n k (seq_of Y (ms @ [m]))"
    by (simp add: push_member_def seq_of_def)
  have "y_entries Y (push_member Y k ?n m) = y_entries Y n @ [(k, seq_of Y (ms @ [m]))]"
    unfolding push documented_yamlD(5) [OF Y node] entries
    using k update_fresh [OF k] update_last [OF k] by simp
  with push map_node_put [OF Y node] show ?case by simp
qed

section \<open>Reading what was written\<close>

text \<open>What a definition loses on the way: the level of an appender, the formatter of a stdout appender.\<close>

definition read_back_appender :: "hps_LogAppenderDefine \<Rightarrow> hps_LogAppenderDefine" where
  "read_back_appender a =
     (if ad_type a = 1
      then \<lparr>ad_type = 1, ad_level = UNKNOW, ad_formatter = ad_formatter a, ad_file = ad_file a\<rparr>
      else \<lparr>ad_type = 2, ad_level = UNKNOW, ad_formatter = [], ad_file = []\<rparr>)"

definition read_back_define :: "hps_LogDefine \<Rightarrow> hps_LogDefine" where
  "read_back_define d = d\<lparr>ld_level := (if ld_level d \<le> FATAL then ld_level d else UNKNOW),
     ld_appenders := map read_back_appender (ld_appenders d)\<rparr>"

lemma level_round_trip:
  "LogLevel_FromString (LogLevel_ToString l) = (if l \<le> FATAL then l else UNKNOW)"
  by (auto simp: LogLevel_FromString_def LogLevel_ToString_def level_defs)

lemma level_empty: "LogLevel_FromString [] = UNKNOW"
  by (simp add: LogLevel_FromString_def)

lemma read_appender_node:
  assumes "documented_yaml Y"
  shows "read_appender Y (appender_node Y a) = Inr (Some (read_back_appender a))"
proof -
  note Y = assms
  note nodes = put_string_node [OF Y] put_level_node [OF Y] documented_yamlD(2) [OF Y]
  have node: "map_node Y (appender_node Y a)"
    by (auto simp: appender_node_def Let_def nodes)
  show ?thesis
    unfolding read_appender_def string_member_node [OF Y node]
    by (simp add: appender_node_def Let_def nodes update_conv' documented_yamlD(10) [OF Y] read_back_appender_def or_empty_def)
qed

lemma read_seq:
  assumes "documented_yaml Y"
  shows "ofold (\<lambda>i. f (y_at Y (seq_of Y ns) i)) [0..<y_size Y (seq_of Y ns)] acc = ofold f ns acc"
  using ofold_map [of f "y_at Y (seq_of Y ns)" "[0..<y_size Y (seq_of Y ns)]" acc]
    elems_seq_of [OF assms, of ns] by (simp add: y_elems_def)

lemma read_appenders_seq:
  assumes "documented_yaml Y" and "\<And>x. x \<in> set xs \<Longrightarrow> read_appender Y (node x) = Inr (g x)"
  shows "read_appenders Y (seq_of Y (map node xs)) = Inr (List.map_filter g xs)"
proof -
  have "ofold (\<lambda>n acc. obind (read_appender Y n) (\<lambda>r. Inr (case r of None \<Rightarrow> acc | Some lad \<Rightarrow> acc @ [lad]))) (map node xs) acc
      = Inr (acc @ List.map_filter g xs)" for acc
    using assms(2) by (induction xs arbitrary: acc) (auto simp: List.map_filter_simps split: option.split)
  then show ?thesis
    using read_seq [OF assms(1), of "\<lambda>n acc. obind (read_appender Y n) (\<lambda>r. Inr (case r of None \<Rightarrow> acc | Some lad \<Rightarrow> acc @ [lad]))"]
    by (simp add: read_appenders_def)
qed

lemma read_define_members:
  assumes "documented_yaml Y" and "map_node Y n"
    and "map_of (y_entries Y n) ''name'' = Some (y_string Y nm)"
    and "map_of (y_entries Y n) ''level'' = map_option (y_string Y) lv"
    and "map_of (y_entries Y n) ''formatter'' = map_option (y_string Y) fm"
    and "map_of (y_entries Y n) ''appenders'' = (if ms = [] then None else Some (seq_of Y ms))"
    and "read_appenders Y (seq_of Y ms) = Inr as"
  shows "read_define Y n = Inr (Some \<lparr>ld_name = nm, ld_level = LogLevel_FromString (or_empty lv),
    ld_formatter = or_empty fm, ld_appenders = as\<rparr>)"
proof -
  have "as = []" if "ms = []"
    using assms(7) that by (simp add: read_appenders_def seq_of_def documented_yamlD(3) [OF assms(1)])
  then show ?thesis
    using assms(3-7)
    by (simp add: read_define_def string_member_node [OF assms(1,2)] documented_yamlD(10) [OF assms(1)]
        documented_yamlD(6) [OF assms(1,2)] or_empty_def split: option.split)
qed

lemma read_define_node:
  assumes Y: "documented_yaml Y"
  shows "read_define Y (define_node Y d) = Inr (Some (read_back_define d))"
proof -
  let ?n1 = "put_level Y (ld_level d) (put_string Y ''name'' (ld_name d) (y_Null Y))"
  let ?n2 = "if ld_formatter d \<noteq> [] then put_string Y ''formatter'' (ld_formatter d) ?n1 else ?n1"
  let ?ms = "map (appender_node Y) (ld_appenders d)"
  note nodes = put_string_node [OF Y] put_level_node [OF Y] documented_yamlD(2) [OF Y]
  have n2: "map_node Y ?n2" by (auto simp: nodes)
  have e2: "y_entries Y ?n2 = [(''name'', y_string Y (ld_name d))]
      @ (if ld_level d \<noteq> UNKNOW then [(''level'', y_string Y (LogLevel_ToString (ld_level d)))] else [])
      @ (if ld_formatter d \<noteq> [] then [(''formatter'', y_string Y (ld_formatter d))] else [])"
    by (simp add: nodes)
  have "define_node Y d = foldl (push_member Y ''appenders'') ?n2 ?ms" by (simp add: define_node_def Let_def)
  moreover have "''appenders'' \<notin> set (map fst (y_entries Y ?n2))" unfolding e2 by auto
  ultimately have node: "map_node Y (define_node Y d)"
    and entries: "y_entries Y (define_node Y d) = y_entries Y ?n2 @ (if ?ms = [] then [] else [(''appenders'', seq_of Y ?ms)])"
    using push_members [OF Y n2] by simp_all
  have aps: "read_appenders Y (seq_of Y ?ms) = Inr (map read_back_appender (ld_appenders d))"
    using read_appenders_seq [OF Y, of "ld_appenders d" "appender_node Y" "Some \<circ> read_back_appender"]
    by (simp add: read_appender_node [OF Y] List.map_filter_def comp_def)
  have "read_define Y (define_node Y d) = Inr (Some \<lparr>ld_name = ld_name d,
      ld_level = LogLevel_FromString (or_empty (if ld_level d \<noteq> UNKNOW then Some (LogLevel_ToString (ld_level d)) else None)),
      ld_formatter = or_empty (if ld_formatter d \<noteq> [] then Some (ld_formatter d) else None),
      ld_appenders = map read_back_appender (ld_appenders d)\<rparr>)"
    by (rule read_define_members [OF Y node _ _ _ _ aps]) (simp_all add: entries e2)
  then show ?thesis
    by (simp add: read_back_define_def or_empty_def level_round_trip level_empty level_defs)
qed

lemma read_defines:
  assumes "documented_yaml Y" and "list_all2 (\<lambda>n d. read_define Y n = Inr (Some d)) ns ds"
    and "sorted_wrt LogDefine_less ds"
  shows "LogDefines_from Y (y_emit Y (seq_of Y ns)) = Inr ds"
proof -
  let ?f = "\<lambda>n vec. obind (read_define Y n) (\<lambda>r. case r of None \<Rightarrow> Inr vec
    | Some ld \<Rightarrow> obind (std_insert LogDefine_less ld vec) (\<lambda>(_, vec'). Inr vec'))"
  have "ofold ?f ns acc = Inr (acc @ ds)" if "sorted_wrt LogDefine_less (acc @ ds)" for acc
    using assms(2) that
  proof (induction ns ds arbitrary: acc rule: list_all2_induct)
    case Nil
    show ?case by simp
  next
    case (Cons n ns d ds)
    have "sorted_wrt LogDefine_less (acc @ [d])" using Cons.prems by (auto simp: sorted_wrt_append)
    with Cons insert_last [of acc d] show ?case by simp
  qed
  from this [of "[]"] assms(3) read_seq [OF assms(1), of ?f ns "[]"] show ?thesis
    by (simp add: LogDefines_from_def documented_yamlD(1) [OF assms(1)])
qed

lemma read_back_sorted:
  "sorted_wrt LogDefine_less ds \<Longrightarrow> sorted_wrt LogDefine_less (map read_back_define ds)"
  unfolding LogDefine_less_def by (simp add: sorted_wrt_map read_back_define_def)

lemma defines_written:
  assumes "documented_yaml Y" and "sorted_wrt LogDefine_less ds"
  shows "LogDefines_from Y (LogDefines_to Y ds) = Inr (map read_back_define ds)"
proof -
  have "list_all2 (\<lambda>n d. read_define Y n = Inr (Some d)) (map (define_node Y) ds) (map read_back_define ds)"
    by (simp add: list_all2_map1 list_all2_map2 read_define_node [OF assms(1)] list_all2_same)
  from read_defines [OF assms(1) this read_back_sorted [OF assms(2)]] show ?thesis
    by (simp add: LogDefines_to_def seq_of_def)
qed

section \<open>Reading the description of the loggers\<close>

text \<open>What the reader makes of an appender's description: the type of a file appender is unknown to it.\<close>

definition described_appender :: "hps_LogAppender \<Rightarrow> hps_LogAppenderDefine option" where
  "described_appender p = (case ap_kind p of
     StdoutAppender \<Rightarrow> Some \<lparr>ad_type = 2, ad_level = UNKNOW, ad_formatter = [], ad_file = []\<rparr>
   | FileAppender _ \<Rightarrow> None)"

definition described_logger :: "log_state \<Rightarrow> hps_Logger \<Rightarrow> hps_LogDefine" where
  "described_logger s lg = \<lparr>ld_name = lg_name lg,
     ld_level = (if lg_level lg \<le> FATAL then lg_level lg else UNKNOW),
     ld_formatter = or_empty (map_option lf_pattern (lg_formatter lg)),
     ld_appenders = List.map_filter (\<lambda>a. described_appender (ls_appenders s ! a)) (lg_appenders lg)\<rparr>"

definition description_node :: "('n, 'z) yaml_doc_scheme \<Rightarrow> hps_LogAppender \<Rightarrow> 'n" where
  "description_node Y p = (case y_Load Y (LogAppender_toYAMLString Y p) of Inr n \<Rightarrow> n | Inl _ \<Rightarrow> y_Null Y)"

lemma description_loaded:
  "documented_yaml Y \<Longrightarrow> y_Load Y (LogAppender_toYAMLString Y p) = Inr (description_node Y p)"
  by (simp add: description_node_def toYAMLString_defs documented_yamlD(1) split: appender_kind.split)

lemma read_description:
  assumes Y: "documented_yaml Y"
  shows "read_appender Y (description_node Y p) = Inr (described_appender p)"
proof -
  note nodes = put_string_node [OF Y] put_level_node [OF Y] put_formatter_node [OF Y] documented_yamlD(2) [OF Y]
  have node: "map_node Y (description_node Y p)"
    by (auto simp: description_node_def toYAMLString_defs documented_yamlD(1) [OF Y] nodes
        split: appender_kind.split)
  show ?thesis
    unfolding read_appender_def string_member_node [OF Y node]
    by (simp add: description_node_def toYAMLString_defs documented_yamlD(1) [OF Y] nodes
        update_conv' documented_yamlD(10) [OF Y] described_appender_def split: appender_kind.split option.split)
qed

lemma logger_node:
  assumes Y: "documented_yaml Y"
    and valid: "list_all (\<lambda>a. a < length (ls_appenders s)) (lg_appenders lg)"
  obtains n where "Logger_toYAMLString Y s lg = Inr (y_emit Y n)"
    and "read_define Y n = Inr (Some (described_logger s lg))"
proof -
  let ?n1 = "put_formatter Y (lg_formatter lg)
    (put_string Y ''type'' ''hps_StdoutLogAppender''
      (put_level Y (lg_level lg) (put_string Y ''name'' (lg_name lg) (y_Null Y))))"
  let ?ms = "map (\<lambda>a. description_node Y (ls_appenders s ! a)) (lg_appenders lg)"
  let ?n = "foldl (push_member Y ''appenders'') ?n1 ?ms"
  note nodes = put_string_node [OF Y] put_level_node [OF Y] put_formatter_node [OF Y] documented_yamlD(2) [OF Y]
  have n1: "map_node Y ?n1" by (simp add: nodes)
  have e1: "y_entries Y ?n1 = [(''name'', y_string Y (lg_name lg))]
      @ (if lg_level lg \<noteq> UNKNOW then [(''level'', y_string Y (LogLevel_ToString (lg_level lg)))] else [])
      @ [(''type'', y_string Y ''hps_StdoutLogAppender'')]
      @ (case lg_formatter lg of None \<Rightarrow> [] | Some g \<Rightarrow> [(''formatter'', y_string Y (lf_pattern g))])"
    by (simp add: nodes split: option.split)
  have "''appenders'' \<notin> set (map fst (y_entries Y ?n1))" unfolding e1 by (auto split: option.splits)
  from push_members [OF Y n1 this, of ?ms] have node: "map_node Y ?n"
    and entries: "y_entries Y ?n = y_entries Y ?n1 @ (if ?ms = [] then [] else [(''appenders'', seq_of Y ?ms)])"
    by simp_all
  have fold: "ofold (\<lambda>a n. on_appender a s (\<lambda>p.
        obind (y_Load Y (LogAppender_toYAMLString Y p)) (\<lambda>m. Inr (push_member Y ''appenders'' n m)))) xs n
      = Inr (foldl (push_member Y ''appenders'') n (map (\<lambda>a. description_node Y (ls_appenders s ! a)) xs))"
    if "list_all (\<lambda>a. a < length (ls_appenders s)) xs" for xs n
    using that by (induction xs arbitrary: n) (simp_all add: description_loaded [OF Y])
  have emitted: "Logger_toYAMLString Y s lg = Inr (y_emit Y ?n)"
    using fold [OF valid, of ?n1] by (simp add: Logger_toYAMLString_def)
  have aps: "read_appenders Y (seq_of Y ?ms) = Inr (List.map_filter (\<lambda>a. described_appender (ls_appenders s ! a)) (lg_appenders lg))"
    by (rule read_appenders_seq [OF Y]) (rule read_description [OF Y])
  have "read_define Y ?n = Inr (Some \<lparr>ld_name = lg_name lg,
      ld_level = LogLevel_FromString (or_empty (if lg_level lg \<noteq> UNKNOW then Some (LogLevel_ToString (lg_level lg)) else None)),
      ld_formatter = or_empty (map_option lf_pattern (lg_formatter lg)),
      ld_appenders = List.map_filter (\<lambda>a. described_appender (ls_appenders s ! a)) (lg_appenders lg)\<rparr>)"
    by (rule read_define_members [OF Y node _ _ _ _ aps]) (simp_all add: entries e1 option.map_comp comp_def split: option.split)
  then have "read_define Y ?n = Inr (Some (described_logger s lg))"
    by (simp add: described_logger_def or_empty_def level_round_trip level_empty level_defs)
  with emitted show thesis by (rule that)
qed

lemma manager_described:
  assumes Y: "documented_yaml Y" and inv: "log_inv s"
    and names: "sorted_wrt (<) names" "list_all (\<lambda>n. ls_names s n \<noteq> None) names"
  shows "obind (LoggerManager_toYAMLString Y names s) (LogDefines_from Y) =
    Inr (map (\<lambda>n. described_logger s (ls_logger s ! the (ls_names s n))) names)"
proof -
  let ?lg = "\<lambda>n. ls_logger s ! the (ls_names s n)"
  have valid: "\<exists>l. ls_names s n = Some l \<and> l < length (ls_logger s) \<and> lg_name (ls_logger s ! l) = n \<and>
      list_all (\<lambda>a. a < length (ls_appenders s)) (lg_appenders (ls_logger s ! l))" if n: "n \<in> set names" for n
  proof -
    obtain l where l: "ls_names s n = Some l" using n names(2) by (auto simp: list_all_iff)
    then have "l < length (ls_logger s)" "lg_name (ls_logger s ! l) = n" using inv by (auto simp: log_inv_def)
    with l log_inv_logger [OF inv, of l] show ?thesis by (auto simp: logger_ok_def list_all_iff)
  qed
  have "\<forall>n \<in> set names. \<exists>m. Logger_toYAMLString Y s (?lg n) = Inr (y_emit Y m) \<and>
      read_define Y m = Inr (Some (described_logger s (?lg n)))"
  proof
    fix n
    assume "n \<in> set names"
    then have "list_all (\<lambda>a. a < length (ls_appenders s)) (lg_appenders (?lg n))" using valid by fastforce
    from logger_node [OF Y this] show "\<exists>m. Logger_toYAMLString Y s (?lg n) = Inr (y_emit Y m) \<and>
      read_define Y m = Inr (Some (described_logger s (?lg n)))" by blast
  qed
  from bchoice [OF this] obtain node where node: "\<And>n. n \<in> set names \<Longrightarrow>
      Logger_toYAMLString Y s (?lg n) = Inr (y_emit Y (node n)) \<and>
      read_define Y (node n) = Inr (Some (described_logger s (?lg n)))"
    by blast
  let ?f = "\<lambda>n node. obind (deref (ls_names s n) ''i.second'') (\<lambda>l. on_logger l s (\<lambda>lg.
      obind (Logger_toYAMLString Y s lg) (\<lambda>t. obind (y_Load Y t) (\<lambda>m. Inr (y_push Y node m)))))"
  have fold: "ofold ?f ns acc = Inr (foldl (y_push Y) acc (map node ns))" if "set ns \<subseteq> set names" for ns acc
    using that
  proof (induction ns arbitrary: acc)
    case Nil
    show ?case by simp
  next
    case (Cons n ns)
    from Cons.prems valid [of n] obtain l where "ls_names s n = Some l" "l < length (ls_logger s)" by auto
    with Cons node [of n] show ?case by (simp add: documented_yamlD(1) [OF Y])
  qed
  have "list_all2 (\<lambda>n d. read_define Y n = Inr (Some d)) (map node names) (map (\<lambda>n. described_logger s (?lg n)) names)"
    using node by (simp add: list_all2_map1 list_all2_map2 list_all2_same)
  moreover have "sorted_wrt LogDefine_less (map (\<lambda>n. described_logger s (?lg n)) names)"
  proof -
    have "ld_name (described_logger s (?lg n)) = n" if "n \<in> set names" for n
      using valid [OF that] by (auto simp: described_logger_def)
    then show ?thesis
      using names(1) unfolding LogDefine_less_def sorted_wrt_map by (auto elim: sorted_wrt_mono_rel [rotated])
  qed
  ultimately have "LogDefines_from Y (y_emit Y (seq_of Y (map node names))) =
      Inr (map (\<lambda>n. described_logger s (?lg n)) names)"
    by (rule read_defines [OF Y])
  with fold [of names "y_Null Y"] show ?thesis by (simp add: LoggerManager_toYAMLString_def seq_of_def)
qed

end
