(* ===== verification/Hps_LogListener.thy ===== *)
theory Hps_LogListener
  imports Hps_LogConfigProps
begin

text \<open>
  Lemmas on the listener of the logs configuration: what one definition does to its logger and
  that it leaves the loggers configured before as they are.
\<close>

section \<open>One appender\<close>

definition usable_pattern :: "string \<Rightarrow> bool" where
  "usable_pattern p \<longleftrightarrow> p \<noteq> [] \<and> \<not> lf_error (LogFormatter_new p)"

definition configured_appender :: "hps_LogFormatter option \<Rightarrow> hps_LogAppenderDefine \<Rightarrow> hps_LogAppender" where
  "configured_appender f a =
     \<lparr>ap_kind = (if ad_type a = 1 then FileAppender (ad_file a) else StdoutAppender),
      ap_level = ad_level a, ap_hasFormatter = usable_pattern (ad_formatter a),
      ap_formatter = (if usable_pattern (ad_formatter a) then Some (LogFormatter_new (ad_formatter a)) else f)\<rparr>"

definition known_type :: "hps_LogAppenderDefine \<Rightarrow> bool" where
  "known_type a \<longleftrightarrow> ad_type a = 1 \<or> ad_type a = 2"

lemma apply_appender_result:
  assumes "l < length (ls_logger s)" and "known_type a"
  shows "apply_appender l a s = Inr (s
    \<lparr>ls_appenders := ls_appenders s @ [configured_appender (lg_formatter (ls_logger s ! l)) a],
     ls_logger := (ls_logger s)[l := (ls_logger s ! l)\<lparr>lg_appenders := lg_appenders (ls_logger s ! l) @ [length (ls_appenders s)]\<rparr>]\<rparr>)"
  using assms
  by (auto simp: apply_appender_def make_appender_def known_type_def LogAppender_new_def LogAppender_setLevel_def
      LogAppender_setFormatter_def Let_def addAppender_result configured_appender_def usable_pattern_def
      upd_logger_def upd_appender_def nth_append list_update_append)

lemma apply_appenders_result:
  assumes "l < length (ls_logger s)" and "list_all known_type as"
  shows "ofold (apply_appender l) as s = Inr (s
    \<lparr>ls_appenders := ls_appenders s @ map (configured_appender (lg_formatter (ls_logger s ! l))) as,
     ls_logger := (ls_logger s)[l := (ls_logger s ! l)\<lparr>lg_appenders := lg_appenders (ls_logger s ! l)
       @ [length (ls_appenders s)..<length (ls_appenders s) + length as]\<rparr>]\<rparr>)"
  using assms
proof (induction as arbitrary: s)
  case Nil
  then show ?case by simp
next
  case (Cons a xs)
  have "[N..<N + length (a # xs)] = N # [Suc N..<Suc N + length xs]" for N
    by (simp add: upt_conv_Cons del: upt_Suc)
  with Cons.prems Cons.IH show ?case
    by (simp add: apply_appender_result del: upt_Suc)
qed

section \<open>One logger\<close>

lemma inherit_formatters_result:
  assumes "\<forall>a \<in> set xs. a < length (ls_appenders s)"
  obtains aps where "ofold (inherit_formatter val) xs s = Inr (s\<lparr>ls_appenders := aps\<rparr>)"
    and "length aps = length (ls_appenders s)" and "\<forall>a. a \<notin> set xs \<longrightarrow> aps ! a = ls_appenders s ! a"
proof -
  have "\<exists>aps. ofold (inherit_formatter val) xs s = Inr (s\<lparr>ls_appenders := aps\<rparr>) \<and>
      length aps = length (ls_appenders s) \<and> (\<forall>a. a \<notin> set xs \<longrightarrow> aps ! a = ls_appenders s ! a)"
    using assms
  proof (induction xs arbitrary: s)
    case Nil
    show ?case by (rule exI [of _ "ls_appenders s"]) simp
  next
    case (Cons x xs)
    define q where "q = (if ap_hasFormatter (ls_appenders s ! x) then ls_appenders s
      else (ls_appenders s)[x := (ls_appenders s ! x)\<lparr>ap_formatter := val\<rparr>])"
    have step: "inherit_formatter val x s = Inr (s\<lparr>ls_appenders := q\<rparr>)"
      using Cons.prems by (simp add: inherit_formatter_def q_def upd_appender_def)
    have len: "length q = length (ls_appenders s)" by (simp add: q_def)
    from Cons.IH [of "s\<lparr>ls_appenders := q\<rparr>"] Cons.prems len obtain aps where
      "ofold (inherit_formatter val) xs (s\<lparr>ls_appenders := q\<rparr>) = Inr (s\<lparr>ls_appenders := aps\<rparr>)"
      "length aps = length q" "\<forall>a. a \<notin> set xs \<longrightarrow> aps ! a = q ! a" by auto
    then show ?case using step len by (intro exI [of _ aps]) (auto simp: q_def)
  qed
  then show thesis using that by blast
qed

lemma fresh_appenders_inv:
  assumes inv: "log_inv b" and l: "l < length (ls_logger b)" and ps: "list_all (\<lambda>p. ap_formatter p \<noteq> None) ps"
  shows "log_inv (b\<lparr>ls_appenders := ls_appenders b @ ps,
    ls_logger := (ls_logger b)[l := (ls_logger b ! l)\<lparr>lg_appenders := [length (ls_appenders b)..<length (ls_appenders b) + length ps]\<rparr>]\<rparr>)"
    (is "log_inv ?t")
proof -
  have "logger_ok ?t lg" if "logger_ok b lg" for lg
    using that by (auto simp: logger_ok_def nth_append)
  moreover have "logger_ok ?t ((ls_logger b ! l)\<lparr>lg_appenders := [length (ls_appenders b)..<length (ls_appenders b) + length ps]\<rparr>)"
    using log_inv_logger [OF inv l] ps by (auto simp: logger_ok_def nth_append list_all_length)
  ultimately show ?thesis
    using inv ps l unfolding log_inv_def by (auto simp: nth_list_update list_all_iff)
qed

definition configured_formatter :: "hps_LogDefine \<Rightarrow> hps_LogFormatter option \<Rightarrow> hps_LogFormatter option" where
  "configured_formatter i f = (if usable_pattern (ld_formatter i) then Some (LogFormatter_new (ld_formatter i)) else f)"

lemma set_level_inv:
  assumes inv: "log_inv s" and l: "l < length (ls_logger s)"
  shows "log_inv (s\<lparr>ls_logger := (ls_logger s)[l := (ls_logger s ! l)\<lparr>lg_level := v\<rparr>]\<rparr>)"
proof -
  have "log_inv (upd_logger l (\<lambda>lg. lg\<lparr>lg_level := v\<rparr>) s)"
    by (rule upd_logger_inv [OF inv l]) (use log_inv_logger [OF inv l] in \<open>simp_all add: logger_ok_def\<close>)
  then show ?thesis by (simp add: upd_logger_def)
qed

text \<open>The level and the formatter of the logger, with the appenders that follow its formatter.\<close>

lemma set_level_formatter:
  assumes inv: "log_inv s" and l: "l < length (ls_logger s)"
    and f_def: "f = configured_formatter i (lg_formatter (ls_logger s ! l))"
  obtains aps where "length aps = length (ls_appenders s)"
    and "\<forall>a. a \<notin> set (lg_appenders (ls_logger s ! l)) \<longrightarrow> aps ! a = ls_appenders s ! a"
    and "obind (Logger_setLevel l (ld_level i) s)
        (\<lambda>s1. if ld_formatter i \<noteq> [] then Logger_setFormatter_string l (ld_formatter i) s1 else Inr s1)
      = Inr (s\<lparr>ls_appenders := aps,
          ls_logger := (ls_logger s)[l := (ls_logger s ! l)\<lparr>lg_level := ld_level i, lg_formatter := f\<rparr>]\<rparr>)"
    and "log_inv (s\<lparr>ls_appenders := aps,
          ls_logger := (ls_logger s)[l := (ls_logger s ! l)\<lparr>lg_level := ld_level i, lg_formatter := f\<rparr>]\<rparr>)"
proof (cases "usable_pattern (ld_formatter i)")
  case True
  let ?s1 = "s\<lparr>ls_logger := (ls_logger s)[l := (ls_logger s ! l)\<lparr>lg_level := ld_level i\<rparr>]\<rparr>"
  let ?s = "s\<lparr>ls_logger := (ls_logger s)[l := (ls_logger s ! l)\<lparr>lg_level := ld_level i, lg_formatter := f\<rparr>]\<rparr>"
  have f: "f = Some (LogFormatter_new (ld_formatter i))" using True by (simp add: f_def configured_formatter_def)
  have "\<forall>a \<in> set (lg_appenders (ls_logger s ! l)). a < length (ls_appenders ?s)"
    using log_inv_logger [OF inv l] by (simp add: logger_ok_def)
  then obtain aps where fold: "ofold (inherit_formatter f) (lg_appenders (ls_logger s ! l)) ?s = Inr (?s\<lparr>ls_appenders := aps\<rparr>)"
    and len: "length aps = length (ls_appenders s)"
    and same: "\<forall>a. a \<notin> set (lg_appenders (ls_logger s ! l)) \<longrightarrow> aps ! a = ls_appenders s ! a"
    using inherit_formatters_result [of "lg_appenders (ls_logger s ! l)" ?s f] by auto
  let ?t = "s\<lparr>ls_appenders := aps,
    ls_logger := (ls_logger s)[l := (ls_logger s ! l)\<lparr>lg_level := ld_level i, lg_formatter := f\<rparr>]\<rparr>"
  have t: "?s\<lparr>ls_appenders := aps\<rparr> = ?t" by simp
  have set: "Logger_setFormatter l f ?s1 = Inr ?t"
    unfolding t [symmetric] using l fold by (simp add: Logger_setFormatter_def upd_logger_def)
  from setFormatter_inv [OF set_level_inv [OF inv l, of "ld_level i"], where l = l and val = f] l f set have "log_inv ?t"
    by auto
  moreover have "Logger_setFormatter_string l (ld_formatter i) ?s1 = Inr ?t"
    using True l set by (simp add: Logger_setFormatter_string_def usable_pattern_def f Let_def)
  ultimately show thesis
    using True l len same
    by (intro that [of aps]) (simp_all add: Logger_setLevel_def upd_logger_def usable_pattern_def)
next
  case False
  then have f: "f = lg_formatter (ls_logger s ! l)" by (simp add: f_def configured_formatter_def)
  have "(if ld_formatter i \<noteq> [] then Logger_setFormatter_string l (ld_formatter i) s2 else Inr s2) = Inr s2"
    if "l < length (ls_logger s2)" for s2
    using that False by (auto simp: Logger_setFormatter_string_def usable_pattern_def Let_def)
  then show thesis
    using l set_level_inv [OF inv l]
    by (intro that [of "ls_appenders s"]) (simp_all add: Logger_setLevel_def upd_logger_def f split del: if_split)
qed

lemma apply_to_logger_result:
  assumes inv: "log_inv s" and l: "l < length (ls_logger s)" and types: "list_all known_type (ld_appenders i)"
    and f_def: "f = configured_formatter i (lg_formatter (ls_logger s ! l))"
  obtains aps t where "length aps = length (ls_appenders s)"
    and "\<forall>a. a \<notin> set (lg_appenders (ls_logger s ! l)) \<longrightarrow> aps ! a = ls_appenders s ! a"
    and "apply_to_logger i l s = Inr t" and "log_inv t"
    and "t = s\<lparr>ls_appenders := aps @ map (configured_appender f) (ld_appenders i),
       ls_logger := (ls_logger s)[l := (ls_logger s ! l)\<lparr>lg_level := ld_level i, lg_formatter := f,
         lg_appenders := [length aps..<length aps + length (ld_appenders i)]\<rparr>]\<rparr>"
proof -
  from set_level_formatter [OF inv l f_def] obtain aps where len: "length aps = length (ls_appenders s)"
    and same: "\<forall>a. a \<notin> set (lg_appenders (ls_logger s ! l)) \<longrightarrow> aps ! a = ls_appenders s ! a"
    and set: "obind (Logger_setLevel l (ld_level i) s)
        (\<lambda>s1. if ld_formatter i \<noteq> [] then Logger_setFormatter_string l (ld_formatter i) s1 else Inr s1)
      = Inr (s\<lparr>ls_appenders := aps,
          ls_logger := (ls_logger s)[l := (ls_logger s ! l)\<lparr>lg_level := ld_level i, lg_formatter := f\<rparr>]\<rparr>)"
    and b: "log_inv (s\<lparr>ls_appenders := aps,
          ls_logger := (ls_logger s)[l := (ls_logger s ! l)\<lparr>lg_level := ld_level i, lg_formatter := f\<rparr>]\<rparr>)"
    by blast
  let ?ps = "map (configured_appender f) (ld_appenders i)"
  let ?t = "s\<lparr>ls_appenders := aps @ ?ps,
       ls_logger := (ls_logger s)[l := (ls_logger s ! l)\<lparr>lg_level := ld_level i, lg_formatter := f,
         lg_appenders := [length aps..<length aps + length (ld_appenders i)]\<rparr>]\<rparr>"
  have "f \<noteq> None" using log_inv_logger [OF inv l] by (simp add: logger_ok_def f_def configured_formatter_def)
  then have "list_all (\<lambda>p. ap_formatter p \<noteq> None) ?ps" by (auto simp: list_all_iff configured_appender_def)
  from fresh_appenders_inv [OF b _ this, of l] l have "log_inv ?t" by simp
  moreover have "apply_to_logger i l s = Inr ?t"
  proof -
    have "apply_to_logger i l s = obind (obind (Logger_setLevel l (ld_level i) s)
        (\<lambda>s1. if ld_formatter i \<noteq> [] then Logger_setFormatter_string l (ld_formatter i) s1 else Inr s1))
        (\<lambda>s2. obind (Logger_clearAppenders l s2) (ofold (apply_appender l) (ld_appenders i)))"
      by (cases "Logger_setLevel l (ld_level i) s") (simp_all add: apply_to_logger_def)
    also have "\<dots> = Inr ?t"
      unfolding set using l types
      by (simp add: Logger_clearAppenders_def apply_appenders_result upd_logger_def)
    finally show ?thesis .
  qed
  ultimately show thesis by (intro that [OF len same _ _ refl])
qed

section \<open>The loggers that are not touched\<close>

text \<open>From \<open>s\<close> to \<open>t\<close> only logger \<open>l\<close>, its former appenders and new appenders changed.\<close>

definition changes_only :: "nat \<Rightarrow> log_state \<Rightarrow> log_state \<Rightarrow> bool" where
  "changes_only l s t \<longleftrightarrow>
     (\<forall>n k. ls_names s n = Some k \<longrightarrow> ls_names t n = Some k) \<and>
     (\<forall>k < length (ls_logger s). k < length (ls_logger t) \<and> (k \<noteq> l \<longrightarrow> ls_logger t ! k = ls_logger s ! k)) \<and>
     (\<forall>k < length (ls_logger t). k \<noteq> l \<longrightarrow> k < length (ls_logger s)) \<and>
     (\<forall>a < length (ls_appenders s).
        (l < length (ls_logger s) \<longrightarrow> a \<notin> set (lg_appenders (ls_logger s ! l))) \<longrightarrow> ls_appenders t ! a = ls_appenders s ! a) \<and>
     (\<forall>a \<in> set (lg_appenders (ls_logger t ! l)). length (ls_appenders s) \<le> a)"

definition others_apart :: "log_state \<Rightarrow> nat \<Rightarrow> bool" where
  "others_apart s l \<longleftrightarrow> (\<forall>k < length (ls_logger s). k \<noteq> l \<longrightarrow>
     set (lg_appenders (ls_logger s ! k)) \<inter> set (lg_appenders (ls_logger s ! l)) = {})"

definition logger_as :: "log_state \<Rightarrow> hps_LogDefine \<Rightarrow> hps_Logger \<Rightarrow> bool" where
  "logger_as s i lg \<longleftrightarrow> lg_level lg = ld_level i \<and>
     (if usable_pattern (ld_formatter i) then lg_formatter lg = Some (LogFormatter_new (ld_formatter i)) else True) \<and>
     map (\<lambda>a. ls_appenders s ! a) (lg_appenders lg) = map (configured_appender (lg_formatter lg)) (ld_appenders i)"

definition settled :: "log_state \<Rightarrow> hps_LogDefine \<Rightarrow> bool" where
  "settled s i \<longleftrightarrow> (\<exists>l. ls_names s (ld_name i) = Some l \<and> logger_as s i (ls_logger s ! l) \<and> others_apart s l)"

definition closed_down :: "log_state \<Rightarrow> string \<Rightarrow> bool" where
  "closed_down s n \<longleftrightarrow> (\<exists>l. ls_names s n = Some l \<and> lg_level (ls_logger s ! l) = 100 \<and> lg_appenders (ls_logger s ! l) = [])"

lemma settled_frame:
  assumes inv: "log_inv s" and ch: "changes_only l s t" and j: "settled s j"
    and other: "ls_names s (ld_name j) \<noteq> Some l"
  shows "settled t j"
proof -
  from j obtain k where k: "ls_names s (ld_name j) = Some k" "logger_as s j (ls_logger s ! k)" "others_apart s k"
    by (auto simp: settled_def)
  have "k \<noteq> l" "k < length (ls_logger s)" using other k(1) inv by (auto simp: log_inv_def)
  then have same: "ls_logger t ! k = ls_logger s ! k" and valid: "\<forall>a \<in> set (lg_appenders (ls_logger s ! k)). a < length (ls_appenders s)"
    using ch log_inv_logger [OF inv] by (auto simp: changes_only_def logger_ok_def)
  have "ls_appenders t ! a = ls_appenders s ! a" if "a \<in> set (lg_appenders (ls_logger s ! k))" for a
  proof -
    have "l < length (ls_logger s) \<longrightarrow> a \<notin> set (lg_appenders (ls_logger s ! l))"
      using k(3) that \<open>k \<noteq> l\<close> unfolding others_apart_def by blast
    with ch valid that show ?thesis unfolding changes_only_def by blast
  qed
  then have "logger_as t j (ls_logger t ! k)" using k(2) by (simp add: same logger_as_def cong: map_cong)
  moreover have "others_apart t k"
  proof -
    have "set (lg_appenders (ls_logger t ! m)) \<inter> set (lg_appenders (ls_logger s ! k)) = {}"
      if m: "m < length (ls_logger t)" "m \<noteq> k" for m
    proof (cases "m = l")
      case True
      with ch have "\<forall>a \<in> set (lg_appenders (ls_logger t ! m)). length (ls_appenders s) \<le> a"
        by (simp add: changes_only_def)
      with valid show ?thesis by fastforce
    next
      case False
      with ch m have "m < length (ls_logger s)" "ls_logger t ! m = ls_logger s ! m" by (auto simp: changes_only_def)
      with k(3) m(2) show ?thesis by (auto simp: others_apart_def)
    qed
    then show ?thesis by (simp add: others_apart_def same)
  qed
  moreover have "ls_names t (ld_name j) = Some k" using ch k(1) by (simp add: changes_only_def)
  ultimately show ?thesis by (auto simp: settled_def)
qed

lemma closed_frame:
  assumes "log_inv s" and "changes_only l s t" and "closed_down s n" and "ls_names s n \<noteq> Some l"
  shows "closed_down t n"
  using assms unfolding closed_down_def changes_only_def log_inv_def by metis

lemma getLogger_result:
  assumes inv: "log_inv s" and get: "getLogger n s = (s1, l)"
  shows "log_inv s1" and "l < length (ls_logger s1)" and "ls_names s1 n = Some l" and "ls_appenders s1 = ls_appenders s"
    and "\<forall>m k. ls_names s m = Some k \<longrightarrow> ls_names s1 m = Some k \<and> (m \<noteq> n \<longrightarrow> k \<noteq> l)"
    and "\<forall>k < length (ls_logger s). k < length (ls_logger s1) \<and> ls_logger s1 ! k = ls_logger s ! k"
    and "\<forall>k < length (ls_logger s1). k \<noteq> l \<longrightarrow> k < length (ls_logger s)"
    and "length (ls_logger s) \<le> l \<longrightarrow> lg_appenders (ls_logger s1 ! l) = []"
proof -
  show "log_inv s1" using getLogger_inv [OF inv, of n] get by simp
  have valid: "\<forall>m k. ls_names s m = Some k \<longrightarrow> k < length (ls_logger s) \<and> lg_name (ls_logger s ! k) = m"
    using inv by (auto simp: log_inv_def)
  have "l < length (ls_logger s1) \<and> ls_names s1 n = Some l \<and> ls_appenders s1 = ls_appenders s \<and>
    (\<forall>m k. ls_names s m = Some k \<longrightarrow> ls_names s1 m = Some k \<and> (m \<noteq> n \<longrightarrow> k \<noteq> l)) \<and>
    (\<forall>k < length (ls_logger s). k < length (ls_logger s1) \<and> ls_logger s1 ! k = ls_logger s ! k) \<and>
    (\<forall>k < length (ls_logger s1). k \<noteq> l \<longrightarrow> k < length (ls_logger s)) \<and>
    (length (ls_logger s) \<le> l \<longrightarrow> lg_appenders (ls_logger s1 ! l) = [])"
  proof (cases "ls_names s n")
    case (Some k)
    with get have "s1 = s" "l = k" by (simp_all add: getLogger_def)
    moreover have "k < length (ls_logger s)" using Some valid by blast
    moreover from this have "length (ls_logger s) \<le> k \<longrightarrow> lg_appenders (ls_logger s ! k) = []" by simp
    moreover have "\<forall>m j. ls_names s m = Some j \<longrightarrow> m \<noteq> n \<longrightarrow> j \<noteq> k" using Some valid by auto
    ultimately show ?thesis using Some by simp
  next
    case None
    with get valid show ?thesis by (auto simp: getLogger_def Logger_new_def nth_append)
  qed
  then show "l < length (ls_logger s1)" and "ls_names s1 n = Some l" and "ls_appenders s1 = ls_appenders s"
    and "\<forall>m k. ls_names s m = Some k \<longrightarrow> ls_names s1 m = Some k \<and> (m \<noteq> n \<longrightarrow> k \<noteq> l)"
    and "\<forall>k < length (ls_logger s). k < length (ls_logger s1) \<and> ls_logger s1 ! k = ls_logger s ! k"
    and "\<forall>k < length (ls_logger s1). k \<noteq> l \<longrightarrow> k < length (ls_logger s)"
    and "length (ls_logger s) \<le> l \<longrightarrow> lg_appenders (ls_logger s1 ! l) = []"
    by blast+
qed

lemma changes_only_apply:
  assumes inv: "log_inv s" and types: "list_all known_type (ld_appenders i)"
    and get: "getLogger (ld_name i) s = (s1, l)"
  shows "\<exists>t. apply_to_logger i l s1 = Inr t \<and> log_inv t \<and> settled t i \<and> changes_only l s t \<and>
    (\<forall>m k. ls_names s m = Some k \<and> m \<noteq> ld_name i \<longrightarrow> k \<noteq> l)"
proof -
  note g = getLogger_result [OF inv get]
  obtain aps t where len: "length aps = length (ls_appenders s1)"
    and same: "\<forall>a. a \<notin> set (lg_appenders (ls_logger s1 ! l)) \<longrightarrow> aps ! a = ls_appenders s1 ! a"
    and run: "apply_to_logger i l s1 = Inr t" and invt: "log_inv t"
    and t: "t = s1\<lparr>ls_appenders := aps @ map (configured_appender (configured_formatter i (lg_formatter (ls_logger s1 ! l)))) (ld_appenders i),
       ls_logger := (ls_logger s1)[l := (ls_logger s1 ! l)\<lparr>lg_level := ld_level i,
         lg_formatter := configured_formatter i (lg_formatter (ls_logger s1 ! l)),
         lg_appenders := [length aps..<length aps + length (ld_appenders i)]\<rparr>]\<rparr>"
    by (rule apply_to_logger_result [OF g(1,2) types refl])
  have "logger_as t i (ls_logger t ! l)"
    using g(2) by (auto simp: t logger_as_def configured_formatter_def nth_append intro!: nth_equalityI)
  moreover have "others_apart t l"
  proof -
    have "\<forall>a \<in> set (lg_appenders (ls_logger s1 ! k)). a < length aps" if "k < length (ls_logger s1)" for k
      using log_inv_logger [OF g(1) that] len by (simp add: logger_ok_def)
    then show ?thesis using g(2) by (fastforce simp: others_apart_def t)
  qed
  ultimately have "settled t i" using g(3) by (auto simp: settled_def t)
  moreover have "changes_only l s t"
    unfolding changes_only_def
    using g same len by (intro conjI allI impI) (auto simp: t nth_append not_less nth_list_update)
  ultimately show ?thesis using run invt g(5) by blast
qed

lemma changes_only_close:
  assumes inv: "log_inv s" and get: "getLogger n s = (s1, l)"
  shows "\<exists>t. obind (Logger_setLevel l 100 s1) (Logger_clearAppenders l) = Inr t \<and> log_inv t \<and>
    closed_down t n \<and> changes_only l s t \<and> (\<forall>m k. ls_names s m = Some k \<and> m \<noteq> n \<longrightarrow> k \<noteq> l)"
proof -
  note g = getLogger_result [OF inv get]
  let ?s2 = "s1\<lparr>ls_logger := (ls_logger s1)[l := (ls_logger s1 ! l)\<lparr>lg_level := 100\<rparr>]\<rparr>"
  let ?t = "s1\<lparr>ls_logger := (ls_logger s1)[l := (ls_logger s1 ! l)\<lparr>lg_level := 100, lg_appenders := []\<rparr>]\<rparr>"
  have run: "obind (Logger_setLevel l 100 s1) (Logger_clearAppenders l) = Inr ?t"
    using g(2) by (simp add: Logger_setLevel_def Logger_clearAppenders_def upd_logger_def)
  have "log_inv ?s2" by (rule set_level_inv [OF g(1,2)])
  from del_inv [OF this, of l "[]"] have "log_inv ?t" using g(2) by (simp add: upd_logger_def)
  moreover have "closed_down ?t n" using g(2,3) by (simp add: closed_down_def)
  moreover have "changes_only l s ?t"
    unfolding changes_only_def using g by (intro conjI allI impI) (auto simp: nth_list_update)
  ultimately show ?thesis using run g(5) by blast
qed

section \<open>Looking a definition up\<close>

lemma find_define:
  assumes "sorted_wrt LogDefine_less ds"
  shows "(std_find LogDefine_less i ds = Inr None \<and> (\<forall>d \<in> set ds. ld_name d \<noteq> ld_name i)) \<or>
    (\<exists>p < length ds. std_find LogDefine_less i ds = Inr (Some p) \<and> ld_name (ds ! p) = ld_name i)"
proof -
  let ?p = "lower_bound LogDefine_less i ds"
  have contract: "set_contract LogDefine_less i ds" using assms by (simp add: set_contract_def define_order)
  show ?thesis
  proof (cases "?p < length ds \<and> \<not> LogDefine_less i (ds ! ?p)")
    case True
    then have "ld_name (ds ! ?p) = ld_name i"
      using lower_bound_at [of LogDefine_less i ds] by (simp add: LogDefine_less_def)
    with True contract show ?thesis by (auto simp: std_find_def Let_def)
  next
    case False
    have "ld_name d \<noteq> ld_name i" if d: "d \<in> set ds" for d
    proof -
      from d have "d \<in> set (take ?p ds) \<or> d \<in> set (drop ?p ds)"
        by (metis append_take_drop_id set_append UnE)
      then show ?thesis
      proof
        assume "d \<in> set (take ?p ds)"
        from lower_bound_before [OF this] show ?thesis by (auto simp: LogDefine_less_def)
      next
        assume drop: "d \<in> set (drop ?p ds)"
        then have p: "?p < length ds" by (metis drop_all empty_iff empty_set not_le)
        with False have less: "LogDefine_less i (ds ! ?p)" by simp
        have "sorted_wrt LogDefine_less (ds ! ?p # drop (Suc ?p) ds)"
          using assms p by (metis Cons_nth_drop_Suc sorted_wrt_drop)
        moreover have "d = ds ! ?p \<or> d \<in> set (drop (Suc ?p) ds)"
          using drop p by (metis Cons_nth_drop_Suc set_ConsD)
        ultimately show ?thesis using less by (auto simp: LogDefine_less_def)
      qed
    qed
    with False contract show ?thesis by (auto simp: std_find_def Let_def)
  qed
qed

lemma sorted_names:
  "sorted_wrt LogDefine_less ds \<Longrightarrow> p < length ds \<Longrightarrow> q < length ds \<Longrightarrow> ld_name (ds ! p) = ld_name (ds ! q) \<Longrightarrow> p = q"
  unfolding LogDefine_less_def sorted_wrt_iff_nth_less by (metis less_irrefl linorder_neqE_nat)

lemma member_name_unique:
  "sorted_wrt LogDefine_less ds \<Longrightarrow> d \<in> set ds \<Longrightarrow> e \<in> set ds \<Longrightarrow> ld_name d = ld_name e \<Longrightarrow> d = e"
  by (metis in_set_conv_nth sorted_names)

section \<open>One turn of each loop\<close>

lemma apply_define_changed:
  assumes inv: "log_inv s" and old: "sorted_wrt LogDefine_less old" and i: "i \<notin> set old"
    and types: "list_all known_type (ld_appenders i)"
  shows "\<exists>t l. apply_define old i s = Inr t \<and> log_inv t \<and> settled t i \<and> changes_only l s t \<and>
    (\<forall>m k. ls_names s m = Some k \<and> m \<noteq> ld_name i \<longrightarrow> k \<noteq> l)"
proof -
  obtain s1 l where get: "getLogger (ld_name i) s = (s1, l)" by (cases "getLogger (ld_name i) s")
  have "apply_define old i s = apply_to_logger i l s1"
    using find_define [OF old, of i] i get by (auto simp: apply_define_def)
  with changes_only_apply [OF inv types get] show ?thesis by auto
qed

lemma apply_define_unchanged:
  assumes old: "sorted_wrt LogDefine_less old" and i: "i \<in> set old"
  shows "apply_define old i s = Inl (NullDeref ''logger'')"
proof -
  from find_define [OF old, of i] i obtain p where p: "p < length old"
    "std_find LogDefine_less i old = Inr (Some p)" "ld_name (old ! p) = ld_name i" by blast
  then have "old ! p = i" using member_name_unique [OF old _ i, of "old ! p"] by simp
  with p show ?thesis by (simp add: apply_define_def)
qed

lemma remove_define_effect:
  assumes inv: "log_inv s" and new: "sorted_wrt LogDefine_less new"
  shows "\<exists>t. remove_define new i s = Inr t \<and> log_inv t \<and>
    (if ld_name i \<in> ld_name ` set new then t = s
     else closed_down t (ld_name i) \<and> (\<exists>l. changes_only l s t \<and>
       (\<forall>m k. ls_names s m = Some k \<and> m \<noteq> ld_name i \<longrightarrow> k \<noteq> l)))"
proof -
  obtain s1 l where get: "getLogger (ld_name i) s = (s1, l)" by (cases "getLogger (ld_name i) s")
  show ?thesis
    using find_define [OF new, of i]
  proof
    assume none: "std_find LogDefine_less i new = Inr None \<and> (\<forall>d \<in> set new. ld_name d \<noteq> ld_name i)"
    then have "ld_name i \<notin> ld_name ` set new" by auto
    moreover have "remove_define new i s = obind (Logger_setLevel l 100 s1) (Logger_clearAppenders l)"
      using none get by (simp add: remove_define_def)
    ultimately show ?thesis using changes_only_close [OF inv get] by auto
  next
    assume "\<exists>p < length new. std_find LogDefine_less i new = Inr (Some p) \<and> ld_name (new ! p) = ld_name i"
    then obtain p where p: "p < length new" "std_find LogDefine_less i new = Inr (Some p)" "ld_name (new ! p) = ld_name i"
      by blast
    then have "ld_name i \<in> ld_name ` set new" by (metis image_eqI nth_mem)
    with p inv show ?thesis by (simp add: remove_define_def)
  qed
qed

end
