(* ===== verification/Hps_LogConfigClaims.thy ===== *)
theory Hps_LogConfigClaims
  imports Hps_LogListener
begin

text \<open>
  The properties of the logs configuration: what survives being written and read, what a
  description of the loggers lets a reader recover, and what the listener does with a change.
\<close>

section \<open>The loops of the listener\<close>

lemma apply_all:
  assumes "log_inv s" and "sorted_wrt LogDefine_less old" and "distinct (map ld_name new)"
    and "list_all (\<lambda>i. i \<notin> set old \<and> list_all known_type (ld_appenders i)) new"
    and "\<forall>j \<in> D. settled s j \<and> ld_name j \<notin> ld_name ` set new"
  shows "\<exists>t. ofold (apply_define old) new s = Inr t \<and> log_inv t \<and> (\<forall>j \<in> D \<union> set new. settled t j)"
  using assms(1,3,4,5)
proof (induction new arbitrary: s D)
  case Nil
  then show ?case by auto
next
  case (Cons i new)
  obtain u l where u: "apply_define old i s = Inr u" "log_inv u" "settled u i" "changes_only l s u"
    and others: "\<forall>m k. ls_names s m = Some k \<and> m \<noteq> ld_name i \<longrightarrow> k \<noteq> l"
    using apply_define_changed [OF Cons.prems(1) assms(2), of i] Cons.prems(3) by auto
  have "settled u j" if "j \<in> D" for j
    using settled_frame [OF Cons.prems(1) u(4), of j] Cons.prems(4) others that by (metis image_eqI list.set_intros(1))
  then have "\<forall>j \<in> insert i D. settled u j \<and> ld_name j \<notin> ld_name ` set new"
    using u(3) Cons.prems(2,4) by auto
  with Cons.IH [OF u(2), of "insert i D"] Cons.prems(2,3) obtain t where
    "ofold (apply_define old) new u = Inr t" "log_inv t" "\<forall>j \<in> insert i D \<union> set new. settled t j" by auto
  with u(1) show ?case by auto
qed

lemma remove_all:
  assumes "log_inv s" and "sorted_wrt LogDefine_less new" and "distinct (map ld_name old)"
    and "\<forall>j \<in> set new. settled s j"
    and "\<forall>n \<in> C. closed_down s n \<and> n \<notin> ld_name ` set old"
  shows "\<exists>t. ofold (remove_define new) old s = Inr t \<and> log_inv t \<and> (\<forall>j \<in> set new. settled t j) \<and>
    (\<forall>n \<in> C \<union> (ld_name ` set old - ld_name ` set new). closed_down t n)"
  using assms(1,3,4,5)
proof (induction old arbitrary: s C)
  case Nil
  then show ?case by auto
next
  case (Cons i old)
  obtain u where u: "remove_define new i s = Inr u" "log_inv u"
    and eff: "if ld_name i \<in> ld_name ` set new then u = s
     else closed_down u (ld_name i) \<and> (\<exists>l. changes_only l s u \<and>
       (\<forall>m k. ls_names s m = Some k \<and> m \<noteq> ld_name i \<longrightarrow> k \<noteq> l))"
    using remove_define_effect [OF Cons.prems(1) assms(2), of i] by auto
  have keep: "\<forall>j \<in> set new. settled u j" and closed: "\<forall>n \<in> C. closed_down u n"
  proof -
    show "\<forall>j \<in> set new. settled u j"
      using eff Cons.prems(3) settled_frame [OF Cons.prems(1)] by (metis (mono_tags, lifting) image_eqI)
    show "\<forall>n \<in> C. closed_down u n"
      using eff Cons.prems(4) closed_frame [OF Cons.prems(1)] by (metis (mono_tags, lifting) image_eqI list.set_intros(1))
  qed
  let ?C = "if ld_name i \<in> ld_name ` set new then C else insert (ld_name i) C"
  have "\<forall>n \<in> ?C. closed_down u n \<and> n \<notin> ld_name ` set old"
    using closed eff Cons.prems(2,4) by auto
  with Cons.IH [OF u(2) _ keep, of ?C] Cons.prems(2) obtain t where
    "ofold (remove_define new) old u = Inr t" "log_inv t" "\<forall>j \<in> set new. settled t j"
    "\<forall>n \<in> ?C \<union> (ld_name ` set old - ld_name ` set new). closed_down t n" by auto
  with u(1) show ?case by (auto split: if_splits)
qed

lemma apply_all_unchanged:
  assumes "log_inv s" and "sorted_wrt LogDefine_less old"
    and "list_all (\<lambda>i. list_all known_type (ld_appenders i)) new" and "list_ex (\<lambda>i. i \<in> set old) new"
  shows "ofold (apply_define old) new s = Inl (NullDeref ''logger'')"
  using assms(1,3,4)
proof (induction new arbitrary: s)
  case Nil
  then show ?case by simp
next
  case (Cons i new)
  show ?case
  proof (cases "i \<in> set old")
    case True
    then show ?thesis by (simp add: apply_define_unchanged [OF assms(2)])
  next
    case False
    with apply_define_changed [OF Cons.prems(1) assms(2), of i] Cons.prems(2) obtain u where
      "apply_define old i s = Inr u" "log_inv u" by auto
    with Cons False show ?thesis by simp
  qed
qed

lemma announcement:
  assumes "log_inv s" and "2 \<le> k"
  shows "\<exists>out. HPS_LOG_LEVEL sf k (ls_root s) INFO file line fi ti time tn txt s = Inr (s\<lparr>ls_out := out\<rparr>)"
proof -
  have root: "ls_root s < length (ls_logger s)" using assms(1) by (simp add: log_inv_def)
  have "s = s\<lparr>ls_out := ls_out s\<rparr>" by simp
  with root show ?thesis
    by (auto simp: HPS_LOG_LEVEL_def Logger_log_result [OF assms(1) root assms(2)] intro: exI [of _ "ls_out s"])
qed

lemma sorted_distinct_names: "sorted_wrt LogDefine_less ds \<Longrightarrow> distinct (map ld_name ds)"
  by (simp add: distinct_conv_nth) (metis sorted_names)

section \<open>Properties\<close>

text \<open>
  C30: A logs configuration written as text and read back is the same up to three losses: the level
  of every appender (the reader has no line for it), the formatter of a stdout appender, and
  levels that are no level. Names, levels and formatters of loggers, files and formatters of
  file appenders, and all orders are kept.
\<close>

theorem logs_config_round_trip:
  assumes "documented_yaml Y" and "sorted_wrt LogDefine_less ds"
  shows "LogDefines_from Y (LogDefines_to Y ds) = Inr (map (\<lambda>d. d
    \<lparr>ld_level := (if ld_level d \<le> FATAL then ld_level d else UNKNOW),
     ld_appenders := map (\<lambda>a. if ad_type a = 1
        then a\<lparr>ad_level := UNKNOW\<rparr>
        else \<lparr>ad_type = 2, ad_level = UNKNOW, ad_formatter = [], ad_file = []\<rparr>) (ld_appenders d)\<rparr>) ds)"
proof -
  have "read_back_appender = (\<lambda>a. if ad_type a = 1 then a\<lparr>ad_level := UNKNOW\<rparr>
      else \<lparr>ad_type = 2, ad_level = UNKNOW, ad_formatter = [], ad_file = []\<rparr>)"
    by (rule ext) (simp add: read_back_appender_def)
  then have "read_back_define = (\<lambda>d. d
    \<lparr>ld_level := (if ld_level d \<le> FATAL then ld_level d else UNKNOW),
     ld_appenders := map (\<lambda>a. if ad_type a = 1 then a\<lparr>ad_level := UNKNOW\<rparr>
        else \<lparr>ad_type = 2, ad_level = UNKNOW, ad_formatter = [], ad_file = []\<rparr>) (ld_appenders d)\<rparr>)"
    by (intro ext) (simp add: read_back_define_def)
  with defines_written [OF assms] show ?thesis by simp
qed

definition sample_defines :: "hps_LogDefine list" where
  "sample_defines =
     [\<lparr>ld_name = ''db'', ld_level = WARN, ld_formatter = [],
       ld_appenders = [\<lparr>ad_type = 1, ad_level = ERROR, ad_formatter = ''%m'', ad_file = ''x''\<rparr>]\<rparr>,
      \<lparr>ld_name = ''root'', ld_level = INFO, ld_formatter = ''%m%n'', ld_appenders = []\<rparr>]"

lemma sample_defines_sorted: "sorted_wrt LogDefine_less sample_defines"
  by (simp add: sample_defines_def LogDefine_less_def)

theorem logs_config_round_trip_witness:
  "LogDefines_from ynode_yaml (LogDefines_to ynode_yaml sample_defines) = Inr
     [\<lparr>ld_name = ''db'', ld_level = WARN, ld_formatter = [],
       ld_appenders = [\<lparr>ad_type = 1, ad_level = UNKNOW, ad_formatter = ''%m'', ad_file = ''x''\<rparr>]\<rparr>,
      \<lparr>ld_name = ''root'', ld_level = INFO, ld_formatter = ''%m%n'', ld_appenders = []\<rparr>]"
  using logs_config_round_trip [OF ynode_documented sample_defines_sorted]
  by (simp add: sample_defines_def level_defs)

text \<open>
  Describing the loggers and reading the description as a logs configuration gives every logger
  with its name, level and pattern, but with its stdout appenders only: a file appender is
  described with the type \<open>hps_FileAppender\<close>, which the reader does not know. In every
  reachable state, for the keys of the map in its order.
\<close>

theorem description_loses_file_appenders:
  assumes "LoggerManager_new = Inr s0" and "(log_step sf)\<^sup>*\<^sup>* s0 s"
    and "documented_yaml Y" and "sorted_wrt (<) names" and "list_all (\<lambda>n. ls_names s n \<noteq> None) names"
  shows "obind (LoggerManager_toYAMLString Y names s) (LogDefines_from Y) =
    Inr (map (\<lambda>n. let lg = ls_logger s ! the (ls_names s n) in
      \<lparr>ld_name = n, ld_level = (if lg_level lg \<le> FATAL then lg_level lg else UNKNOW),
       ld_formatter = lf_pattern (the (lg_formatter lg)),
       ld_appenders = map (\<lambda>a. \<lparr>ad_type = 2, ad_level = UNKNOW, ad_formatter = [], ad_file = []\<rparr>)
         (filter (\<lambda>a. ap_kind (ls_appenders s ! a) = StdoutAppender) (lg_appenders lg))\<rparr>) names)"
proof -
  have inv: "log_inv s" by (rule logging.reachable_inv [OF assms(1,2)])
  have "described_logger s (ls_logger s ! the (ls_names s n)) = (let lg = ls_logger s ! the (ls_names s n) in
      \<lparr>ld_name = n, ld_level = (if lg_level lg \<le> FATAL then lg_level lg else UNKNOW),
       ld_formatter = lf_pattern (the (lg_formatter lg)),
       ld_appenders = map (\<lambda>a. \<lparr>ad_type = 2, ad_level = UNKNOW, ad_formatter = [], ad_file = []\<rparr>)
         (filter (\<lambda>a. ap_kind (ls_appenders s ! a) = StdoutAppender) (lg_appenders lg))\<rparr>)"
    if n: "n \<in> set names" for n
  proof -
    obtain l where l: "ls_names s n = Some l" using n assms(5) by (auto simp: list_all_iff)
    then have "lg_name (ls_logger s ! l) = n" "lg_formatter (ls_logger s ! l) \<noteq> None"
      using inv by (auto simp: log_inv_def logger_ok_def)
    moreover have "List.map_filter (\<lambda>a. described_appender (ls_appenders s ! a)) as =
        map (\<lambda>a. \<lparr>ad_type = 2, ad_level = UNKNOW, ad_formatter = [], ad_file = []\<rparr>)
          (filter (\<lambda>a. ap_kind (ls_appenders s ! a) = StdoutAppender) as)" for as
      by (induction as) (simp_all add: List.map_filter_simps described_appender_def split: appender_kind.split)
    ultimately show ?thesis using l by (auto simp: described_logger_def or_empty_def Let_def)
  qed
  with manager_described [OF assms(3) inv assms(4,5)] show ?thesis by (simp cong: map_cong)
qed

theorem description_loses_file_appenders_witness:
  "map_sum id (map (\<lambda>d. (ld_name d, length (ld_appenders d))))
     (obind (LoggerManager_toYAMLString ynode_yaml [''db'', ''root''] sample_state) (LogDefines_from ynode_yaml))
   = Inr [(''db'', 0), (''root'', 1)] \<and> length (lg_appenders (ls_logger sample_state ! 1)) = 1"
proof -
  have "list_all (\<lambda>n. ls_names sample_state n \<noteq> None) [''db'', ''root'']"
    by (simp add: sample_state_def sample_state_eq)
  from description_loses_file_appenders [OF sample_state_reached(1,2) ynode_documented _ this]
  show ?thesis by (simp add: sample_state_def sample_state_eq manager_state_def)
qed

text \<open>
  C27: What the listener does with a change, from every reachable state, if no definition of the new
  value is also in the old one and appenders have a type the reader gives. It ends without an
  error. Every logger of the new value then has its level, its pattern if that is usable, and
  exactly fresh appenders with the kind, level and pattern of the definition (the logger's
  formatter where an appender has no usable pattern of its own); every logger that is only in
  the old value has level 100 and no appender.
\<close>

theorem changed_configuration_is_applied:
  assumes "LoggerManager_new = Inr s0" and "(log_step strftime)\<^sup>*\<^sup>* s0 s" and "2 \<le> k"
    and "sorted_wrt LogDefine_less old" and "sorted_wrt LogDefine_less new"
    and "list_all (\<lambda>i. i \<notin> set old \<and> list_all known_type (ld_appenders i)) new"
  shows "\<exists>t. on_logs_changed strftime k file line fiberId threadId time threadName old new s = Inr t \<and> log_inv t \<and>
    list_all (\<lambda>i. \<exists>l. ls_names t (ld_name i) = Some l \<and> logger_as t i (ls_logger t ! l)) new \<and>
    list_all (\<lambda>i. ld_name i \<in> ld_name ` set new \<or> closed_down t (ld_name i)) old"
proof -
  have inv: "log_inv s" by (rule logging.reachable_inv [OF assms(1,2)])
  obtain s1 where 1: "HPS_LOG_LEVEL strftime k (ls_root s) INFO file line fiberId threadId time threadName
      ''on_logger_change_conf_changed'' s = Inr s1" "log_inv s1"
    using announcement [OF inv assms(3)] inv by (metis log_inv_out)
  obtain s2 where 2: "ofold (apply_define old) new s1 = Inr s2" "log_inv s2" "\<forall>j \<in> set new. settled s2 j"
    using apply_all [OF 1(2) assms(4) sorted_distinct_names [OF assms(5)] assms(6), of "{}"] by auto
  obtain t where "ofold (remove_define new) old s2 = Inr t" "log_inv t" "\<forall>j \<in> set new. settled t j"
    "\<forall>n \<in> ld_name ` set old - ld_name ` set new. closed_down t n"
    using remove_all [OF 2(2) assms(5) sorted_distinct_names [OF assms(4)] 2(3), of "{}"] by auto
  with 1 2 show ?thesis
    by (intro exI [of _ t]) (auto simp: on_logs_changed_def list_all_iff settled_def)
qed

theorem changed_configuration_is_applied_witness:
  "\<exists>t. on_logs_changed (\<lambda>_ _. []) 2 ''log.cpp'' 781 0 1 0 ''main'' [] sample_defines sample_state = Inr t \<and>
     list_all (\<lambda>i. \<exists>l. ls_names t (ld_name i) = Some l \<and> lg_level (ls_logger t ! l) = ld_level i \<and>
       length (lg_appenders (ls_logger t ! l)) = length (ld_appenders i)) sample_defines"
proof -
  have "list_all (\<lambda>i. i \<notin> set [] \<and> list_all known_type (ld_appenders i)) sample_defines"
    by (simp add: sample_defines_def known_type_def)
  from changed_configuration_is_applied [OF sample_state_reached(1,2) _ _ sample_defines_sorted this,
      of 2 "''log.cpp''" 781 0 1 0 "''main''"]
  obtain t where t: "on_logs_changed (\<lambda>_ _. []) 2 ''log.cpp'' 781 0 1 0 ''main'' [] sample_defines sample_state = Inr t"
    "list_all (\<lambda>i. \<exists>l. ls_names t (ld_name i) = Some l \<and> logger_as t i (ls_logger t ! l)) sample_defines"
    by auto
  have "lg_level lg = ld_level i \<and> length (lg_appenders lg) = length (ld_appenders i)" if "logger_as t i lg" for i lg
    using that map_eq_imp_length_eq by (auto simp: logger_as_def)
  with t show ?thesis by (fastforce simp: list_all_iff)
qed

text \<open>
  If some definition is the same in the old and in the new value, the listener dereferences a
  null pointer, whatever the other definitions are: it takes a logger only for new and for
  changed definitions, and then sets the level through the pointer in every case. A reload
  that leaves one logger as it is would crash the program.
\<close>

theorem unchanged_definition_is_null:
  assumes "LoggerManager_new = Inr s0" and "(log_step strftime)\<^sup>*\<^sup>* s0 s" and "2 \<le> k"
    and "sorted_wrt LogDefine_less old"
    and "list_all (\<lambda>i. list_all known_type (ld_appenders i)) new" and "list_ex (\<lambda>i. i \<in> set old) new"
  shows "on_logs_changed strftime k file line fiberId threadId time threadName old new s = Inl (NullDeref ''logger'')"
proof -
  have inv: "log_inv s" by (rule logging.reachable_inv [OF assms(1,2)])
  obtain s1 where "HPS_LOG_LEVEL strftime k (ls_root s) INFO file line fiberId threadId time threadName
      ''on_logger_change_conf_changed'' s = Inr s1" "log_inv s1"
    using announcement [OF inv assms(3)] inv by (metis log_inv_out)
  with apply_all_unchanged [OF _ assms(4-6), of s1] show ?thesis by (simp add: on_logs_changed_def)
qed

theorem unchanged_definition_is_null_witness:
  "on_logs_changed (\<lambda>_ _. []) 2 ''log.cpp'' 781 0 1 0 ''main'' sample_defines sample_defines sample_state
    = Inl (NullDeref ''logger'')"
  by (rule unchanged_definition_is_null [OF sample_state_reached(1,2) _ sample_defines_sorted])
    (simp_all add: sample_defines_def known_type_def)

end
