(* ===== verification/Hps_Util.thy ===== *)
theory Hps_Util
  imports Hps_Fiber
begin

text \<open>
  hps_sf/util.h and hps_sf/util.cpp: clock readings, the back trace and the ids. What
  \<open>gettimeofday\<close>, \<open>backtrace_symbols\<close> and \<open>gettid\<close> return are arguments.
\<close>

section \<open>Clock\<close>

text \<open>
  \<open>tv_sec\<close> is a signed 64-bit number; a multiplication with an \<open>unsigned long\<close> wraps, one
  with the \<open>int\<close> 1000 is undefined when it overflows.
\<close>

definition GetCurrentMS :: "int \<Rightarrow> int \<Rightarrow> u64" where
  "GetCurrentMS tv_sec tv_usec = word_of_int tv_sec * 1000 + word_of_int (tv_usec div 1000)"

definition GetCurrentUS :: "int \<Rightarrow> int \<Rightarrow> u64 outcome" where
  "GetCurrentUS tv_sec tv_usec =
     (if - (2 ^ 63) \<le> tv_sec * 1000 \<and> tv_sec * 1000 < 2 ^ 63
      then Inr (word_of_int (tv_sec * 1000) * 1000 + word_of_int tv_usec)
      else Inl (Undefined ''signed overflow''))"

section \<open>Back trace and ids\<close>

text \<open>
  \<open>Backtrace\<close>: the frames from \<open>skip\<close> on, appended; \<open>skip\<close> is converted to an unsigned number.
  None is a failure of \<open>backtrace_symbols\<close>.
\<close>

definition Backtrace :: "string list option \<Rightarrow> int \<Rightarrow> string list \<Rightarrow> string list" where
  "Backtrace strings skip bt = (case strings of None \<Rightarrow> bt | Some ss \<Rightarrow> bt @ drop (unat (of_int32 skip)) ss)"

definition BacktraceToString :: "string list option \<Rightarrow> int \<Rightarrow> string \<Rightarrow> string" where
  "BacktraceToString strings skip prefix =
     concat (map (\<lambda>b. prefix @ b @ [CHR 0x0A]) (Backtrace strings skip []))"

text \<open>The fiber id is cut to 32 bits.\<close>

definition util_GetFiberId :: "int \<Rightarrow> 'cb fiber_world \<Rightarrow> u32" where
  "util_GetFiberId tid w = ucast (GetFiberId tid w)"

section \<open>Properties\<close>

lemma unat_of_int: "0 \<le> i \<Longrightarrow> i < 2 ^ 64 \<Longrightarrow> unat (word_of_int i :: u64) = nat i"
  by (simp add: unat_eq_nat_uint uint_word_of_int)

text \<open>
  C37: The clock readings. For every time of day from 1970 on for half a million years, the
  milliseconds and the microseconds are the exact numbers, without wrap-around or overflow, and
  the milliseconds are the microseconds divided by 1000.
\<close>

theorem clock_readings_exact:
  assumes "0 \<le> tv_sec" and "tv_sec < 18446744073709" and "0 \<le> tv_usec" and "tv_usec < 1000000"
  shows "\<exists>us. unat (GetCurrentMS tv_sec tv_usec) = nat (tv_sec * 1000 + tv_usec div 1000) \<and>
    GetCurrentUS tv_sec tv_usec = Inr us \<and> unat us = nat (tv_sec * 1000000 + tv_usec) \<and>
    unat (GetCurrentMS tv_sec tv_usec) = unat us div 1000"
proof -
  have "GetCurrentMS tv_sec tv_usec = word_of_int (tv_sec * 1000 + tv_usec div 1000)"
    by (simp add: GetCurrentMS_def)
  then have ms: "unat (GetCurrentMS tv_sec tv_usec) = nat (tv_sec * 1000 + tv_usec div 1000)"
    using assms by (simp only:) (rule unat_of_int; simp)
  let ?us = "word_of_int (tv_sec * 1000000 + tv_usec) :: u64"
  have us: "GetCurrentUS tv_sec tv_usec = Inr ?us" using assms by (simp add: GetCurrentUS_def)
  have val: "unat ?us = nat (tv_sec * 1000000 + tv_usec)"
    by (rule unat_of_int) (use assms in simp_all)
  have "nat (tv_sec * 1000 + tv_usec div 1000) = nat (tv_sec * 1000000 + tv_usec) div 1000"
    using assms by (simp add: nat_div_distrib [symmetric])
  then show ?thesis using ms us val by (intro exI [of _ ?us]) simp
qed

theorem clock_readings_exact_witness:
  "unat (GetCurrentMS 1700000000 123456) = 1700000000123"
  using clock_readings_exact [of 1700000000 123456] by simp

end
