(* ===== verification/Hps_LockOrder.thy ===== *)
theory Hps_LockOrder
  imports Hps_Mutex
begin

text \<open>
  Threads that take and release locks, in general: each thread has the locks it holds and the
  rest of what it is going to do, and a lock is granted as the operations of Hps_Mutex grant it
  in the state its holders give it. A discipline - locks are taken in the order of a rank,
  data that a lock guards is touched under that lock - is kept by every run, and excludes
  deadlocks and data races.
\<close>

section \<open>Threads and locks\<close>

datatype mode = Shared | Exclusive

text \<open>\<open>Touch v w\<close>: the thread reads (\<open>w\<close> false) or writes the data \<open>v\<close>.\<close>

datatype ('l, 'v) act = Acquire 'l mode | Release 'l mode | Touch 'v bool

record ('l, 'v) locker =
  lk_held :: "('l \<times> mode) list"
  lk_todo :: "('l, 'v) act list"

text \<open>
  The state of lock \<open>l\<close>, as a read-write mutex; a mutex or spinlock is one that is only taken
  exclusively.
\<close>

definition all_held :: "('l, 'v) locker list \<Rightarrow> ('l \<times> mode) list" where
  "all_held ths = concat (map lk_held ths)"

definition lock_state :: "('l, 'v) locker list \<Rightarrow> 'l \<Rightarrow> rwlock" where
  "lock_state ths l =
     \<lparr>rw_readers = length (filter (\<lambda>h. h = (l, Shared)) (all_held ths)),
      rw_writer = ((l, Exclusive) \<in> set (all_held ths))\<rparr>"

definition grants :: "mode \<Rightarrow> rwlock \<Rightarrow> bool" where
  "grants m s = (case m of Shared \<Rightarrow> RWMutex_rdlock s \<noteq> None | Exclusive \<Rightarrow> RWMutex_wrlock s \<noteq> None)"

lemma all_mode: "(\<forall>m. P m) \<longleftrightarrow> P Shared \<and> P Exclusive"
  by (metis mode.exhaust)

lemma grants_iff:
  "grants m (lock_state ths l) \<longleftrightarrow>
     (\<forall>t \<in> set ths. \<forall>m'. (l, m') \<in> set (lk_held t) \<longrightarrow> m = Shared \<and> m' = Shared)"
proof -
  have "0 < rw_readers (lock_state ths l) \<longleftrightarrow> (\<exists>t \<in> set ths. (l, Shared) \<in> set (lk_held t))"
    "rw_writer (lock_state ths l) \<longleftrightarrow> (\<exists>t \<in> set ths. (l, Exclusive) \<in> set (lk_held t))"
    by (auto simp: lock_state_def filter_empty_conv all_held_def)
  then show ?thesis
    by (cases m) (auto simp: grants_def RWMutex_rdlock_def RWMutex_wrlock_def all_mode)
qed

text \<open>\<open>lock_next i ths\<close>: thread \<open>i\<close> does what is next for it; \<open>None\<close>: it is done, or blocked.\<close>

definition lock_next :: "nat \<Rightarrow> ('l, 'v) locker list \<Rightarrow> ('l, 'v) locker list option" where
  "lock_next i ths =
     (if i < length ths then
        (case lk_todo (ths ! i) of
           [] \<Rightarrow> None
         | Acquire l m # todo \<Rightarrow>
             if grants m (lock_state ths l)
             then Some (ths[i := \<lparr>lk_held = (l, m) # lk_held (ths ! i), lk_todo = todo\<rparr>]) else None
         | Release l m # todo \<Rightarrow>
             Some (ths[i := \<lparr>lk_held = remove1 (l, m) (lk_held (ths ! i)), lk_todo = todo\<rparr>])
         | Touch v w # todo \<Rightarrow> Some (ths[i := \<lparr>lk_held = lk_held (ths ! i), lk_todo = todo\<rparr>]))
      else None)"

inductive lock_step :: "('l, 'v) locker list \<Rightarrow> ('l, 'v) locker list \<Rightarrow> bool" where
  step: "lock_next i ths = Some ths' \<Longrightarrow> lock_step ths ths'"

inductive_cases lock_stepE: "lock_step ths ths'"

definition locks_start :: "('l, 'v) act list list \<Rightarrow> ('l, 'v) locker list" where
  "locks_start ops = map (\<lambda>tr. \<lparr>lk_held = [], lk_todo = tr\<rparr>) ops"

definition all_done :: "('l, 'v) locker list \<Rightarrow> bool" where
  "all_done ths = list_all (\<lambda>t. lk_todo t = []) ths"

section \<open>The discipline\<close>

definition guarded :: "('v \<Rightarrow> 'l option) \<Rightarrow> ('l \<times> mode) list \<Rightarrow> 'v \<Rightarrow> bool \<Rightarrow> bool" where
  "guarded guard held v w =
     (case guard v of None \<Rightarrow> True
      | Some l \<Rightarrow> (l, Exclusive) \<in> set held \<or> \<not> w \<and> (l, Shared) \<in> set held)"

text \<open>What a thread that holds \<open>held\<close> holds at the end; \<open>None\<close>: it breaks the discipline.\<close>

fun follow :: "('l \<Rightarrow> nat) \<Rightarrow> ('v \<Rightarrow> 'l option) \<Rightarrow> ('l \<times> mode) list \<Rightarrow> ('l, 'v) act list \<Rightarrow> ('l \<times> mode) list option" where
  "follow rank guard held [] = Some held"
| "follow rank guard held (Acquire l m # tr) =
     (if list_all (\<lambda>h. rank (fst h) < rank l) held then follow rank guard ((l, m) # held) tr else None)"
| "follow rank guard held (Release l m # tr) =
     (if (l, m) \<in> set held then follow rank guard (remove1 (l, m) held) tr else None)"
| "follow rank guard held (Touch v w # tr) =
     (if guarded guard held v w then follow rank guard held tr else None)"

definition disciplined :: "('l \<Rightarrow> nat) \<Rightarrow> ('v \<Rightarrow> 'l option) \<Rightarrow> ('l, 'v) locker \<Rightarrow> bool" where
  "disciplined rank guard t \<longleftrightarrow> follow rank guard (lk_held t) (lk_todo t) = Some []"

text \<open>A part of a trace that gives back what it takes.\<close>

definition keeps :: "('l \<Rightarrow> nat) \<Rightarrow> ('v \<Rightarrow> 'l option) \<Rightarrow> ('l \<times> mode) list \<Rightarrow> ('l, 'v) act list \<Rightarrow> bool" where
  "keeps rank guard held tr \<longleftrightarrow> follow rank guard held tr = Some held"

definition with_lock :: "'l \<Rightarrow> mode \<Rightarrow> ('l, 'v) act list \<Rightarrow> ('l, 'v) act list" where
  "with_lock l m body = Acquire l m # body @ [Release l m]"

lemma follow_append:
  "follow rank guard held (xs @ ys) = Option.bind (follow rank guard held xs) (\<lambda>h. follow rank guard h ys)"
  by (induction rank guard held xs rule: follow.induct) simp_all

lemma keeps_Nil [simp, intro]: "keeps rank guard held []"
  by (simp add: keeps_def)

lemma keeps_append [intro]: "keeps rank guard held xs \<Longrightarrow> keeps rank guard held ys \<Longrightarrow> keeps rank guard held (xs @ ys)"
  by (simp add: keeps_def follow_append)

lemma keeps_concat [intro]: "(\<And>x. x \<in> set xss \<Longrightarrow> keeps rank guard held x) \<Longrightarrow> keeps rank guard held (concat xss)"
  by (induction xss) auto

lemma keeps_Touch [simp]:
  "keeps rank guard held (Touch v w # tr) \<longleftrightarrow> guarded guard held v w \<and> keeps rank guard held tr"
  by (simp add: keeps_def)

lemma keeps_with_lock [intro]:
  assumes "list_all (\<lambda>h. rank (fst h) < rank l) held" and "keeps rank guard ((l, m) # held) body"
  shows "keeps rank guard held (with_lock l m body)"
  using assms by (simp add: keeps_def with_lock_def follow_append)

section \<open>The invariant\<close>

definition exclusive_holders :: "('l, 'v) locker list \<Rightarrow> bool" where
  "exclusive_holders ths \<longleftrightarrow>
     (\<forall>i < length ths. \<forall>j < length ths. i \<noteq> j \<longrightarrow>
        (\<forall>l m m'. (l, m) \<in> set (lk_held (ths ! i)) \<longrightarrow> (l, m') \<in> set (lk_held (ths ! j)) \<longrightarrow>
           m = Shared \<and> m' = Shared))"

definition locks_inv :: "('l \<Rightarrow> nat) \<Rightarrow> ('v \<Rightarrow> 'l option) \<Rightarrow> ('l, 'v) locker list \<Rightarrow> bool" where
  "locks_inv rank guard ths \<longleftrightarrow> list_all (disciplined rank guard) ths \<and> exclusive_holders ths"

lemma locks_inv_thread:
  assumes "locks_inv rank guard ths" and "i < length ths"
  shows "follow rank guard (lk_held (ths ! i)) (lk_todo (ths ! i)) = Some []"
  using assms by (simp add: locks_inv_def disciplined_def list_all_length)

lemma exclusive_update:
  assumes "exclusive_holders ths" and "i < length ths"
    and "\<And>l m j m'. (l, m) \<in> set (lk_held t) \<Longrightarrow> (l, m) \<notin> set (lk_held (ths ! i)) \<Longrightarrow> j < length ths \<Longrightarrow>
      (l, m') \<in> set (lk_held (ths ! j)) \<Longrightarrow> m = Shared \<and> m' = Shared"
  shows "exclusive_holders (ths[i := t])"
proof -
  have one: "m = Shared \<and> m' = Shared"
    if "(l, m) \<in> set (lk_held t)" "j < length ths" "j \<noteq> i" "(l, m') \<in> set (lk_held (ths ! j))" for l m m' j
  proof (cases "(l, m) \<in> set (lk_held (ths ! i))")
    case True
    with assms(1,2) that show ?thesis unfolding exclusive_holders_def by blast
  next
    case False
    with assms(3) that show ?thesis by blast
  qed
  show ?thesis
    unfolding exclusive_holders_def length_list_update
  proof (intro allI impI)
    fix a b l m m'
    assume ab: "a < length ths" "b < length ths" "a \<noteq> b"
      and h: "(l, m) \<in> set (lk_held (ths[i := t] ! a))" "(l, m') \<in> set (lk_held (ths[i := t] ! b))"
    consider "a = i" | "b = i" | "a \<noteq> i" "b \<noteq> i" by blast
    then show "m = Shared \<and> m' = Shared"
    proof cases
      case 1
      with ab h one [of l m b m'] show ?thesis by simp
    next
      case 2
      with ab h one [of l m' a m] show ?thesis by auto
    next
      case 3
      then have "(l, m) \<in> set (lk_held (ths ! a))" "(l, m') \<in> set (lk_held (ths ! b))" using h by simp_all
      with ab assms(1) show ?thesis unfolding exclusive_holders_def by blast
    qed
  qed
qed

lemma discipline_update:
  assumes "list_all (disciplined rank guard) ths" and "disciplined rank guard t"
  shows "list_all (disciplined rank guard) (ths[i := t])"
  using assms set_update_subset_insert [of ths i t] by (auto simp: list_all_iff)

lemma lock_next_inv:
  assumes inv: "locks_inv rank guard ths" and nx: "lock_next i ths = Some ths'"
  shows "locks_inv rank guard ths'"
proof -
  have i: "i < length ths" using nx by (simp add: lock_next_def split: if_splits)
  note f = locks_inv_thread [OF inv i]
  obtain a todo where todo: "lk_todo (ths ! i) = a # todo" using nx i by (cases "lk_todo (ths ! i)") (auto simp: lock_next_def)
  have ex: "exclusive_holders ths" and d: "list_all (disciplined rank guard) ths"
    using inv by (simp_all add: locks_inv_def)
  show ?thesis
  proof (cases a)
    case (Acquire l m)
    let ?t = "\<lparr>lk_held = (l, m) # lk_held (ths ! i), lk_todo = todo\<rparr>"
    have g: "grants m (lock_state ths l)" and ths': "ths' = ths[i := ?t]"
      using nx i todo Acquire by (auto simp: lock_next_def split: if_splits)
    have "disciplined rank guard ?t" using f todo Acquire by (simp add: disciplined_def split: if_splits)
    moreover have "exclusive_holders (ths[i := ?t])"
      by (rule exclusive_update [OF ex i]) (use g in \<open>auto simp: grants_iff\<close>)
    ultimately show ?thesis using d by (simp add: locks_inv_def ths' discipline_update)
  next
    case (Release l m)
    let ?t = "\<lparr>lk_held = remove1 (l, m) (lk_held (ths ! i)), lk_todo = todo\<rparr>"
    have ths': "ths' = ths[i := ?t]" using nx i todo Release by (simp add: lock_next_def)
    have "disciplined rank guard ?t" using f todo Release by (simp add: disciplined_def split: if_splits)
    moreover have "exclusive_holders (ths[i := ?t])"
      by (rule exclusive_update [OF ex i]) (use notin_set_remove1 in fastforce)
    ultimately show ?thesis using d by (simp add: locks_inv_def ths' discipline_update)
  next
    case (Touch v w)
    let ?t = "\<lparr>lk_held = lk_held (ths ! i), lk_todo = todo\<rparr> :: ('a, 'b) locker"
    have ths': "ths' = ths[i := ?t]" using nx i todo Touch by (simp add: lock_next_def)
    have "disciplined rank guard ?t" using f todo Touch by (simp add: disciplined_def split: if_splits)
    moreover have "exclusive_holders (ths[i := ?t])" by (rule exclusive_update [OF ex i]) simp
    ultimately show ?thesis using d by (simp add: locks_inv_def ths' discipline_update)
  qed
qed

lemma locks_start_inv:
  assumes "list_all (keeps rank guard []) ops"
  shows "locks_inv rank guard (locks_start ops)"
  using assms by (auto simp: locks_inv_def locks_start_def list_all_iff disciplined_def keeps_def exclusive_holders_def)

interpretation locks: invariant_system
  "\<lambda>ths. \<exists>ops. list_all (keeps rank guard []) ops \<and> ths = locks_start ops" lock_step "locks_inv rank guard" for rank guard
  by unfold_locales (auto elim!: lock_stepE intro: lock_next_inv locks_start_inv)

section \<open>No deadlock\<close>

text \<open>A thread that cannot go on waits for a lock that another one holds.\<close>

lemma blocked_waits:
  assumes "i < length ths" and "lk_todo (ths ! i) \<noteq> []" and "lock_next i ths = None"
  obtains l m todo j m' where "lk_todo (ths ! i) = Acquire l m # todo" and "j < length ths"
    and "(l, m') \<in> set (lk_held (ths ! j))"
proof -
  obtain a todo where todo: "lk_todo (ths ! i) = a # todo" using assms(2) by (cases "lk_todo (ths ! i)") auto
  with assms obtain l m where a: "a = Acquire l m" and "\<not> grants m (lock_state ths l)"
    by (cases a) (auto simp: lock_next_def split: if_splits)
  then obtain t m' where "t \<in> set ths" "(l, m') \<in> set (lk_held t)" by (auto simp: grants_iff)
  then show thesis using that todo a by (metis in_set_conv_nth)
qed

text \<open>The thread that waits for the highest lock cannot be blocked.\<close>

lemma disciplined_progress:
  assumes inv: "locks_inv rank guard ths" and undone: "\<not> all_done ths"
  shows "\<exists>i. lock_next i ths \<noteq> None"
proof (rule ccontr)
  assume "\<nexists>i. lock_next i ths \<noteq> None"
  then have stuck: "lock_next i ths = None" for i by blast
  let ?U = "{i. i < length ths \<and> lk_todo (ths ! i) \<noteq> []}"
  let ?w = "\<lambda>i. case lk_todo (ths ! i) of Acquire l m # _ \<Rightarrow> rank l | _ \<Rightarrow> 0"
  have "finite ?U" "?U \<noteq> {}" using undone by (auto simp: all_done_def list_all_length)
  then have "Max (?w ` ?U) \<in> ?w ` ?U" by (intro Max_in) simp_all
  then obtain i where i: "i \<in> ?U" and "?w i = Max (?w ` ?U)" by (metis (no_types, lifting) imageE)
  then have max: "?w j \<le> ?w i" if "j \<in> ?U" for j using \<open>finite ?U\<close> that by (metis (no_types, lifting) Max_ge finite_imageI imageI)
  obtain l m todo j m' where l: "lk_todo (ths ! i) = Acquire l m # todo" and j: "j < length ths"
    and held: "(l, m') \<in> set (lk_held (ths ! j))"
    by (rule blocked_waits [of i ths]) (use i stuck in auto)
  note f = locks_inv_thread [OF inv j]
  have "lk_todo (ths ! j) \<noteq> []" using f held by auto
  with j have U: "j \<in> ?U" by simp
  obtain l2 m2 todo2 where l2: "lk_todo (ths ! j) = Acquire l2 m2 # todo2"
    by (rule blocked_waits [of j ths]) (use U stuck in auto)
  have "rank l < rank l2" using f l2 held by (auto simp: list_all_iff split: if_splits)
  with max [OF U] l l2 show False by simp
qed

text \<open>Every step uses up an action, so a run is at most as long as what there is to do.\<close>

definition work_left :: "('l, 'v) locker list \<Rightarrow> nat" where
  "work_left ths = sum_list (map (\<lambda>t. length (lk_todo t)) ths)"

lemma lock_next_work:
  assumes "lock_next i ths = Some ths'"
  shows "work_left ths = Suc (work_left ths')"
proof -
  have i: "i < length ths" using assms by (simp add: lock_next_def split: if_splits)
  obtain t where ths': "ths' = ths[i := t]" and t: "length (lk_todo (ths ! i)) = Suc (length (lk_todo t))"
    using assms i by (auto simp: lock_next_def split: list.splits act.splits if_splits)
  let ?f = "\<lambda>t. length (lk_todo t)"
  have "sum_list (map ?f (ths[i := t])) + ?f (ths ! i) = sum_list (map ?f ths) + ?f t"
    using i member_le_sum_list [of "?f (ths ! i)" "map ?f ths"] by (simp add: map_update sum_list_update)
  with t show ?thesis by (simp add: work_left_def ths')
qed

lemma lock_steps_bounded: "(lock_step ^^ n) ths ths' \<Longrightarrow> n + work_left ths' = work_left ths"
proof (induction n arbitrary: ths')
  case (Suc n)
  then obtain ths1 where "(lock_step ^^ n) ths ths1" "lock_step ths1 ths'" by auto
  with Suc.IH lock_next_work show ?case by (fastforce elim: lock_stepE)
qed simp

section \<open>No race\<close>

text \<open>Two threads are about to touch the same data, one of them to write it.\<close>

definition racing :: "'v \<Rightarrow> ('l, 'v) locker list \<Rightarrow> bool" where
  "racing v ths \<longleftrightarrow>
     (\<exists>i < length ths. \<exists>j < length ths. i \<noteq> j \<and>
        (\<exists>w t w' t'. lk_todo (ths ! i) = Touch v w # t \<and> lk_todo (ths ! j) = Touch v w' # t' \<and> (w \<or> w')))"

lemma disciplined_no_race:
  assumes inv: "locks_inv rank guard ths" and g: "guard v \<noteq> None"
  shows "\<not> racing v ths"
proof
  assume "racing v ths"
  then obtain i j w t w' t' where ij: "i < length ths" "j < length ths" "i \<noteq> j"
    and todo: "lk_todo (ths ! i) = Touch v w # t" "lk_todo (ths ! j) = Touch v w' # t'" and ww: "w \<or> w'"
    by (auto simp: racing_def)
  obtain l where l: "guard v = Some l" using g by blast
  have "guarded guard (lk_held (ths ! i)) v w" "guarded guard (lk_held (ths ! j)) v w'"
    using locks_inv_thread [OF inv ij(1)] locks_inv_thread [OF inv ij(2)] todo by (auto split: if_splits)
  then obtain m m' where "(l, m) \<in> set (lk_held (ths ! i))" "(l, m') \<in> set (lk_held (ths ! j))"
      "m = Exclusive \<or> m' = Exclusive"
    using ww l by (auto simp: guarded_def)
  moreover from this have "m = Shared \<and> m' = Shared"
    using inv ij unfolding locks_inv_def exclusive_holders_def by blast
  ultimately show False by simp
qed

text \<open>A schedule names the threads in the order in which they move.\<close>

fun lock_run :: "nat list \<Rightarrow> ('l, 'v) locker list \<Rightarrow> ('l, 'v) locker list option" where
  "lock_run [] ths = Some ths"
| "lock_run (i # is) ths = Option.bind (lock_next i ths) (lock_run is)"

lemma lock_run_steps: "lock_run is ths = Some ths' \<Longrightarrow> (lock_step ^^ length is) ths ths'"
proof (induction "is" arbitrary: ths)
  case (Cons i "is")
  then obtain ths1 where "lock_next i ths = Some ths1" "(lock_step ^^ length is) ths1 ths'"
    by (auto simp: Option.bind_eq_Some_conv)
  then have "(lock_step ^^ Suc (length is)) ths ths'" by (blast intro: lock_step.step relpowp_Suc_I2)
  then show ?case by simp
qed simp

end
