(* ===== verification/Hps_LockTraces.thy ===== *)
theory Hps_LockTraces
  imports Hps_LockOrder Hps_LoggerClaims
begin

text \<open>
  Which locks the operations of the library take, in which order, and which shared data they
  touch while holding them: one definition per function, with the conditions the control flow
  depends on as arguments, or, for the loggers, read from a state of Hps_Logger. Taken together:
  no mixture of calls from any number of threads can deadlock, and the data that is accessed
  under one lock throughout is free of races; the data that is not has races.
\<close>

section \<open>Locks and data\<close>

text \<open>
  The mutex of the variable registry, of each variable, of the context table, of each context, of
  the scheduler, of the timers, of the logger manager, of each logger and of each appender.
\<close>

datatype lk = LRegistry | LVar string | LTable | LFd int | LSched | LTimers
  | LManager | LLogger nat | LAppender nat

text \<open>
  The registry; a variable's value and listeners; the counter of listener ids of a type; the
  context table; a context; the queue, the threads and the two flags of the scheduler; the
  timers, their flag \<open>m_tickled\<close> and the interval of a timer; the names of the manager; a
  logger's appenders and formatter; its level; an appender's formatter and stream; its level;
  the second of a file appender's last opening.
\<close>

datatype datum = DDatas | DVar string | DFunId string | DContexts | DFd int | DQueue | DThreads | DStop
  | DTimers | DTickled | DTimerMs nat | DNames | DLogger nat | DLoggerLevel nat
  | DAppender nat | DAppenderLevel nat | DFileTime nat

type_synonym lock_trace = "(lk, datum) act list"

text \<open>The order of the locks; \<open>root\<close> is the root logger.\<close>

fun lock_rank :: "nat \<Rightarrow> lk \<Rightarrow> nat" where
  "lock_rank root LRegistry = 0"
| "lock_rank root (LVar n) = 1"
| "lock_rank root LTable = 2"
| "lock_rank root (LFd fd) = 3"
| "lock_rank root LSched = 4"
| "lock_rank root LTimers = 5"
| "lock_rank root LManager = 6"
| "lock_rank root (LLogger l) = (if l = root then 8 else 7)"
| "lock_rank root (LAppender a) = 9"

text \<open>The lock that guards the data; \<open>None\<close>: there is none.\<close>

fun guard_of :: "datum \<Rightarrow> lk option" where
  "guard_of DDatas = Some LRegistry"
| "guard_of (DVar n) = Some (LVar n)"
| "guard_of DContexts = Some LTable"
| "guard_of (DFd fd) = Some (LFd fd)"
| "guard_of DQueue = Some LSched"
| "guard_of DThreads = Some LSched"
| "guard_of DTimers = Some LTimers"
| "guard_of DNames = Some LManager"
| "guard_of (DLogger l) = Some (LLogger l)"
| "guard_of (DAppender a) = Some (LAppender a)"
| "guard_of _ = None"

text \<open>
  What a call sees of the loggers, in which file appenders it finds a new second, and the
  address of the logger \<open>system\<close>.
\<close>

record trace_env =
  te_logs :: log_state
  te_reopens :: "nat \<Rightarrow> bool"
  te_system :: nat

section \<open>Logging\<close>

definition reopen_locks :: "nat \<Rightarrow> lock_trace" where
  "reopen_locks a = with_lock (LAppender a) Exclusive [Touch (DAppender a) True]"

definition appender_log_locks :: "trace_env \<Rightarrow> Level \<Rightarrow> nat \<Rightarrow> lock_trace" where
  "appender_log_locks E level a =
     (case look (ls_appenders (te_logs E)) a of
        None \<Rightarrow> []
      | Some p \<Rightarrow> Touch (DAppenderLevel a) False #
          (if ap_level p \<le> level then
             (case ap_kind p of
                StdoutAppender \<Rightarrow> []
              | FileAppender _ \<Rightarrow> Touch (DFileTime a) False #
                  (if te_reopens E a then reopen_locks a @ [Touch (DFileTime a) True] else [])) @
             with_lock (LAppender a) Exclusive [Touch (DAppender a) True]
           else []))"

fun Logger_log_locks :: "trace_env \<Rightarrow> nat \<Rightarrow> nat \<Rightarrow> Level \<Rightarrow> lock_trace" where
  "Logger_log_locks E 0 l level = []"
| "Logger_log_locks E (Suc k) l level =
     (case look (ls_logger (te_logs E)) l of
        None \<Rightarrow> []
      | Some lg \<Rightarrow> Touch (DLoggerLevel l) False #
          (if lg_level lg \<le> level then
             with_lock (LLogger l) Exclusive (Touch (DLogger l) False #
               (if lg_appenders lg \<noteq> [] then concat (map (appender_log_locks E level) (lg_appenders lg))
                else (case lg_root lg of
                        None \<Rightarrow> []
                      | Some r \<Rightarrow> Logger_log_locks E k r level)))
           else []))"

text \<open>The stream macro; \<open>args\<close> is what computing the streamed values does.\<close>

definition log_macro_locks :: "trace_env \<Rightarrow> nat \<Rightarrow> Level \<Rightarrow> lock_trace \<Rightarrow> lock_trace" where
  "log_macro_locks E l level args =
     (case look (ls_logger (te_logs E)) l of
        None \<Rightarrow> []
      | Some lg \<Rightarrow> Touch (DLoggerLevel l) False #
          (if lg_level lg \<le> level then args @ Logger_log_locks E 2 l level else []))"

definition log_root_locks :: "trace_env \<Rightarrow> Level \<Rightarrow> lock_trace \<Rightarrow> lock_trace" where
  "log_root_locks E level args = log_macro_locks E (ls_root (te_logs E)) level args"

definition log_system_locks :: "trace_env \<Rightarrow> Level \<Rightarrow> lock_trace" where
  "log_system_locks E level = log_macro_locks E (te_system E) level []"

definition appenders_of :: "trace_env \<Rightarrow> nat \<Rightarrow> nat list" where
  "appenders_of E l = (case look (ls_logger (te_logs E)) l of None \<Rightarrow> [] | Some lg \<Rightarrow> lg_appenders lg)"

definition Logger_setFormatter_locks :: "trace_env \<Rightarrow> nat \<Rightarrow> lock_trace" where
  "Logger_setFormatter_locks E l =
     with_lock (LLogger l) Exclusive (Touch (DLogger l) True #
       concat (map (\<lambda>a. with_lock (LAppender a) Exclusive [Touch (DAppender a) True]) (appenders_of E l)))"

definition Logger_getFormatter_locks :: "nat \<Rightarrow> lock_trace" where
  "Logger_getFormatter_locks l = with_lock (LLogger l) Exclusive [Touch (DLogger l) False]"

definition appender_getFormatter_locks :: "nat \<Rightarrow> lock_trace" where
  "appender_getFormatter_locks a = with_lock (LAppender a) Exclusive [Touch (DAppender a) False]"

definition appender_setFormatter_locks :: "nat \<Rightarrow> lock_trace" where
  "appender_setFormatter_locks a = with_lock (LAppender a) Exclusive [Touch (DAppender a) True]"

text \<open>\<open>unset\<close>: the appender has no formatter yet.\<close>

definition addAppender_locks :: "bool \<Rightarrow> nat \<Rightarrow> nat \<Rightarrow> lock_trace" where
  "addAppender_locks unset l a =
     with_lock (LLogger l) Exclusive (appender_getFormatter_locks a @
       (if unset then with_lock (LAppender a) Exclusive [Touch (DLogger l) False, Touch (DAppender a) True] else []) @
       [Touch (DLogger l) True])"

definition delAppender_locks :: "nat \<Rightarrow> lock_trace" where
  "delAppender_locks l = with_lock (LLogger l) Exclusive [Touch (DLogger l) True]"

definition clearAppenders_locks :: "nat \<Rightarrow> lock_trace" where
  "clearAppenders_locks l = with_lock (LLogger l) Exclusive [Touch (DLogger l) True]"

definition appender_toYAML_locks :: "nat \<Rightarrow> lock_trace" where
  "appender_toYAML_locks a =
     with_lock (LAppender a) Exclusive [Touch (DAppenderLevel a) False, Touch (DAppender a) False]"

definition Logger_toYAML_locks :: "trace_env \<Rightarrow> nat \<Rightarrow> lock_trace" where
  "Logger_toYAML_locks E l =
     with_lock (LLogger l) Exclusive (Touch (DLoggerLevel l) False # Touch (DLogger l) False #
       concat (map appender_toYAML_locks (appenders_of E l)))"

text \<open>\<open>new\<close>: there is no logger of that name; \<open>ls\<close> are the loggers of the manager.\<close>

definition getLogger_locks :: "bool \<Rightarrow> lock_trace" where
  "getLogger_locks new = with_lock LManager Exclusive (Touch DNames False # (if new then [Touch DNames True] else []))"

definition LoggerManager_toYAML_locks :: "trace_env \<Rightarrow> nat list \<Rightarrow> lock_trace" where
  "LoggerManager_toYAML_locks E ls =
     with_lock LManager Exclusive (Touch DNames False # concat (map (Logger_toYAML_locks E) ls))"

datatype log_call =
    CallLog nat Level | CallMacro nat Level | CallSetFormatter nat | CallGetFormatter nat
  | CallAddAppender bool nat nat | CallDelAppender nat | CallClearAppenders nat
  | CallSetLevel nat | CallAppenderSetLevel nat | CallReopen nat
  | CallAppenderSetFormatter nat | CallAppenderGetFormatter nat | CallAppenderYAML nat
  | CallLoggerYAML nat | CallGetLogger bool | CallManagerYAML "nat list"

fun log_call_locks :: "trace_env \<Rightarrow> log_call \<Rightarrow> lock_trace" where
  "log_call_locks E (CallLog l level) = Logger_log_locks E 2 l level"
| "log_call_locks E (CallMacro l level) = log_macro_locks E l level []"
| "log_call_locks E (CallSetFormatter l) = Logger_setFormatter_locks E l"
| "log_call_locks E (CallGetFormatter l) = Logger_getFormatter_locks l"
| "log_call_locks E (CallAddAppender unset l a) = addAppender_locks unset l a"
| "log_call_locks E (CallDelAppender l) = delAppender_locks l"
| "log_call_locks E (CallClearAppenders l) = clearAppenders_locks l"
| "log_call_locks E (CallSetLevel l) = [Touch (DLoggerLevel l) True]"
| "log_call_locks E (CallAppenderSetLevel a) = [Touch (DAppenderLevel a) True]"
| "log_call_locks E (CallReopen a) = reopen_locks a"
| "log_call_locks E (CallAppenderSetFormatter a) = appender_setFormatter_locks a"
| "log_call_locks E (CallAppenderGetFormatter a) = appender_getFormatter_locks a"
| "log_call_locks E (CallAppenderYAML a) = appender_toYAML_locks a"
| "log_call_locks E (CallLoggerYAML l) = Logger_toYAML_locks E l"
| "log_call_locks E (CallGetLogger new) = getLogger_locks new"
| "log_call_locks E (CallManagerYAML ls) = LoggerManager_toYAML_locks E ls"

section \<open>Configuration\<close>

text \<open>\<open>toString\<close>; the message of a failed conversion is logged after the lock is given back.\<close>

definition toString_locks :: "trace_env \<Rightarrow> string \<Rightarrow> bool \<Rightarrow> lock_trace" where
  "toString_locks E n throws = with_lock (LVar n) Shared [Touch (DVar n) False] @
     (if throws then log_root_locks E ERROR [] else [])"

definition getValue_locks :: "string \<Rightarrow> lock_trace" where
  "getValue_locks n = with_lock (LVar n) Shared [Touch (DVar n) False]"

text \<open>\<open>setValue\<close>: \<open>cbs\<close> is what the listeners do, called under the read lock.\<close>

definition setValue_locks :: "string \<Rightarrow> bool \<Rightarrow> lock_trace \<Rightarrow> lock_trace" where
  "setValue_locks n same cbs =
     (if same then with_lock (LVar n) Shared [Touch (DVar n) False]
      else with_lock (LVar n) Shared (Touch (DVar n) False # cbs) @
           with_lock (LVar n) Exclusive [Touch (DVar n) True])"

definition fromString_locks :: "trace_env \<Rightarrow> string \<Rightarrow> bool \<Rightarrow> bool \<Rightarrow> lock_trace \<Rightarrow> lock_trace" where
  "fromString_locks E n throws same cbs =
     (if throws then log_root_locks E ERROR [] else setValue_locks n same cbs)"

text \<open>The counter is one per type, the lock one per variable.\<close>

definition addListener_locks :: "string \<Rightarrow> string \<Rightarrow> lock_trace" where
  "addListener_locks ty n = with_lock (LVar n) Exclusive [Touch (DFunId ty) True]"

definition delListener_locks :: "string \<Rightarrow> lock_trace" where
  "delListener_locks n = with_lock (LVar n) Exclusive [Touch (DVar n) True]"

definition getListener_locks :: "string \<Rightarrow> lock_trace" where
  "getListener_locks n = with_lock (LVar n) Shared [Touch (DVar n) False]"

definition clearListener_locks :: "string \<Rightarrow> lock_trace" where
  "clearListener_locks n = with_lock (LVar n) Exclusive [Touch (DVar n) True]"

datatype lookup_path = LookupFound | LookupClash bool | LookupInvalid | LookupNew

definition Lookup_or_create_locks :: "trace_env \<Rightarrow> string \<Rightarrow> lookup_path \<Rightarrow> lock_trace" where
  "Lookup_or_create_locks E n path =
     with_lock LRegistry Exclusive (Touch DDatas False #
       (case path of
          LookupFound \<Rightarrow> log_root_locks E INFO []
        | LookupClash throws \<Rightarrow> log_root_locks E ERROR (toString_locks E n throws)
        | LookupInvalid \<Rightarrow> log_root_locks E ERROR []
        | LookupNew \<Rightarrow> [Touch DDatas True]))"

definition Lookup_locks :: lock_trace where
  "Lookup_locks = with_lock LRegistry Shared [Touch DDatas False]"

definition LookupBase_locks :: lock_trace where
  "LookupBase_locks = with_lock LRegistry Shared [Touch DDatas False]"

text \<open>\<open>Visit\<close>: \<open>cbs\<close> is what the callback does on the variables.\<close>

definition Visit_locks :: "lock_trace list \<Rightarrow> lock_trace" where
  "Visit_locks cbs = with_lock LRegistry Shared (Touch DDatas False # concat cbs)"

end
