(* ===== verification/Hps_IOLockTraces.thy ===== *)
theory Hps_IOLockTraces
  imports Hps_LockTraces
begin

text \<open>
  The locks of the timers, the scheduler, the fibers and the IO manager, as in Hps_LockTraces; the
  list of all calls, and what a program of any number of threads does.
\<close>

section \<open>Timers\<close>

text \<open>
  \<open>armed\<close>: the timer's callback is set; \<open>freed\<close>: dropping it destroys the last pointer to a
  fiber, whose destructor logs.
\<close>

definition Timer_cancel_locks :: "trace_env \<Rightarrow> bool \<Rightarrow> bool \<Rightarrow> lock_trace" where
  "Timer_cancel_locks E armed freed =
     with_lock LTimers Exclusive (Touch DTimers False #
       (if armed then Touch DTimers True # (if freed then log_system_locks E DEBUG else []) @ [Touch DTimers True]
        else []))"

definition Timer_refresh_locks :: "nat \<Rightarrow> bool \<Rightarrow> lock_trace" where
  "Timer_refresh_locks a armed =
     with_lock LTimers Exclusive (Touch DTimers False #
       (if armed then [Touch (DTimerMs a) False, Touch DTimers True] else []))"

text \<open>
  The private \<open>addTimer\<close>, up to its \<open>lock.unlock()\<close>: \<open>first\<close>: the timer is the first of the set;
  \<open>tickled\<close>: the flag is set already.
\<close>

definition insert_timer_touches :: "bool \<Rightarrow> bool \<Rightarrow> lock_trace" where
  "insert_timer_touches first tickled =
     Touch DTimers True # (if first then Touch DTickled False # (if tickled then [] else [Touch DTickled True]) else [])"

text \<open>The notification comes after the lock is given back; the override of the IO manager takes none.\<close>

definition Timer_reset_locks :: "nat \<Rightarrow> bool \<Rightarrow> bool \<Rightarrow> bool \<Rightarrow> bool \<Rightarrow> lock_trace" where
  "Timer_reset_locks a unchanged armed first tickled =
     Touch (DTimerMs a) False #
     (if unchanged then []
      else with_lock LTimers Exclusive (Touch DTimers False #
        (if armed then [Touch DTimers True, Touch (DTimerMs a) True] @ insert_timer_touches first tickled else [])))"

definition addTimer_locks :: "bool \<Rightarrow> bool \<Rightarrow> lock_trace" where
  "addTimer_locks first tickled = with_lock LTimers Exclusive (insert_timer_touches first tickled)"

text \<open>\<open>getNextTimer\<close> clears the flag under a read lock.\<close>

definition getNextTimer_locks :: lock_trace where
  "getNextTimer_locks = with_lock LTimers Shared [Touch DTickled True, Touch DTimers False]"

definition listExpiredCb_locks :: "bool \<Rightarrow> lock_trace" where
  "listExpiredCb_locks none =
     with_lock LTimers Shared [Touch DTimers False] @
     (if none then [] else with_lock LTimers Exclusive [Touch DTimers True])"

definition hasTimer_locks :: lock_trace where
  "hasTimer_locks = with_lock LTimers Shared [Touch DTimers False]"

section \<open>Fibers\<close>

text \<open>A new fiber asks for the default stack size if none is given.\<close>

definition Fiber_new_locks :: "trace_env \<Rightarrow> bool \<Rightarrow> lock_trace" where
  "Fiber_new_locks E default_size =
     (if default_size then getValue_locks ''fiber.stack_size'' else []) @ log_system_locks E DEBUG"

section \<open>Scheduler\<close>

text \<open>\<open>io\<close>: the scheduler is an IO manager. The base class's \<open>tickle\<close> logs, its own does not.\<close>

definition tickle_locks :: "trace_env \<Rightarrow> bool \<Rightarrow> lock_trace" where
  "tickle_locks E io = (if io then [] else log_system_locks E INFO)"

definition schedule_locks :: "trace_env \<Rightarrow> bool \<Rightarrow> bool \<Rightarrow> lock_trace" where
  "schedule_locks E io need_tickle =
     with_lock LSched Exclusive [Touch DQueue True] @ (if need_tickle then tickle_locks E io else [])"

definition schedule_range_locks :: "trace_env \<Rightarrow> bool \<Rightarrow> bool \<Rightarrow> lock_trace" where
  "schedule_range_locks E io need_tickle =
     with_lock LSched Exclusive [Touch DQueue True] @ (if need_tickle then tickle_locks E io else [])"

definition start_locks :: "bool \<Rightarrow> lock_trace" where
  "start_locks running =
     with_lock LSched Exclusive (Touch DStop False # (if running then [] else [Touch DStop True, Touch DThreads True]))"

definition Scheduler_stopping_locks :: lock_trace where
  "Scheduler_stopping_locks = with_lock LSched Exclusive [Touch DStop False, Touch DQueue False]"

text \<open>The override asks the timers first; \<open>quiet\<close>: there is no timer and no pending event.\<close>

definition IOManager_stopping_locks :: "bool \<Rightarrow> lock_trace" where
  "IOManager_stopping_locks quiet = getNextTimer_locks @ (if quiet then Scheduler_stopping_locks else [])"

definition stopping_locks :: "bool \<Rightarrow> bool \<Rightarrow> lock_trace" where
  "stopping_locks io quiet = (if io then IOManager_stopping_locks quiet else Scheduler_stopping_locks)"

text \<open>
  \<open>stop\<close>: \<open>rest\<close>: the root fiber is at rest and there are no threads, and then \<open>stopped\<close> is what
  \<open>stopping()\<close> says; \<open>n\<close> threads and maybe a root fiber are woken. The root fiber runs with no
  lock held, its calls are calls of their own; so does the join.
\<close>

definition stop_locks :: "trace_env \<Rightarrow> bool \<Rightarrow> bool \<Rightarrow> bool \<Rightarrow> bool \<Rightarrow> nat \<Rightarrow> bool \<Rightarrow> lock_trace" where
  "stop_locks E io quiet rest stopped n root =
     Touch DStop True #
     (if rest then log_system_locks E INFO @ Touch DStop True # stopping_locks io quiet else []) @
     (if rest \<and> stopped then []
      else Touch DStop True # concat (replicate n (tickle_locks E io)) @
        (if root then tickle_locks E io @ stopping_locks io quiet else []) @
        with_lock LSched Exclusive [Touch DThreads True])"

definition run_pick_locks :: lock_trace where
  "run_pick_locks = with_lock LSched Exclusive [Touch DQueue True]"

section \<open>IO manager\<close>

definition triggerEvent_locks :: "trace_env \<Rightarrow> bool \<Rightarrow> bool \<Rightarrow> int \<Rightarrow> lock_trace" where
  "triggerEvent_locks E io need_tickle fd = Touch (DFd fd) True # schedule_locks E io need_tickle"

text \<open>
  \<open>grow\<close>: the look-up finds no context; \<open>fails\<close>: so does \<open>epoll_ctl\<close>; \<open>main\<close>: the thread gets its
  main fiber here.
\<close>

definition addEvent_locks :: "trace_env \<Rightarrow> int \<Rightarrow> bool \<Rightarrow> bool \<Rightarrow> bool \<Rightarrow> lock_trace" where
  "addEvent_locks E fd grow fails main =
     with_lock LTable Shared [Touch DContexts False] @
     (if grow then with_lock LTable Exclusive [Touch DContexts True] else []) @
     with_lock (LFd fd) Exclusive (Touch (DFd fd) False #
       (if fails then log_system_locks E ERROR
        else Touch (DFd fd) True # (if main then log_system_locks E DEBUG else [])))"

text \<open>
  How far \<open>delEvent\<close>, \<open>cancelEvent\<close> and \<open>cancelAll\<close> get: no context, the event is not registered,
  \<open>epoll_ctl\<close> fails, or the end.
\<close>

datatype drop_path = NoContext | NotRegistered | CtlFails | Dropped

definition drop_locks :: "trace_env \<Rightarrow> int \<Rightarrow> drop_path \<Rightarrow> lock_trace \<Rightarrow> lock_trace" where
  "drop_locks E fd path body =
     with_lock LTable Shared [Touch DContexts False] @
     (if path = NoContext then []
      else with_lock (LFd fd) Exclusive (Touch (DFd fd) False #
        (case path of
           CtlFails \<Rightarrow> log_system_locks E ERROR
         | Dropped \<Rightarrow> body
         | _ \<Rightarrow> [])))"

definition delEvent_locks :: "trace_env \<Rightarrow> int \<Rightarrow> drop_path \<Rightarrow> bool \<Rightarrow> lock_trace" where
  "delEvent_locks E fd path freed =
     drop_locks E fd path (Touch (DFd fd) True # (if freed then log_system_locks E DEBUG else []))"

definition cancelEvent_locks :: "trace_env \<Rightarrow> int \<Rightarrow> drop_path \<Rightarrow> bool \<Rightarrow> bool \<Rightarrow> lock_trace" where
  "cancelEvent_locks E fd path io need_tickle = drop_locks E fd path (triggerEvent_locks E io need_tickle fd)"

definition trigger_events_locks :: "trace_env \<Rightarrow> int \<Rightarrow> (bool \<times> bool) list \<Rightarrow> lock_trace" where
  "trigger_events_locks E fd ts = concat (map (\<lambda>(io, need_tickle). triggerEvent_locks E io need_tickle fd) ts)"

definition cancelAll_locks :: "trace_env \<Rightarrow> int \<Rightarrow> drop_path \<Rightarrow> (bool \<times> bool) list \<Rightarrow> lock_trace" where
  "cancelAll_locks E fd path ts = drop_locks E fd path (trigger_events_locks E fd ts @ [Touch (DFd fd) False])"

text \<open>An element of the array of \<open>epoll_wait\<close> that is a context (no look-up: the pointer came back).\<close>

definition idle_event_locks :: "trace_env \<Rightarrow> int \<Rightarrow> drop_path \<Rightarrow> (bool \<times> bool) list \<Rightarrow> lock_trace" where
  "idle_event_locks E fd path ts =
     with_lock (LFd fd) Exclusive (Touch (DFd fd) False #
       (case path of
          CtlFails \<Rightarrow> log_system_locks E ERROR
        | Dropped \<Rightarrow> trigger_events_locks E fd ts
        | _ \<Rightarrow> []))"

section \<open>All calls\<close>

text \<open>
  The listeners of a variable are taken to call the loggers only, as the one of the logs
  configuration does, and the callbacks of \<open>Visit\<close> to read variables and to log.
\<close>

datatype lib_call =
    Logging log_call
  | LookupOrCreate string lookup_path | LookupName | LookupBaseName
  | VisitAll "(string \<times> bool) list" "log_call list"
  | ToString string bool | GetValue string | SetValue string bool "log_call list"
  | FromString string bool bool "log_call list"
  | AddListener string string | DelListener string | GetListener string | ClearListener string
  | TimerCancel bool bool | TimerRefresh nat bool | TimerReset nat bool bool bool bool
  | AddTimer bool bool | NextTimer | ListExpired bool | HasTimer
  | NewFiber bool
  | Schedule bool bool | ScheduleRange bool bool | Start bool | Stopping bool bool
  | Stop bool bool bool bool nat bool | Pick
  | AddEvent int bool bool bool | DelEvent int drop_path bool | CancelEvent int drop_path bool bool
  | CancelAll int drop_path "(bool \<times> bool) list" | IdleEvent int drop_path "(bool \<times> bool) list"

definition log_calls_locks :: "trace_env \<Rightarrow> log_call list \<Rightarrow> lock_trace" where
  "log_calls_locks E cs = concat (map (log_call_locks E) cs)"

fun lib_call_locks :: "trace_env \<Rightarrow> lib_call \<Rightarrow> lock_trace" where
  "lib_call_locks E (Logging c) = log_call_locks E c"
| "lib_call_locks E (LookupOrCreate n path) = Lookup_or_create_locks E n path"
| "lib_call_locks E LookupName = Lookup_locks"
| "lib_call_locks E LookupBaseName = LookupBase_locks"
| "lib_call_locks E (VisitAll vs cs) =
     Visit_locks (map (\<lambda>(n, throws). toString_locks E n throws) vs @ map (log_call_locks E) cs)"
| "lib_call_locks E (ToString n throws) = toString_locks E n throws"
| "lib_call_locks E (GetValue n) = getValue_locks n"
| "lib_call_locks E (SetValue n same cs) = setValue_locks n same (log_calls_locks E cs)"
| "lib_call_locks E (FromString n throws same cs) = fromString_locks E n throws same (log_calls_locks E cs)"
| "lib_call_locks E (AddListener ty n) = addListener_locks ty n"
| "lib_call_locks E (DelListener n) = delListener_locks n"
| "lib_call_locks E (GetListener n) = getListener_locks n"
| "lib_call_locks E (ClearListener n) = clearListener_locks n"
| "lib_call_locks E (TimerCancel armed freed) = Timer_cancel_locks E armed freed"
| "lib_call_locks E (TimerRefresh a armed) = Timer_refresh_locks a armed"
| "lib_call_locks E (TimerReset a unchanged armed first tickled) = Timer_reset_locks a unchanged armed first tickled"
| "lib_call_locks E (AddTimer first tickled) = addTimer_locks first tickled"
| "lib_call_locks E NextTimer = getNextTimer_locks"
| "lib_call_locks E (ListExpired none) = listExpiredCb_locks none"
| "lib_call_locks E HasTimer = hasTimer_locks"
| "lib_call_locks E (NewFiber default_size) = Fiber_new_locks E default_size"
| "lib_call_locks E (Schedule io need) = schedule_locks E io need"
| "lib_call_locks E (ScheduleRange io need) = schedule_range_locks E io need"
| "lib_call_locks E (Start running) = start_locks running"
| "lib_call_locks E (Stopping io quiet) = stopping_locks io quiet"
| "lib_call_locks E (Stop io quiet rest stopped n root) = stop_locks E io quiet rest stopped n root"
| "lib_call_locks E Pick = run_pick_locks"
| "lib_call_locks E (AddEvent fd grow fails main) = addEvent_locks E fd grow fails main"
| "lib_call_locks E (DelEvent fd path freed) = delEvent_locks E fd path freed"
| "lib_call_locks E (CancelEvent fd path io need) = cancelEvent_locks E fd path io need"
| "lib_call_locks E (CancelAll fd path ts) = cancelAll_locks E fd path ts"
| "lib_call_locks E (IdleEvent fd path ts) = idle_event_locks E fd path ts"

text \<open>A program: for each thread, its calls, each with what it sees of the loggers.\<close>

definition program_start :: "(trace_env \<times> lib_call) list list \<Rightarrow> (lk, datum) locker list" where
  "program_start prog = locks_start (map (\<lambda>cs. concat (map (\<lambda>c. lib_call_locks (fst c) (snd c)) cs)) prog)"

text \<open>What the calls see are loggers as the operations of Hps_Logger leave them, with one root.\<close>

definition env_ok :: "nat \<Rightarrow> trace_env \<Rightarrow> bool" where
  "env_ok root E \<longleftrightarrow> log_inv (te_logs E) \<and> ls_root (te_logs E) = root"

end
