(* ===== verification/Hps_LockClaims.thy ===== *)
theory Hps_LockClaims
  imports Hps_IOLockTraces
begin

text \<open>
  Every call of the library keeps the lock discipline of Hps_LockOrder, so no program of any
  number of threads that make such calls can deadlock, and only the data that no lock guards
  can be accessed in a race; for that data races exist.
\<close>

section \<open>Every call keeps the discipline\<close>

text \<open>Nothing held as high as a lock of rank \<open>n\<close>.\<close>

definition below :: "nat \<Rightarrow> nat \<Rightarrow> (lk \<times> mode) list \<Rightarrow> bool" where
  "below root n held \<longleftrightarrow> list_all (\<lambda>h. lock_rank root (fst h) < n) held"

abbreviation kept :: "nat \<Rightarrow> (lk \<times> mode) list \<Rightarrow> lock_trace \<Rightarrow> bool" where
  "kept root held tr \<equiv> keeps (lock_rank root) guard_of held tr"

lemma below_Nil [simp]: "below root n []"
  by (simp add: below_def)

lemma below_Cons [simp]: "below root n (h # held) \<longleftrightarrow> lock_rank root (fst h) < n \<and> below root n held"
  by (simp add: below_def)

lemma below_mono: "below root n held \<Longrightarrow> n \<le> k \<Longrightarrow> below root k held"
  by (auto simp: below_def list_all_iff)

lemma kept_with_lock:
  assumes "below root (lock_rank root l) held" and "kept root ((l, m) # held) body"
  shows "kept root held (with_lock l m body)"
  using assms by (intro keeps_with_lock) (simp_all add: below_def)

lemma guarded_here [simp]:
  "guard_of v = None \<Longrightarrow> guarded guard_of held v w"
  "guard_of v = Some l \<Longrightarrow> guarded guard_of ((l, Exclusive) # held) v w"
  "guard_of v = Some l \<Longrightarrow> guarded guard_of ((l, Shared) # held) v False"
  "guarded guard_of held v w \<Longrightarrow> guarded guard_of (h # held) v w"
  by (auto simp: guarded_def split: option.splits)

lemma appender_locks_kept:
  assumes "below root 9 held"
  shows "kept root held (appender_log_locks E level a)" and "kept root held (reopen_locks a)"
    and "kept root held (appender_getFormatter_locks a)" and "kept root held (appender_setFormatter_locks a)"
    and "kept root held (appender_toYAML_locks a)"
    and "kept root held (with_lock (LAppender a) Exclusive [Touch (DAppender a) True])"
proof -
  show w: "kept root held (with_lock (LAppender a) Exclusive [Touch (DAppender a) True])"
    by (rule kept_with_lock) (use assms in simp_all)
  show r: "kept root held (reopen_locks a)" using w by (simp add: reopen_locks_def)
  have "kept root held (if b then reopen_locks a @ [Touch (DFileTime a) True] else [])" for b
    using keeps_append [OF r, of "[Touch (DFileTime a) True]"] by simp
  then show "kept root held (appender_log_locks E level a)"
    using w r by (auto simp: appender_log_locks_def split: option.split appender_kind.split intro!: keeps_append)
  show "kept root held (appender_getFormatter_locks a)" "kept root held (appender_setFormatter_locks a)"
    "kept root held (appender_toYAML_locks a)"
    unfolding appender_getFormatter_locks_def appender_setFormatter_locks_def appender_toYAML_locks_def
    by (rule kept_with_lock; use assms in simp)+
qed

text \<open>A logger's lock, then at most the root's, then the appenders' one by one.\<close>

lemma Logger_log_root_kept:
  assumes env: "env_ok root E" and "below root 8 held"
  shows "kept root held (Logger_log_locks E k root level)"
proof (cases k)
  case (Suc m)
  let ?lg = "ls_logger (te_logs E) ! root"
  have lg: "look (ls_logger (te_logs E)) root = Some ?lg" "lg_root ?lg = None"
    using env by (auto simp: env_ok_def log_inv_def look_def)
  have "below root 9 ((LLogger root, Exclusive) # held)" using below_mono [OF assms(2), of 9] by simp
  from appender_locks_kept(1) [OF this]
  have "kept root ((LLogger root, Exclusive) # held) (concat (map (appender_log_locks E level) (lg_appenders ?lg)))"
    by (intro keeps_concat) auto
  then have "kept root held (with_lock (LLogger root) Exclusive (Touch (DLogger root) False #
      (if lg_appenders ?lg \<noteq> [] then concat (map (appender_log_locks E level) (lg_appenders ?lg))
       else case lg_root ?lg of None \<Rightarrow> [] | Some r \<Rightarrow> Logger_log_locks E m r level)))"
    by (intro kept_with_lock) (use assms(2) lg(2) in auto)
  then show ?thesis using Suc lg(1) by simp
qed simp

lemma Logger_log_kept:
  assumes env: "env_ok root E" and h: "below root 7 held"
  shows "kept root held (Logger_log_locks E k l level)"
proof (cases "k = 0 \<or> l = root \<or> look (ls_logger (te_logs E)) l = None")
  case True
  consider "k = 0" | "l = root" | m where "k = Suc m" "look (ls_logger (te_logs E)) l = None"
    using True by (cases k) auto
  then show ?thesis
  proof cases
    case 2
    with Logger_log_root_kept [OF env below_mono [OF h]] show ?thesis by simp
  qed simp_all
next
  case False
  then obtain m lg where k: "k = Suc m" and lg: "look (ls_logger (te_logs E)) l = Some lg" and l: "l \<noteq> root"
    by (cases k) auto
  have r: "lg_root lg = None \<or> lg_root lg = Some root"
    using env lg by (auto simp: env_ok_def log_inv_def logger_ok_def look_def split: if_splits)
  let ?held = "(LLogger l, Exclusive) # held"
  have h8: "below root 8 ?held" "below root 9 ?held" using below_mono [OF h] l by simp_all
  have "kept root ?held (concat (map (appender_log_locks E level) (lg_appenders lg)))"
    using appender_locks_kept(1) [OF h8(2)] by (intro keeps_concat) auto
  moreover have "kept root ?held (case lg_root lg of None \<Rightarrow> [] | Some r \<Rightarrow> Logger_log_locks E m r level)"
    using r Logger_log_root_kept [OF env h8(1)] by auto
  ultimately have "kept root held (with_lock (LLogger l) Exclusive (Touch (DLogger l) False #
      (if lg_appenders lg \<noteq> [] then concat (map (appender_log_locks E level) (lg_appenders lg))
       else case lg_root lg of None \<Rightarrow> [] | Some r \<Rightarrow> Logger_log_locks E m r level)))"
    by (intro kept_with_lock) (use h l in simp_all)
  then show ?thesis using k lg by simp
qed

lemma log_macro_kept:
  assumes "env_ok root E" and "below root 7 held" and "kept root held args"
  shows "kept root held (log_macro_locks E l level args)"
  using keeps_append [OF assms(3) Logger_log_kept [OF assms(1,2)]]
  by (simp add: log_macro_locks_def split: option.split)

lemma log_kept:
  assumes "env_ok root E" and "below root 7 held"
  shows "kept root held (log_system_locks E level)" and "kept root held (log_root_locks E level [])"
  using log_macro_kept [OF assms] by (simp_all add: log_system_locks_def log_root_locks_def)

lemma each_appender_kept:
  assumes "below root 9 held" and "\<And>a. kept root held (f a)"
  shows "kept root held (concat (map f as))"
  using assms(2) by (intro keeps_concat) auto

lemma logger_rank: "lock_rank root (LLogger l) \<le> 8" "7 \<le> lock_rank root (LLogger l)"
  by simp_all

lemma below_logger: "below root 7 held \<Longrightarrow> below root (lock_rank root (LLogger l)) held"
  "below root 7 held \<Longrightarrow> below root 9 ((LLogger l, m) # held)"
  using below_mono [of root 7 held] by auto

lemma Logger_calls_kept:
  assumes h: "below root 7 held"
  shows "kept root held (Logger_setFormatter_locks E l)" and "kept root held (Logger_getFormatter_locks l)"
    and "kept root held (addAppender_locks unset l a)" and "kept root held (delAppender_locks l)"
    and "kept root held (clearAppenders_locks l)" and "kept root held (Logger_toYAML_locks E l)"
proof -
  let ?held = "(LLogger l, Exclusive) # held"
  note w = kept_with_lock [OF below_logger(1) [OF h]]
  note ap = appender_locks_kept [OF below_logger(2) [OF h]]
  show "kept root held (Logger_setFormatter_locks E l)" unfolding Logger_setFormatter_locks_def
    by (rule w) (use each_appender_kept [OF below_logger(2) [OF h] ap(6)] in simp)
  show "kept root held (Logger_getFormatter_locks l)" "kept root held (delAppender_locks l)"
    "kept root held (clearAppenders_locks l)"
    unfolding Logger_getFormatter_locks_def delAppender_locks_def clearAppenders_locks_def
    by (rule w; simp)+
  show "kept root held (Logger_toYAML_locks E l)" unfolding Logger_toYAML_locks_def
    by (rule w) (use each_appender_kept [OF below_logger(2) [OF h] ap(5)] in simp)
  have "kept root ?held (with_lock (LAppender a) Exclusive [Touch (DLogger l) False, Touch (DAppender a) True])"
    by (rule kept_with_lock) (use below_logger(2) [OF h] in simp_all)
  then show "kept root held (addAppender_locks unset l a)" unfolding addAppender_locks_def
    by (intro w keeps_append ap(3)) simp_all
qed

lemma log_call_kept:
  assumes env: "env_ok root E" and h: "below root 6 held"
  shows "kept root held (log_call_locks E c)"
proof -
  have h7: "below root 7 held" "below root 9 held" using below_mono [OF h] by simp_all
  have hm: "below root 7 ((LManager, Exclusive) # held)" using below_mono [OF h] by simp
  note w = kept_with_lock [of root LManager held Exclusive]
  show ?thesis
  proof (cases c)
    case (CallGetLogger new)
    have "kept root held (getLogger_locks new)" unfolding getLogger_locks_def by (rule w) (use h in simp_all)
    with CallGetLogger show ?thesis by simp
  next
    case (CallManagerYAML ls)
    have "kept root ((LManager, Exclusive) # held) (concat (map (Logger_toYAML_locks E) ls))"
      using Logger_calls_kept(6) [OF hm] by (intro keeps_concat) auto
    then have "kept root held (LoggerManager_toYAML_locks E ls)" unfolding LoggerManager_toYAML_locks_def
      by (intro w) (use h in simp_all)
    with CallManagerYAML show ?thesis by simp
  qed (use Logger_log_kept [OF env h7(1)] log_macro_kept [OF env h7(1)] Logger_calls_kept [OF h7(1)]
      appender_locks_kept [OF h7(2)] in \<open>simp_all del: Logger_log_locks.simps\<close>)
qed

lemma log_calls_kept: "env_ok root E \<Longrightarrow> below root 6 held \<Longrightarrow> kept root held (log_calls_locks E cs)"
  unfolding log_calls_locks_def by (rule keeps_concat) (auto intro: log_call_kept)

section \<open>Configuration\<close>

lemma config_kept:
  assumes env: "env_ok root E"
  shows "below root 1 held \<Longrightarrow> kept root held (toString_locks E n throws)"
    and "kept root [] (setValue_locks n same (log_calls_locks E cs))"
    and "kept root [] (Lookup_or_create_locks E n path)"
    and "kept root [] (Visit_locks (map (\<lambda>(n, throws). toString_locks E n throws) vs @ map (log_call_locks E) cs))"
proof -
  show ts: "kept root held (toString_locks E n throws)" if h: "below root 1 held" for held n throws
  proof -
    have "kept root held (with_lock (LVar n) Shared [Touch (DVar n) False])"
      by (rule kept_with_lock) (use h in simp_all)
    then show ?thesis unfolding toString_locks_def
      by (rule keeps_append) (use log_kept [OF env below_mono [OF h]] in simp)
  qed
  have "kept root [(LVar n, Shared)] (log_calls_locks E cs)" by (rule log_calls_kept [OF env]) simp
  then have "kept root [] (with_lock (LVar n) Shared (Touch (DVar n) False # log_calls_locks E cs))"
    "kept root [] (with_lock (LVar n) Exclusive [Touch (DVar n) True])"
    "kept root [] (with_lock (LVar n) Shared [Touch (DVar n) False])"
    by (auto intro!: kept_with_lock)
  then show "kept root [] (setValue_locks n same (log_calls_locks E cs))"
    unfolding setValue_locks_def by (auto intro: keeps_append)
  have r: "below root 7 [(LRegistry, m)]" "below root 1 [(LRegistry, m)]" "below root 6 [(LRegistry, m)]" for m
    by simp_all
  show "kept root [] (Lookup_or_create_locks E n path)" unfolding Lookup_or_create_locks_def
  proof (rule kept_with_lock)
    show "kept root [(LRegistry, Exclusive)] (Touch DDatas False # (case path of
          LookupFound \<Rightarrow> log_root_locks E INFO []
        | LookupClash throws \<Rightarrow> log_root_locks E ERROR (toString_locks E n throws)
        | LookupInvalid \<Rightarrow> log_root_locks E ERROR []
        | LookupNew \<Rightarrow> [Touch DDatas True]))"
      using log_kept(2) [OF env r(1)] log_macro_kept [OF env r(1) ts [OF r(2)]]
      by (auto simp: log_root_locks_def split: lookup_path.split)
  qed simp
  show "kept root [] (Visit_locks (map (\<lambda>(n, throws). toString_locks E n throws) vs @ map (log_call_locks E) cs))"
    unfolding Visit_locks_def
    by (rule kept_with_lock) (use ts [OF r(2)] log_call_kept [OF env r(3)] in \<open>auto intro!: keeps_concat keeps_append\<close>)
qed

lemma variable_kept:
  "kept root [] (getValue_locks n)" "kept root [] (addListener_locks ty n)" "kept root [] (delListener_locks n)"
  "kept root [] (getListener_locks n)" "kept root [] (clearListener_locks n)" "kept root [] Lookup_locks"
  "kept root [] LookupBase_locks"
  unfolding getValue_locks_def addListener_locks_def delListener_locks_def getListener_locks_def
    clearListener_locks_def Lookup_locks_def LookupBase_locks_def
  by (rule kept_with_lock; simp)+

section \<open>Timers, fibers, scheduler\<close>

lemma timer_kept:
  assumes env: "env_ok root E"
  shows "kept root [] (Timer_cancel_locks E armed freed)" and "kept root [] (Timer_refresh_locks a armed)"
    and "kept root [] (Timer_reset_locks a unchanged armed first tickled)" and "kept root [] (addTimer_locks first tickled)"
    and "kept root [] getNextTimer_locks" and "kept root [] (listExpiredCb_locks none)" and "kept root [] hasTimer_locks"
proof -
  have "below root 7 [(LTimers, Exclusive)]" by simp
  from log_kept(1) [OF env this]
  show "kept root [] (Timer_cancel_locks E armed freed)" unfolding Timer_cancel_locks_def
    by (intro kept_with_lock) (auto intro!: keeps_append)
  have ins: "kept root [(LTimers, Exclusive)] (insert_timer_touches first tickled)"
    by (simp add: insert_timer_touches_def)
  show "kept root [] (Timer_refresh_locks a armed)" unfolding Timer_refresh_locks_def
    by (rule kept_with_lock) simp_all
  have "kept root [] (with_lock LTimers Exclusive (Touch DTimers False #
      (if armed then [Touch DTimers True, Touch (DTimerMs a) True] @ insert_timer_touches first tickled else [])))"
    by (rule kept_with_lock) (use ins in simp_all)
  then show "kept root [] (Timer_reset_locks a unchanged armed first tickled)" by (simp add: Timer_reset_locks_def)
  show "kept root [] (addTimer_locks first tickled)" unfolding addTimer_locks_def
    by (rule kept_with_lock) (use ins in simp_all)
  show "kept root [] getNextTimer_locks" "kept root [] hasTimer_locks"
    unfolding getNextTimer_locks_def hasTimer_locks_def by (rule kept_with_lock; simp)+
  have "kept root [] (with_lock LTimers Shared [Touch DTimers False])"
    "kept root [] (with_lock LTimers Exclusive [Touch DTimers True])"
    by (rule kept_with_lock; simp)+
  then show "kept root [] (listExpiredCb_locks none)" by (auto simp: listExpiredCb_locks_def intro: keeps_append)
qed

lemma Fiber_new_kept: "env_ok root E \<Longrightarrow> kept root [] (Fiber_new_locks E default_size)"
  unfolding Fiber_new_locks_def using variable_kept(1) log_kept(1) by (auto intro!: keeps_append)

lemma tickle_kept: "env_ok root E \<Longrightarrow> below root 7 held \<Longrightarrow> kept root held (tickle_locks E io)"
  by (simp add: tickle_locks_def log_kept)

lemma schedule_kept:
  assumes env: "env_ok root E" and h: "below root 4 held"
  shows "kept root held (schedule_locks E io need)" and "kept root held (schedule_range_locks E io need)"
proof -
  have "kept root held (with_lock LSched Exclusive [Touch DQueue True])" by (rule kept_with_lock) (use h in simp_all)
  then show "kept root held (schedule_locks E io need)" "kept root held (schedule_range_locks E io need)"
    using tickle_kept [OF env below_mono [OF h]]
    by (auto simp: schedule_locks_def schedule_range_locks_def intro!: keeps_append)
qed

lemma stopping_kept: "env_ok root E \<Longrightarrow> kept root [] (stopping_locks io quiet)"
proof -
  assume env: "env_ok root E"
  have "kept root [] Scheduler_stopping_locks" unfolding Scheduler_stopping_locks_def
    by (rule kept_with_lock) (simp_all add: guarded_def)
  with timer_kept(5) [OF env] show ?thesis
    by (auto simp: stopping_locks_def IOManager_stopping_locks_def intro!: keeps_append)
qed

lemma scheduler_kept:
  assumes env: "env_ok root E"
  shows "kept root [] (start_locks running)" and "kept root [] run_pick_locks"
    and "kept root [] (stop_locks E io quiet rest stopped n root')"
proof -
  show "kept root [] (start_locks running)" unfolding start_locks_def by (rule kept_with_lock) simp_all
  show "kept root [] run_pick_locks" unfolding run_pick_locks_def by (rule kept_with_lock) simp_all
  have j: "kept root [] (with_lock LSched Exclusive [Touch DThreads True])" by (rule kept_with_lock) simp_all
  have t: "kept root [] (tickle_locks E io)" "kept root [] (log_system_locks E INFO)"
    using tickle_kept [OF env] log_kept [OF env] by simp_all
  have "kept root [] (concat (replicate n (tickle_locks E io)))" using t(1) by (intro keeps_concat) auto
  then show "kept root [] (stop_locks E io quiet rest stopped n root')"
    using t j stopping_kept [OF env, of io quiet] by (auto simp: stop_locks_def intro!: keeps_append)
qed

section \<open>IO manager\<close>

lemma io_kept:
  assumes env: "env_ok root E"
  shows "kept root [] (addEvent_locks E fd grow fails main)" and "kept root [] (delEvent_locks E fd path freed)"
    and "kept root [] (cancelEvent_locks E fd path io need)" and "kept root [] (cancelAll_locks E fd path ts)"
    and "kept root [] (idle_event_locks E fd path ts)"
proof -
  let ?h = "[(LFd fd, Exclusive)]"
  note l = log_kept(1) [OF env, of ?h]
  have t: "kept root [] (with_lock LTable Shared [Touch DContexts False])"
    "kept root [] (with_lock LTable Exclusive [Touch DContexts True])"
    by (rule kept_with_lock; simp)+
  have w: "kept root [] (with_lock (LFd fd) Exclusive body)" if "kept root ?h body" for body
    by (rule kept_with_lock [OF _ that]) simp
  have trig: "kept root ?h (triggerEvent_locks E io need fd)" for io need
    using schedule_kept(1) [OF env, of ?h] by (simp add: triggerEvent_locks_def)
  then have trigs: "kept root ?h (trigger_events_locks E fd ts)"
    unfolding trigger_events_locks_def by (intro keeps_concat) auto
  have drop: "kept root [] (drop_locks E fd path body)" if "kept root ?h body" for body
  proof -
    have "kept root ?h (Touch (DFd fd) False # (case path of CtlFails \<Rightarrow> log_system_locks E ERROR | Dropped \<Rightarrow> body | _ \<Rightarrow> []))"
      using that l by (simp split: drop_path.split)
    with t(1) w show ?thesis unfolding drop_locks_def by (auto intro!: keeps_append)
  qed
  have "kept root ?h (Touch (DFd fd) False # (if fails then log_system_locks E ERROR
      else Touch (DFd fd) True # (if main then log_system_locks E DEBUG else [])))" using l by simp
  with t w show "kept root [] (addEvent_locks E fd grow fails main)"
    unfolding addEvent_locks_def by (auto intro!: keeps_append)
  show "kept root [] (delEvent_locks E fd path freed)" unfolding delEvent_locks_def by (rule drop) (use l in simp)
  show "kept root [] (cancelEvent_locks E fd path io need)" unfolding cancelEvent_locks_def by (rule drop [OF trig])
  show "kept root [] (cancelAll_locks E fd path ts)" unfolding cancelAll_locks_def
    by (rule drop, rule keeps_append [OF trigs]) simp
  show "kept root [] (idle_event_locks E fd path ts)" unfolding idle_event_locks_def
    by (rule w) (use l trigs in \<open>simp split: drop_path.split\<close>)
qed

section \<open>All calls\<close>

lemma lib_call_kept: "env_ok root E \<Longrightarrow> kept root [] (lib_call_locks E c)"
proof -
  assume env: "env_ok root E"
  have "kept root [] (fromString_locks E n throws same (log_calls_locks E cs))" for n throws same cs
    using log_kept(2) [OF env] config_kept(2) [OF env] by (simp add: fromString_locks_def)
  then show ?thesis
    using log_call_kept [OF env below_Nil] config_kept(2-4) [OF env] config_kept(1) [OF env below_Nil] variable_kept
      timer_kept [OF env] Fiber_new_kept [OF env] schedule_kept [OF env below_Nil] stopping_kept [OF env]
      scheduler_kept [OF env] io_kept [OF env]
    by (cases c) simp_all
qed

lemma program_inv:
  assumes "list_all (list_all (\<lambda>c. env_ok root (fst c))) prog" and "lock_step\<^sup>*\<^sup>* (program_start prog) ths"
  shows "locks_inv (lock_rank root) guard_of ths"
proof (rule locks.reachable_inv [OF _ assms(2)])
  let ?ops = "map (\<lambda>cs. concat (map (\<lambda>c. lib_call_locks (fst c) (snd c)) cs)) prog"
  have "kept root [] (concat (map (\<lambda>c. lib_call_locks (fst c) (snd c)) cs))" if "cs \<in> set prog" for cs
    using assms(1) that lib_call_kept by (intro keeps_concat) (fastforce simp: list_all_iff)
  then have "list_all (keeps (lock_rank root) guard_of []) ?ops" by (auto simp: list_all_iff)
  then show "\<exists>ops. list_all (keeps (lock_rank root) guard_of []) ops \<and> program_start prog = locks_start ops"
    by (intro exI [of _ ?ops]) (simp add: program_start_def)
qed


text \<open>A manager with one logger beside the root, which has no appender of its own.\<close>

definition lock_env :: trace_env where
  "lock_env = \<lparr>te_logs = fst (getLogger ''system'' manager_state), te_reopens = (\<lambda>_. True), te_system = 1\<rparr>"

lemma lock_env_ok: "env_ok 0 lock_env"
  using getLogger_inv [OF manager_inv, of "''system''"]
  by (simp add: env_ok_def lock_env_def getLogger_def manager_state_def Logger_new_def upd_logger_def)

lemma lock_env_logs:
  "look (ls_logger (te_logs lock_env)) (Suc 0) = Some \<lparr>lg_root = Some 0, lg_name = ''system'', lg_level = DEBUG,
     lg_appenders = [], lg_formatter = Some (LogFormatter_new default_pattern)\<rparr>"
  "te_system lock_env = 1"
  by (simp_all add: lock_env_def getLogger_def manager_state_def Logger_new_def upd_logger_def look_def)




lemma racing_two:
  "racing v [t, u] \<longleftrightarrow> (\<exists>w r w' r'. lk_todo t = Touch v w # r \<and> lk_todo u = Touch v w' # r' \<and> (w \<or> w'))"
proof -
  have two: "(\<exists>i < length [t, u]. P i) \<longleftrightarrow> P 0 \<or> P 1" for P by (auto simp: less_Suc_eq)
  show ?thesis unfolding racing_def two by simp blast
qed

text \<open>
  C38: The data no lock guards does race: two threads that ask for the next timer both write
  \<open>m_tickled\<close>, under read locks; two threads that add listeners to different variables of one
  type both count \<open>s_fun_id\<close>, each under its variable's lock; \<open>stop\<close> writes the flags
  \<open>start\<close> and \<open>stopping\<close> read under the lock without it; the interval of a timer is read by
  \<open>reset\<close> before it takes the lock; the level of a logger is set with no lock.
\<close>

theorem unguarded_data_races:
  "list_all (\<lambda>(sched, p, q, v). case lock_run sched (program_start [[(E, p)], [(E, q)]]) of
       None \<Rightarrow> False | Some ths \<Rightarrow> racing v ths)
     [([0, 1], NextTimer, NextTimer, DTickled),
      ([0, 1], AddListener ty m, AddListener ty (CHR ''x'' # m), DFunId ty),
      ([1], Stop io quiet rest stopped n root, Start running, DStop),
      ([1, 1, 1, 1], TimerReset a False True first tickled, TimerReset a False True first tickled, DTimerMs a),
      ([], Logging (CallSetLevel l), Logging (CallSetLevel l), DLoggerLevel l)]"
  by (simp add: program_start_def locks_start_def lock_next_def grants_iff with_lock_def getNextTimer_locks_def
      addListener_locks_def stop_locks_def start_locks_def Timer_reset_locks_def racing_two) blast

end
