(* ===== verification/Hps_CutOps.thy ===== *)
theory Hps_CutOps
  imports Hps_TimerClaims Hps_ConfigClaims
begin

text \<open>
  Operations that give up their lock in the middle. \<open>listExpiredCb\<close> (hps_sf/timer.cpp) and
  \<open>setValue\<close> (hps_sf/config.h) look at the data under a read lock, maybe return, and do their
  work under a write lock they take afterwards; \<open>reset\<close> of a timer looks before it locks at all.
  The other models take an operation to be atomic. Here it is cut: any number of threads
  run their calls, each first looking and then working, with anything in between. If the work
  does on every state what the whole operation does, and an early return is what the whole
  operation would have done, every such run is one of whole operations, in the order of
  their last steps.
\<close>

section \<open>Threads with cut operations\<close>

text \<open>
  The shared data; the calls each thread has still to make; the threads that have looked and go
  on to work; the calls made, with their thread and result, in the order they finished.
\<close>

record ('op, 'r, 's) cut_sys =
  cs_shared :: 's
  cs_todo :: "nat \<Rightarrow> 'op list"
  cs_inside :: "nat \<Rightarrow> bool"
  cs_log :: "(nat \<times> 'op \<times> 'r) list"

definition cut_start :: "(nat \<Rightarrow> 'op list) \<Rightarrow> 's \<Rightarrow> ('op, 'r, 's) cut_sys" where
  "cut_start todo s = \<lparr>cs_shared = s, cs_todo = todo, cs_inside = (\<lambda>_. False), cs_log = []\<rparr>"

definition cut_finish :: "nat \<Rightarrow> 'op \<Rightarrow> 'r \<Rightarrow> 's \<Rightarrow> ('op, 'r, 's) cut_sys \<Rightarrow> ('op, 'r, 's) cut_sys" where
  "cut_finish i op r s c =
     c\<lparr>cs_shared := s, cs_todo := (cs_todo c)(i := tl (cs_todo c i)), cs_inside := (cs_inside c)(i := False),
       cs_log := cs_log c @ [(i, op, r)]\<rparr>"

text \<open>
  The next step of thread \<open>i\<close>: \<open>probe\<close> is the look, with the result of an early return, \<open>body\<close>
  the work. No step: there is no call left, or the work fails.
\<close>

definition cut_next ::
  "('op \<Rightarrow> 's \<Rightarrow> 'r option) \<Rightarrow> ('op \<Rightarrow> 's \<Rightarrow> ('r \<times> 's) outcome) \<Rightarrow> nat \<Rightarrow>
   ('op, 'r, 's) cut_sys \<Rightarrow> ('op, 'r, 's) cut_sys option" where
  "cut_next probe body i c =
     (case cs_todo c i of
        [] \<Rightarrow> None
      | op # ops \<Rightarrow>
          if cs_inside c i then
            (case body op (cs_shared c) of
               Inl _ \<Rightarrow> None
             | Inr (r, s) \<Rightarrow> Some (cut_finish i op r s c))
          else
            (case probe op (cs_shared c) of
               Some r \<Rightarrow> Some (cut_finish i op r (cs_shared c) c)
             | None \<Rightarrow> Some (c\<lparr>cs_inside := (cs_inside c)(i := True)\<rparr>)))"

inductive cut_step ::
  "('op \<Rightarrow> 's \<Rightarrow> 'r option) \<Rightarrow> ('op \<Rightarrow> 's \<Rightarrow> ('r \<times> 's) outcome) \<Rightarrow>
   ('op, 'r, 's) cut_sys \<Rightarrow> ('op, 'r, 's) cut_sys \<Rightarrow> bool" for probe body where
  step: "cut_next probe body i c = Some c' \<Longrightarrow> cut_step probe body c c'"

inductive_cases cut_stepE: "cut_step probe body c c'"

text \<open>Whole operations one after the other, with their results.\<close>

fun replay :: "('op \<Rightarrow> 's \<Rightarrow> ('r \<times> 's) outcome) \<Rightarrow> 'op list \<Rightarrow> 's \<Rightarrow> ('r list \<times> 's) outcome" where
  "replay whole [] s = Inr ([], s)"
| "replay whole (op # ops) s =
     obind (whole op s) (\<lambda>(r, s1). obind (replay whole ops s1) (\<lambda>(rs, s2). Inr (r # rs, s2)))"

lemma replay_snoc:
  "replay whole ops s = Inr (rs, s1) \<Longrightarrow> whole op s1 = Inr (r, s2) \<Longrightarrow>
   replay whole (ops @ [op]) s = Inr (rs @ [r], s2)"
  by (induction ops arbitrary: s rs) (auto simp: outcome_simps)

text \<open>The calls of one thread in the log.\<close>

definition calls_of :: "nat \<Rightarrow> (nat \<times> 'op \<times> 'r) list \<Rightarrow> 'op list" where
  "calls_of i log = map (fst \<circ> snd) (filter (\<lambda>e. fst e = i) log)"

lemma calls_of_simps [simp]:
  "calls_of i [] = []"
  "calls_of i (log @ [(j, op, r)]) = calls_of i log @ (if i = j then [op] else [])"
  by (simp_all add: calls_of_def)

section \<open>When cutting is invisible\<close>

locale cut_ops =
  fixes probe :: "'op \<Rightarrow> 's \<Rightarrow> 'r option"
    and body :: "'op \<Rightarrow> 's \<Rightarrow> ('r \<times> 's) outcome"
    and whole :: "'op \<Rightarrow> 's \<Rightarrow> ('r \<times> 's) outcome"
    and ok :: "'op \<Rightarrow> bool"
    and inv :: "'s \<Rightarrow> bool"
  assumes early_whole: "ok op \<Longrightarrow> inv s \<Longrightarrow> probe op s = Some r \<Longrightarrow> whole op s = Inr (r, s)"
    and body_whole: "ok op \<Longrightarrow> inv s \<Longrightarrow> body op s = whole op s"
    and whole_inv: "ok op \<Longrightarrow> inv s \<Longrightarrow> whole op s = Inr (r, s') \<Longrightarrow> inv s'"
begin

definition linear :: "(nat \<Rightarrow> 'op list) \<Rightarrow> 's \<Rightarrow> ('op, 'r, 's) cut_sys \<Rightarrow> bool" where
  "linear todo s c \<longleftrightarrow> inv (cs_shared c) \<and>
     replay whole (map (fst \<circ> snd) (cs_log c)) s = Inr (map (snd \<circ> snd) (cs_log c), cs_shared c) \<and>
     (\<forall>i. calls_of i (cs_log c) @ cs_todo c i = todo i)"

lemma linear_start: "inv s \<Longrightarrow> linear todo s (cut_start todo s)"
  by (simp add: linear_def cut_start_def)

lemma linear_finish:
  assumes "linear todo s c" and "cs_todo c i = op # ops" and "whole op (cs_shared c) = Inr (r, s')" and "ok op"
  shows "linear todo s (cut_finish i op r s' c)"
proof -
  have "inv s'" using whole_inv [OF assms(4) _ assms(3)] assms(1) by (simp add: linear_def)
  moreover have "replay whole (map (fst \<circ> snd) (cs_log c) @ [op]) s = Inr (map (snd \<circ> snd) (cs_log c) @ [r], s')"
    using assms(1,3) by (intro replay_snoc) (simp_all add: linear_def)
  moreover have "calls_of j (cs_log c) @ cs_todo c j = todo j" for j
    using assms(1) by (simp add: linear_def)
  from this [of i] this have "calls_of j (cs_log c @ [(i, op, r)]) @ ((cs_todo c)(i := ops)) j = todo j" for j
    using assms(2) by (cases "j = i") simp_all
  ultimately show ?thesis using assms(2) by (simp add: linear_def cut_finish_def)
qed

lemma linear_next:
  assumes lin: "linear todo s c" and ok: "list_all ok (todo i)" and step: "cut_next probe body i c = Some c'"
  shows "linear todo s c'"
proof -
  from step obtain op ops where todo: "cs_todo c i = op # ops"
    by (cases "cs_todo c i") (simp_all add: cut_next_def)
  have "calls_of i (cs_log c) @ op # ops = todo i" using lin todo by (simp add: linear_def flip: todo)
  with ok have op: "ok op" by (metis list_all_append list.pred_inject(2))
  have inv: "inv (cs_shared c)" using lin by (simp add: linear_def)
  show ?thesis
  proof (cases "cs_inside c i")
    case True
    with step todo obtain r s' where "body op (cs_shared c) = Inr (r, s')" and c': "c' = cut_finish i op r s' c"
      by (auto simp: cut_next_def split: sum.splits)
    then have "whole op (cs_shared c) = Inr (r, s')" using body_whole [OF op inv] by simp
    from linear_finish [OF lin todo this op] show ?thesis by (simp add: c')
  next
    case False
    show ?thesis
    proof (cases "probe op (cs_shared c)")
      case None
      with step todo False have "c' = c\<lparr>cs_inside := (cs_inside c)(i := True)\<rparr>" by (simp add: cut_next_def)
      with lin show ?thesis by (simp add: linear_def)
    next
      case (Some r)
      with step todo False have c': "c' = cut_finish i op r (cs_shared c) c" by (simp add: cut_next_def)
      from linear_finish [OF lin todo early_whole [OF op inv Some] op] show ?thesis by (simp add: c')
    qed
  qed
qed

lemma cut_runs_linear:
  assumes "(cut_step probe body)\<^sup>*\<^sup>* (cut_start todo s) c" and "inv s" and "\<And>i. list_all ok (todo i)"
  shows "linear todo s c"
  using assms(1)
proof (induction rule: rtranclp_induct)
  case base
  show ?case by (rule linear_start [OF assms(2)])
next
  case (step c d)
  from step(2) show ?case by (rule cut_stepE) (rule linear_next [OF step(3) assms(3)])
qed

end

end
