(* ===== verification/Hps_CutClaims.thy ===== *)
theory Hps_CutClaims
  imports Hps_CutOps
begin

text \<open>
  The operations of the timers and of a configuration variable, cut where the code gives up or has
  not yet taken its lock, and what is left of their being atomic.
\<close>

section \<open>Timers\<close>

datatype 'cb tm_result = RCallbacks "'cb option list" | RBool bool | RFront bool bool | RWait u64

text \<open>A call with its result: the atomic model.\<close>

fun timer_call :: "'cb tm_op \<Rightarrow> 'cb hps_TimerManager \<Rightarrow> ('cb tm_result \<times> 'cb hps_TimerManager) outcome" where
  "timer_call (OpAdd a now ms cb rec) m =
     obind (addTimer a now ms (Some cb) rec m) (\<lambda>(p, front, m'). Inr (RFront True front, m'))"
| "timer_call (OpCancel a) m = obind (Timer_cancel a m) (\<lambda>(r, m'). Inr (RBool r, m'))"
| "timer_call (OpRefresh a now) m = obind (Timer_refresh a now m) (\<lambda>(r, m'). Inr (RBool r, m'))"
| "timer_call (OpReset a now ms from_now) m =
     obind (Timer_reset a now ms from_now m) (\<lambda>(r, front, m'). Inr (RFront r front, m'))"
| "timer_call (OpNext now) m = Inr (RWait (fst (getNextTimer now m)), snd (getNextTimer now m))"
| "timer_call (OpExpire now) m = obind (listExpiredCb now [] m) (\<lambda>(cbs, m'). Inr (RCallbacks cbs, m'))"
| "timer_call (OpRollover now) m = Inr (RBool (fst (detectClockRollver now m)), snd (detectClockRollver now m))"

text \<open>\<open>listExpiredCb\<close> after it has taken the write lock; \<open>reset\<close> after its first test.\<close>

definition listExpiredCb_locked ::
  "u64 \<Rightarrow> 'cb option list \<Rightarrow> 'cb hps_TimerManager \<Rightarrow> ('cb option list \<times> 'cb hps_TimerManager) outcome" where
  "listExpiredCb_locked now cbs m =
     (let due = (\<lambda>a. next_of (tm_objs m) a = now);
          expired = takeWhile due (tm_timers m)
      in ofold (expire_one now) expired (cbs, m\<lparr>tm_timers := dropWhile due (tm_timers m)\<rparr>))"

definition Timer_reset_locked ::
  "nat \<Rightarrow> u64 \<Rightarrow> u64 \<Rightarrow> bool \<Rightarrow> 'cb hps_TimerManager \<Rightarrow> (bool \<times> bool \<times> 'cb hps_TimerManager) outcome" where
  "Timer_reset_locked a now ms from_now m =
     obind (deref (tm_objs m a) ''timer'') (\<lambda>t.
       if t_cb t = None then Inr (False, False, m)
       else
         obind (std_find (timer_lt (tm_objs m)) a (tm_timers m)) (\<lambda>it.
         if it = None then Inr (False, False, m)
         else
           obind (std_erase it (tm_timers m)) (\<lambda>ts.
             let start = (if from_now then now else t_next t - t_ms t);
                 m' = m\<lparr>tm_objs := (tm_objs m)(a \<mapsto> t\<lparr>t_ms := ms, t_next := start + ms\<rparr>),
                        tm_timers := ts\<rparr> in
             obind (addTimer_locked a m') (\<lambda>(front, m''). Inr (True, front, m'')))))"

text \<open>What a call sees before it has its write lock: the result of an early return.\<close>

fun timer_probe :: "'cb tm_op \<Rightarrow> 'cb hps_TimerManager \<Rightarrow> 'cb tm_result option" where
  "timer_probe (OpExpire now) m = (if tm_timers m = [] then Some (RCallbacks []) else None)"
| "timer_probe (OpReset a now ms from_now) m =
     (case tm_objs m a of
        None \<Rightarrow> None
      | Some t \<Rightarrow> if ms = t_ms t \<and> \<not> from_now then Some (RFront True False) else None)"
| "timer_probe op m = None"

fun timer_work :: "'cb tm_op \<Rightarrow> 'cb hps_TimerManager \<Rightarrow> ('cb tm_result \<times> 'cb hps_TimerManager) outcome" where
  "timer_work (OpExpire now) m = obind (listExpiredCb_locked now [] m) (\<lambda>(cbs, m'). Inr (RCallbacks cbs, m'))"
| "timer_work (OpReset a now ms from_now) m =
     obind (Timer_reset_locked a now ms from_now m) (\<lambda>(r, front, m'). Inr (RFront r front, m'))"
| "timer_work op m = timer_call op m"

text \<open>Calls that are not legal have no step.\<close>

definition legal_only ::
  "('cb tm_op \<Rightarrow> 'cb hps_TimerManager \<Rightarrow> ('cb tm_result \<times> 'cb hps_TimerManager) outcome) \<Rightarrow>
   'cb tm_op \<Rightarrow> 'cb hps_TimerManager \<Rightarrow> ('cb tm_result \<times> 'cb hps_TimerManager) outcome" where
  "legal_only f op m = (if tm_legal op m then f op m else Inl (Undefined ''call''))"

fun not_reset :: "'cb tm_op \<Rightarrow> bool" where
  "not_reset (OpReset a now ms from_now) = False"
| "not_reset op = True"

lemma listExpiredCb_cut:
  "listExpiredCb now cbs m = (if tm_timers m = [] then Inr (cbs, m) else listExpiredCb_locked now cbs m)"
  "tm_timers m = [] \<Longrightarrow> listExpiredCb_locked now cbs m = Inr (cbs, m)"
  by (simp_all add: listExpiredCb_def listExpiredCb_locked_def)

lemma Timer_reset_cut:
  "Timer_reset a now ms from_now m =
    obind (deref (tm_objs m a) ''timer'') (\<lambda>t.
      if ms = t_ms t \<and> \<not> from_now then Inr (True, False, m) else Timer_reset_locked a now ms from_now m)"
  by (cases "tm_objs m a") (simp_all add: Timer_reset_def Timer_reset_locked_def)

lemma timer_call_exec:
  assumes "timer_call op m = Inr (r, m')"
  shows "\<exists>n. tm_exec op m = Inr (n, m')"
  using assms by (cases op) (auto simp: outcome_simps)

lemma timer_whole_inv:
  assumes "tm_inv m" and "legal_only timer_call op m = Inr (r, m')"
  shows "tm_inv m'"
proof -
  have legal: "tm_legal op m" and call: "timer_call op m = Inr (r, m')"
    using assms(2) by (auto simp: legal_only_def split: if_splits)
  from timer_call_exec [OF call] tm_exec_inv [OF assms(1) legal] show ?thesis by blast
qed

interpretation timer_cut: cut_ops
  "\<lambda>op m. if tm_legal op m then timer_probe op m else None" "legal_only timer_work" "legal_only timer_call"
  not_reset tm_inv
proof
  show "legal_only timer_call op m = Inr (r, m)"
    if "not_reset op" "tm_inv m" "(if tm_legal op m then timer_probe op m else None) = Some r" for op m r
    using that by (cases op) (auto simp: legal_only_def listExpiredCb_cut(1) split: if_splits)
  show "legal_only timer_work op m = legal_only timer_call op m" if "not_reset op" "tm_inv m" for op m
    using that by (cases op) (simp_all add: legal_only_def listExpiredCb_cut)
  show "tm_inv m'" if "not_reset op" "tm_inv m" "legal_only timer_call op m = Inr (r, m')" for op m r m'
    using timer_whole_inv that(2,3) .
qed

section \<open>A configuration variable\<close>

datatype 'v var_op = VGet | VSet 'v | VFromString string | VToString | VDelListener nat | VClearListener

datatype 'v var_result = RValue 'v | RText string | RDone | RLoaded bool

text \<open>The atomic model of a call on one variable.\<close>

fun var_call ::
  "(string \<Rightarrow> string \<Rightarrow> 'v outcome) \<Rightarrow> (string \<Rightarrow> 'v \<Rightarrow> string outcome) \<Rightarrow> 'v var_op \<Rightarrow> ('v, 'c) hps_ConfigVar \<Rightarrow>
   ('v var_result \<times> ('v, 'c) hps_ConfigVar) outcome" where
  "var_call from_str to_str VGet x = Inr (RValue (cv_val x), x)"
| "var_call from_str to_str (VSet v) x = Inr (RDone, fst (setValue v x))"
| "var_call from_str to_str (VFromString t) x =
     Inr (RLoaded (snd (fromString from_str t x)), fst (fst (fromString from_str t x)))"
| "var_call from_str to_str VToString x = Inr (RText (toString to_str x), x)"
| "var_call from_str to_str (VDelListener k) x = Inr (RDone, delListener k x)"
| "var_call from_str to_str VClearListener x = Inr (RDone, clearListener x)"

text \<open>
  \<open>setValue\<close> compares (and calls the listeners) under the read lock, and assigns under a write
  lock it takes after that; \<open>fromString\<close> converts with no lock, and then does the same.
\<close>

definition setValue_probe :: "'v \<Rightarrow> ('v, 'c) hps_ConfigVar \<Rightarrow> bool" where
  "setValue_probe v x \<longleftrightarrow> v = cv_val x"

definition setValue_write :: "'v \<Rightarrow> ('v, 'c) hps_ConfigVar \<Rightarrow> ('v, 'c) hps_ConfigVar" where
  "setValue_write v x = x\<lparr>cv_val := v\<rparr>"

fun var_probe ::
  "(string \<Rightarrow> string \<Rightarrow> 'v outcome) \<Rightarrow> 'v var_op \<Rightarrow> ('v, 'c) hps_ConfigVar \<Rightarrow> 'v var_result option" where
  "var_probe from_str (VSet v) x = (if setValue_probe v x then Some RDone else None)"
| "var_probe from_str (VFromString t) x =
     (case from_str (cv_type x) t of
        Inl _ \<Rightarrow> Some (RLoaded False)
      | Inr v \<Rightarrow> if setValue_probe v x then Some (RLoaded False) else None)"
| "var_probe from_str op x = None"

fun var_work ::
  "(string \<Rightarrow> string \<Rightarrow> 'v outcome) \<Rightarrow> (string \<Rightarrow> 'v \<Rightarrow> string outcome) \<Rightarrow> 'v var_op \<Rightarrow> ('v, 'c) hps_ConfigVar \<Rightarrow>
   ('v var_result \<times> ('v, 'c) hps_ConfigVar) outcome" where
  "var_work from_str to_str (VSet v) x = Inr (RDone, setValue_write v x)"
| "var_work from_str to_str (VFromString t) x =
     (case from_str (cv_type x) t of
        Inl _ \<Rightarrow> Inr (RLoaded False, x)
      | Inr v \<Rightarrow> Inr (RLoaded False, setValue_write v x))"
| "var_work from_str to_str op x = var_call from_str to_str op x"

interpretation var_cut: cut_ops "var_probe from_str" "var_work from_str to_str" "var_call from_str to_str"
  "\<lambda>_. True" "\<lambda>_. True" for from_str to_str
proof
  show "var_call from_str to_str op x = Inr (r, x)" if "var_probe from_str op x = Some r" for op r
    and x :: "('a, 'b) hps_ConfigVar"
    using that
    by (cases op) (auto simp: setValue_probe_def setValue_def fromString_def split: if_splits sum.splits)
  show "var_work from_str to_str op x = var_call from_str to_str op x" for op and x :: "('a, 'b) hps_ConfigVar"
    by (cases op) (auto simp: setValue_write_def setValue_def fromString_def split: sum.splits)
qed simp

section \<open>Properties\<close>

text \<open>
  C8: The timer operations are atomic. Any number of threads run any calls on a timer manager but
  \<open>reset\<close>, with \<open>listExpiredCb\<close> giving up its lock between the test for emptiness and its
  work. Whatever interleaving they reach, the calls finished so far, one after the other as
  whole operations in the order they finished, give the same results and the same timers; each
  thread's calls are in its own order, and the invariant of the timers holds.
\<close>

theorem timer_calls_linearize:
  assumes "(cut_step (\<lambda>op m. if tm_legal op m then timer_probe op m else None) (legal_only timer_work))\<^sup>*\<^sup>*
      (cut_start todo m) c"
    and "tm_inv m" and "\<And>i. list_all not_reset (todo i)"
  shows "replay (legal_only timer_call) (map (fst \<circ> snd) (cs_log c)) m =
      Inr (map (snd \<circ> snd) (cs_log c), cs_shared c) \<and>
    calls_of i (cs_log c) @ cs_todo c i = todo i \<and> tm_inv (cs_shared c)"
  using timer_cut.cut_runs_linear [OF assms] by (simp add: timer_cut.linear_def)

text \<open>
  C14: The value of a configuration variable is an atomic register, although \<open>setValue\<close> compares
  under one lock and assigns under another: every interleaving of getting, setting, loading and
  printing by any number of threads is one of whole calls, in the order they finish.
\<close>

theorem variable_calls_linearize:
  assumes "(cut_step (var_probe from_str) (var_work from_str to_str))\<^sup>*\<^sup>* (cut_start todo x) c"
  shows "replay (var_call from_str to_str) (map (fst \<circ> snd) (cs_log c)) x =
      Inr (map (snd \<circ> snd) (cs_log c), cs_shared c) \<and>
    calls_of i (cs_log c) @ cs_todo c i = todo i"
proof -
  have "var_cut.linear from_str to_str todo x c" by (rule var_cut.cut_runs_linear [OF assms]) (simp_all add: list_all_iff)
  then show ?thesis by (simp add: var_cut.linear_def)
qed

text \<open>A schedule of thread numbers.\<close>

fun cut_run ::
  "('op \<Rightarrow> 's \<Rightarrow> 'r option) \<Rightarrow> ('op \<Rightarrow> 's \<Rightarrow> ('r \<times> 's) outcome) \<Rightarrow> nat list \<Rightarrow>
   ('op, 'r, 's) cut_sys \<Rightarrow> ('op, 'r, 's) cut_sys option" where
  "cut_run probe body [] c = Some c"
| "cut_run probe body (i # is) c =
     (case cut_next probe body i c of None \<Rightarrow> None | Some c' \<Rightarrow> cut_run probe body is c')"

lemma cut_run_steps: "cut_run probe body is c = Some c' \<Longrightarrow> (cut_step probe body)\<^sup>*\<^sup>* c c'"
  by (induction "is" arbitrary: c)
    (auto split: option.splits intro: converse_rtranclp_into_rtranclp cut_step.step)

text \<open>Two workers poll at 10: both find the set filled, the later one works on what the other left.\<close>

theorem timer_calls_linearize_witness:
  "\<exists>c. cut_run (\<lambda>op m. if tm_legal op m then timer_probe op m else None) (legal_only timer_work) [0, 1, 1, 0]
      (cut_start ((\<lambda>_. [])(0 := [OpExpire 10], 1 := [OpExpire 10])) two_timers) = Some c \<and>
     cs_log c = [(1, OpExpire 10, RCallbacks [Some 100]), (0, OpExpire 10, RCallbacks [])] \<and>
     replay (legal_only timer_call) [OpExpire 10, OpExpire 10] two_timers =
       Inr ([RCallbacks [Some 100], RCallbacks []], cs_shared c) \<and> tm_inv (cs_shared c)"
proof -
  let ?todo = "(\<lambda>_. [])(0 := [OpExpire 10], 1 := [OpExpire 10])"
  obtain c where run: "cut_run (\<lambda>op m. if tm_legal op m then timer_probe op m else None) (legal_only timer_work)
      [0, 1, 1, 0] (cut_start ?todo two_timers) = Some c"
    and log: "cs_log c = [(1, OpExpire 10, RCallbacks [Some 100]), (0, OpExpire 10, RCallbacks [])]"
    by (simp add: cut_next_def cut_start_def cut_finish_def two_timers_def legal_only_def listExpiredCb_locked_def
        expire_one_def next_of_def Let_def)
  have "list_all not_reset (?todo i)" for i by simp
  from timer_calls_linearize [OF cut_run_steps [OF run] two_timers_inv this] run log show ?thesis by simp
qed

theorem variable_calls_linearize_witness:
  "\<exists>c. cut_run (var_probe sample_from) (var_work sample_from (\<lambda>_ _. Inr [])) [0, 1, 1, 0, 0, 0]
      (cut_start ((\<lambda>_. [])(0 := [VSet 5, VGet], 1 := [VFromString ''11'']))
        (ConfigVar_new ''n'' ''nat'' 0 [] :: (nat, unit) hps_ConfigVar)) = Some c \<and>
     replay (var_call sample_from (\<lambda>_ _. Inr [])) [VFromString ''11'', VSet 5, VGet]
       (ConfigVar_new ''n'' ''nat'' 0 [] :: (nat, unit) hps_ConfigVar) =
       Inr ([RLoaded False, RDone, RValue 5], cs_shared c)"
proof -
  let ?x = "ConfigVar_new ''n'' ''nat'' 0 [] :: (nat, unit) hps_ConfigVar"
  obtain c where run: "cut_run (var_probe sample_from) (var_work sample_from (\<lambda>_ _. Inr [])) [0, 1, 1, 0, 0, 0]
      (cut_start ((\<lambda>_. [])(0 := [VSet 5, VGet], 1 := [VFromString ''11''])) ?x) = Some c"
    and log: "map (fst \<circ> snd) (cs_log c) = [VFromString ''11'', VSet 5, VGet]"
      "map (snd \<circ> snd) (cs_log c) = [RLoaded False, RDone, RValue 5]"
    by (simp add: cut_next_def cut_start_def cut_finish_def ConfigVar_new_def setValue_probe_def setValue_write_def
        sample_from_def)
  from variable_calls_linearize [OF cut_run_steps [OF run]]
  have "replay (var_call sample_from (\<lambda>_ _. Inr [])) [VFromString ''11'', VSet 5, VGet] ?x =
      Inr ([RLoaded False, RDone, RValue 5], cs_shared c)" unfolding log by (rule conjunct1)
  with run show ?thesis by (intro exI [of _ c] conjI)
qed

text \<open>A manager with one timer, for a run of \<open>reset\<close> and \<open>cancel\<close>.\<close>

definition one_timer :: "u64 \<Rightarrow> u64 \<Rightarrow> nat option \<Rightarrow> nat list \<Rightarrow> bool \<Rightarrow> nat hps_TimerManager" where
  "one_timer ms next cb ts tickled =
     \<lparr>tm_objs = [1 \<mapsto> \<lparr>t_recurring = False, t_ms = ms, t_next = next, t_cb = cb\<rparr>],
      tm_timers = ts, tm_tickled = tickled, tm_previousTime = 0\<rparr>"

lemma one_timer_calls:
  "Timer_reset_locked 1 now ms False (one_timer old next (Some c) [1] tickled) =
     Inr (True, \<not> tickled, one_timer ms (next - old + ms) (Some c) [1] True)"
  "Timer_reset_locked 1 now ms False (one_timer old next None [] tickled) =
     Inr (False, False, one_timer old next None [] tickled)"
  "Timer_cancel 1 (one_timer old next (Some c) [1] tickled) = Inr (True, one_timer old next None [] tickled)"
  "tm_objs (one_timer old next cb ts tickled) 1 = Some \<lparr>t_recurring = False, t_ms = old, t_next = next, t_cb = cb\<rparr>"
  by (simp_all add: one_timer_def Timer_reset_locked_def Timer_cancel_def addTimer_locked_def std_find_def
      std_erase_def std_insert_def set_contract_def lower_bound_def timer_lt_def strict_weak_order_def Let_def)

text \<open>
  C39: \<open>reset\<close> is not atomic. It compares the new interval with the old one before it takes the lock.
  Two threads reset one timer to the same interval, a third cancels it: the one that looked
  first and worked last reports failure, while the other reset and the cancel succeed. No
  order of the three whole calls gives these results.
\<close>

theorem concurrent_reset_not_atomic:
  "case cut_run (\<lambda>op m. if tm_legal op m then timer_probe op m else None) (legal_only timer_work) [0, 1, 1, 2, 2, 0]
      (cut_start ((\<lambda>_. [])(0 := [OpReset 1 3 9 False], 1 := [OpReset 1 3 9 False], 2 := [OpCancel 1])) (one_timer 5 10 (Some 100) [1] False)) of
     None \<Rightarrow> False
   | Some c \<Rightarrow>
       cs_log c = [(1, OpReset 1 3 9 False, RFront True True), (2, OpCancel 1, RBool True),
         (0, OpReset 1 3 9 False, RFront False False)] \<and>
       list_all (\<lambda>log. case replay (legal_only timer_call) (map (fst \<circ> snd) log) (one_timer 5 10 (Some 100) [1] False) of
           Inl _ \<Rightarrow> True | Inr (rs, m) \<Rightarrow> rs \<noteq> map (snd \<circ> snd) log)
         [[cs_log c ! 0, cs_log c ! 1, cs_log c ! 2], [cs_log c ! 0, cs_log c ! 2, cs_log c ! 1],
          [cs_log c ! 1, cs_log c ! 0, cs_log c ! 2], [cs_log c ! 1, cs_log c ! 2, cs_log c ! 0],
          [cs_log c ! 2, cs_log c ! 0, cs_log c ! 1], [cs_log c ! 2, cs_log c ! 1, cs_log c ! 0]]"
  by (simp add: cut_next_def cut_start_def cut_finish_def legal_only_def Timer_reset_cut one_timer_calls
      one_timer_calls [unfolded One_nat_def] del: One_nat_def)

end
