(* ===== verification/Hps_TaskFlow.thy ===== *)
theory Hps_TaskFlow
  imports Hps_SchedulerRuns "HOL-Library.Multiset"
begin

text \<open>
  What becomes of the tasks (hps_sf/scheduler.h, hps_sf/scheduler.cpp): a run of the whole
  scheduler, with any number of workers and any other code around them, as a sequence of acts,
  and beside it the record of the entries that were scheduled, taken off the queue and
  started. No task is lost, none is run twice, and none runs on a thread it is not for.
\<close>

section \<open>Runs as sequences of acts\<close>

datatype 'cb sched_act =
    AEnter int nat nat | AAdvance int nat slice | ALeave int
  | ASchedule "'cb fiber_or_cb" int | ARange "'cb fiber_or_cb list"
  | AStart "int list" | AStop int | AJoin | AFibers int "'cb fn fiber_op"

fun sched_do :: "'cb sched_act \<Rightarrow> 'cb sched_world \<Rightarrow> 'cb sched_world outcome" where
  "sched_do (AEnter tid a i) w =
     (if sw_run w tid = None then run_enter tid a i w else Inl (Undefined ''already in run''))"
| "sched_do (AAdvance tid c sl) w = step_thread tid c sl w"
| "sched_do (ALeave tid) w =
     (case sw_run w tid of
        Some l \<Rightarrow> if l_pc l = LDone then Inr (w\<lparr>sw_run := (sw_run w)(tid := None)\<rparr>)
                  else Inl (Undefined ''still in run'')
      | None \<Rightarrow> Inl (Undefined ''not in run''))"
| "sched_do (ASchedule fc thr) w = Inr (schedule fc thr w)"
| "sched_do (ARange fcs) w = Inr (snd (schedule_range fcs w))"
| "sched_do (AStart ids) w = obind (Scheduler_start ids (sw_sched w)) (\<lambda>s. Inr (w\<lparr>sw_sched := s\<rparr>))"
| "sched_do (AStop tid) w = obind (stop_begin tid w) (\<lambda>(n, w'). Inr w')"
| "sched_do AJoin w = Inr (w\<lparr>sw_sched := snd (stop_join (sw_sched w))\<rparr>)"
| "sched_do (AFibers tid op) w = obind (fiber_exec tid op (sw_fw w)) (\<lambda>fw. Inr (w\<lparr>sw_fw := fw\<rparr>))"

text \<open>These are the steps of the scheduler.\<close>

lemma sched_do_step: "sched_do e w = Inr w' \<Longrightarrow> sched_step w w'"
  by (cases e) (auto simp: outcome_simps split: if_splits option.splits intro: sched_step.intros)

lemma sched_step_do: "sched_step w w' \<Longrightarrow> \<exists>e. sched_do e w = Inr w'"
proof (erule sched_step.cases)
  fix v tid a i w'' assume "w = v" "w' = w''" "sw_run v tid = None" "run_enter tid a i v = Inr w''"
  then show ?thesis by (intro exI [of _ "AEnter tid a i"]) simp
next
  fix tid c sl v w'' assume "w = v" "w' = w''" "step_thread tid c sl v = Inr w''"
  then show ?thesis by (intro exI [of _ "AAdvance tid c sl"]) simp
next
  fix v tid l assume "w = v" "w' = v\<lparr>sw_run := (sw_run v)(tid := None)\<rparr>" "sw_run v tid = Some l" "l_pc l = LDone"
  then show ?thesis by (intro exI [of _ "ALeave tid"]) simp
next
  fix v fc thr assume "w = v" "w' = schedule fc thr v"
  then show ?thesis by (intro exI [of _ "ASchedule fc thr"]) simp
next
  fix v fcs assume "w = v" "w' = snd (schedule_range fcs v)"
  then show ?thesis by (intro exI [of _ "ARange fcs"]) simp
next
  fix ids v s assume "w = v" "w' = v\<lparr>sw_sched := s\<rparr>" "Scheduler_start ids (sw_sched v) = Inr s"
  then show ?thesis by (intro exI [of _ "AStart ids"]) simp
next
  fix tid v n w'' assume "w = v" "w' = w''" "stop_begin tid v = Inr (n, w'')"
  then show ?thesis by (intro exI [of _ "AStop tid"]) simp
next
  fix v assume "w = v" "w' = v\<lparr>sw_sched := snd (stop_join (sw_sched v))\<rparr>"
  then show ?thesis by (intro exI [of _ AJoin]) simp
next
  fix tid op v fw assume "w = v" "w' = v\<lparr>sw_fw := fw\<rparr>" "fiber_exec tid op (sw_fw v) = Inr fw"
  then show ?thesis by (intro exI [of _ "AFibers tid op"]) simp
qed

section \<open>The record\<close>

text \<open>
  What an act puts into the queue: what is scheduled, without empty elements, and a fiber or a
  callback's fiber that comes back ready.
\<close>

definition back_ready :: "nat \<Rightarrow> 'cb sched_world \<Rightarrow> 'cb hps_FiberAndThread list" where
  "back_ready a w =
     (case fw_objs (sw_fw w) a of
        Some f \<Rightarrow> if f_state f = READY then [FiberAndThread_new (FcFiber (Some a)) (-1)] else []
      | None \<Rightarrow> [])"

fun act_added :: "'cb sched_act \<Rightarrow> 'cb sched_world \<Rightarrow> 'cb hps_FiberAndThread list" where
  "act_added (ASchedule fc thr) w = filter ft_full [FiberAndThread_new fc thr]"
| "act_added (ARange fcs) w = filter ft_full (map (\<lambda>fc. FiberAndThread_new fc (-1)) fcs)"
| "act_added (AAdvance tid c sl) w =
     (case sw_run w tid of
        None \<Rightarrow> []
      | Some l \<Rightarrow>
          (case l_pc l of
             LAfter BFiber \<Rightarrow> (case ft_fiber (l_ft l) of None \<Rightarrow> [] | Some a \<Rightarrow> back_ready a w)
           | LAfter BCb \<Rightarrow> (case l_cb_fiber l of None \<Rightarrow> [] | Some a \<Rightarrow> back_ready a w)
           | _ \<Rightarrow> []))"
| "act_added _ w = []"

text \<open>What it takes off the queue, and what it switches into, with the thread.\<close>

fun act_taken :: "'cb sched_act \<Rightarrow> 'cb sched_world \<Rightarrow> (int \<times> 'cb hps_FiberAndThread) list" where
  "act_taken (AAdvance tid c sl) w =
     (case sw_run w tid of
        None \<Rightarrow> []
      | Some l \<Rightarrow>
          if l_pc l = LTop then
            (case pick (fw_objs (sw_fw w)) tid (m_fibers (sw_sched w)) of
               Inr (Some it, t, q) \<Rightarrow> [(tid, it)]
             | _ \<Rightarrow> [])
          else [])"
| "act_taken _ w = []"

fun act_begun :: "'cb sched_act \<Rightarrow> 'cb sched_world \<Rightarrow> (int \<times> 'cb hps_FiberAndThread) list" where
  "act_begun (AAdvance tid c sl) w =
     (case sw_run w tid of
        None \<Rightarrow> []
      | Some l \<Rightarrow> if l_pc l = LBranch \<and> ft_full (l_ft l) then [(tid, l_ft l)] else [])"
| "act_begun _ w = []"

record 'cb task_log =
  tl_added :: "'cb hps_FiberAndThread list"
  tl_taken :: "(int \<times> 'cb hps_FiberAndThread) list"
  tl_begun :: "(int \<times> 'cb hps_FiberAndThread) list"

definition log_empty :: "'cb task_log" where
  "log_empty = \<lparr>tl_added = [], tl_taken = [], tl_begun = []\<rparr>"

definition note_act :: "'cb sched_act \<Rightarrow> 'cb sched_world \<Rightarrow> 'cb task_log \<Rightarrow> 'cb task_log" where
  "note_act e w g =
     \<lparr>tl_added = tl_added g @ act_added e w, tl_taken = tl_taken g @ act_taken e w,
      tl_begun = tl_begun g @ act_begun e w\<rparr>"

fun task_run :: "'cb sched_act list \<Rightarrow> 'cb sched_world \<times> 'cb task_log \<Rightarrow> ('cb sched_world \<times> 'cb task_log) outcome"
where
  "task_run [] s = Inr s"
| "task_run (e # es) (w, g) = obind (sched_do e w) (\<lambda>w'. task_run es (w', note_act e w g))"

text \<open>The entries in the hand of a thread: taken, and not yet switched into.\<close>

definition hand_of :: "'cb run_local \<Rightarrow> 'cb hps_FiberAndThread list" where
  "hand_of l = (if (l_pc l = LTickle \<or> l_pc l = LBranch) \<and> ft_full (l_ft l) then [l_ft l] else [])"

definition in_hand :: "int \<Rightarrow> 'cb sched_world \<Rightarrow> 'cb hps_FiberAndThread list" where
  "in_hand tid w = (case sw_run w tid of None \<Rightarrow> [] | Some l \<Rightarrow> hand_of l)"

definition by_thread :: "int \<Rightarrow> (int \<times> 'a) list \<Rightarrow> 'a list" where
  "by_thread tid es = map snd (filter (\<lambda>e. fst e = tid) es)"

lemma by_thread_simps [simp]:
  "by_thread tid [] = []" "by_thread tid (xs @ ys) = by_thread tid xs @ by_thread tid ys"
  "by_thread tid ((u, x) # xs) = (if u = tid then x # by_thread tid xs else by_thread tid xs)"
  by (simp_all add: by_thread_def)

text \<open>Whether a thread may run an entry.\<close>

definition may_run :: "int \<times> 'cb hps_FiberAndThread \<Rightarrow> bool" where
  "may_run e \<longleftrightarrow> ft_thread (snd e) = -1 \<or> ft_thread (snd e) = fst e"

text \<open>The callbacks among entries that are for a given thread (-1: for any).\<close>

definition cbs_for :: "int \<Rightarrow> 'cb hps_FiberAndThread list \<Rightarrow> 'cb hps_FiberAndThread list" where
  "cbs_for k q = filter (\<lambda>it. ft_fiber it = None \<and> ft_thread it = k) q"

lemma cbs_for_simps [simp]:
  "cbs_for k [] = []" "cbs_for k (xs @ ys) = cbs_for k xs @ cbs_for k ys"
  "cbs_for k (it # q) = (if ft_fiber it = None \<and> ft_thread it = k then it # cbs_for k q else cbs_for k q)"
  by (simp_all add: cbs_for_def)

section \<open>Every act conserves the tasks\<close>

lemma pick_conserves:
  "pick objs tid q = Inr (r, t, q') \<Longrightarrow>
     mset q = mset q' + (case r of None \<Rightarrow> {#} | Some it \<Rightarrow> {#it#}) \<and> pred_option (\<lambda>it. may_run (tid, it)) r"
proof (induction q arbitrary: r t q')
  case Nil
  then show ?case by simp
next
  case (Cons it q)
  show ?case
  proof (cases "r = Some it \<and> q' = q \<and> (ft_thread it = -1 \<or> ft_thread it = tid)")
    case True
    then show ?thesis by (simp add: may_run_def)
  next
    case False
    then obtain t1 q1 where "pick objs tid q = Inr (r, t1, q1)" and "q' = it # q1"
      using Cons.prems by (auto simp: outcome_simps split: if_splits option.splits)
    with Cons.IH show ?thesis by auto
  qed
qed

text \<open>Callbacks for the same thread are taken in the order they stand in the queue.\<close>

lemma pick_cbs_in_order:
  "pick objs tid q = Inr (r, t, q') \<Longrightarrow>
     cbs_for k q = (case r of None \<Rightarrow> [] | Some it \<Rightarrow> cbs_for k [it]) @ cbs_for k q'"
proof (induction q arbitrary: r t q')
  case Nil
  then show ?case by simp
next
  case (Cons it q)
  show ?case
  proof (cases "r = Some it \<and> q' = q")
    case True
    then show ?thesis by simp
  next
    case False
    then obtain t1 q1 where p: "pick objs tid q = Inr (r, t1, q1)" and q': "q' = it # q1"
      and it: "ft_fiber it \<noteq> None \<or> ft_thread it \<noteq> -1 \<and> ft_thread it \<noteq> tid"
      using Cons.prems by (auto simp: outcome_simps split: if_splits option.splits)
    from Cons.IH [OF p] pick_conserves [OF p] it show ?thesis
      by (cases r) (auto simp: q' may_run_def)
  qed
qed

lemma hand_of_simps [simp]:
  "hand_of (l\<lparr>l_pc := LTop\<rparr>) = []" "hand_of (l\<lparr>l_pc := LDone\<rparr>) = []" "hand_of (l\<lparr>l_pc := LIn b\<rparr>) = []"
  "hand_of (l\<lparr>l_pc := LBack b\<rparr>) = []" "hand_of (l\<lparr>l_pc := LAfter b\<rparr>) = []"
  "hand_of (l\<lparr>l_cb_fiber := x\<rparr>) = hand_of l"
  "l_pc l = LTop \<Longrightarrow> hand_of l = []"
  by (simp_all add: hand_of_def)

text \<open>What one act does to the queue and to the hands.\<close>

definition conserves ::
  "'cb sched_world \<Rightarrow> 'cb hps_FiberAndThread list \<Rightarrow> (int \<times> 'cb hps_FiberAndThread) list \<Rightarrow>
   (int \<times> 'cb hps_FiberAndThread) list \<Rightarrow> 'cb sched_world \<Rightarrow> bool" where
  "conserves w added taken begun w' \<longleftrightarrow>
     mset (m_fibers (sw_sched w')) + mset (map snd taken) = mset (m_fibers (sw_sched w)) + mset added \<and>
     (\<forall>u. in_hand u w @ by_thread u taken = by_thread u begun @ in_hand u w') \<and> list_all may_run taken \<and>
     (\<forall>k. cbs_for k (m_fibers (sw_sched w)) @ cbs_for k added =
          cbs_for k (map snd taken) @ cbs_for k (m_fibers (sw_sched w')))"

lemma conserves_quiet:
  "m_fibers (sw_sched w') = m_fibers (sw_sched w) @ added \<Longrightarrow> sw_run w' = sw_run w \<Longrightarrow> conserves w added [] [] w'"
  by (simp add: conserves_def in_hand_def)

text \<open>A step of one worker that takes nothing; \<open>begun\<close> is what it had in hand and now has not.\<close>

lemma conserves_local:
  assumes "sw_run w tid = Some l" and "sw_run w' = (sw_run w)(tid \<mapsto> l')"
    and "m_fibers (sw_sched w') = m_fibers (sw_sched w) @ added" and "hand_of l = xs @ hand_of l'"
  shows "conserves w added [] (map (\<lambda>x. (tid, x)) xs) w'"
proof -
  have "by_thread u (map (\<lambda>x. (tid, x)) xs) = (if u = tid then xs else [])" for u
    by (cases "u = tid"; induction xs) simp_all
  with assms show ?thesis by (simp add: conserves_def in_hand_def)
qed

lemmas conserves_step = conserves_local [where xs = "[]", simplified]

text \<open>The shape of these steps: new locals with the given hand, and a longer queue.\<close>

definition moved ::
  "int \<Rightarrow> 'cb sched_world \<Rightarrow> 'cb hps_FiberAndThread list \<Rightarrow> 'cb hps_FiberAndThread list \<Rightarrow> 'cb sched_world \<Rightarrow> bool" where
  "moved tid w h added w' \<longleftrightarrow> (\<exists>l'. sw_run w' = (sw_run w)(tid \<mapsto> l') \<and> hand_of l' = h \<and>
     m_fibers (sw_sched w') = m_fibers (sw_sched w) @ added)"

lemma moved_set_run:
  "sw_run v = sw_run w \<Longrightarrow> m_fibers (sw_sched v) = m_fibers (sw_sched w) @ added \<Longrightarrow> hand_of l' = h \<Longrightarrow>
   moved tid w h added (set_run tid l' v)"
  by (auto simp: moved_def)

lemma moved_conserves:
  assumes "sw_run w tid = Some l" and "moved tid w h added w'" and "hand_of l = xs @ h"
  shows "conserves w added [] (map (\<lambda>x. (tid, x)) xs) w'"
  using assms by (auto simp: moved_def intro: conserves_local)

lemma run_pick_conserves:
  assumes l: "sw_run w tid = Some l" "l_pc l = LTop" and ex: "run_pick tid l w = Inr w'"
  shows "conserves w [] (act_taken (AAdvance tid c sl) w) [] w'"
proof -
  from ex obtain r t q where p: "pick (fw_objs (sw_fw w)) tid (m_fibers (sw_sched w)) = Inr (r, t, q)"
    by (auto simp: run_pick_def obind_eq_Inr)
  note facts = pick_conserves [OF p] pick_full [OF p] pick_cbs_in_order [OF p]
  show ?thesis
  proof (cases r)
    case None
    with ex p have w': "w' = set_run tid (l\<lparr>l_pc := LTickle, l_ft := FiberAndThread_reset,
                               l_tickle_me := t, l_is_active := False\<rparr>)
                 (upd_sched (\<lambda>s. s\<lparr>m_fibers := q\<rparr>) w)" by (simp add: run_pick_def)
    show ?thesis using l p facts None
      by (simp add: w' conserves_def in_hand_def hand_of_def ft_full_def)
  next
    case (Some it)
    with ex p have w': "w' = set_run tid (l\<lparr>l_pc := LTickle, l_ft := it, l_tickle_me := t, l_is_active := True\<rparr>)
                 (upd_sched (\<lambda>s. s\<lparr>m_fibers := q,
                                   m_activeThreadCount := m_activeThreadCount s + 1\<rparr>) w)"
      by (simp add: run_pick_def)
    show ?thesis using l p facts Some
      by (simp add: w' conserves_def in_hand_def hand_of_def)
  qed
qed

lemma run_branch_conserves:
  assumes l: "sw_run w tid = Some l" "l_pc l = LBranch" and ex: "run_branch tid c l w = Inr w'"
  shows "conserves w [] [] (act_begun (AAdvance tid c sl) w) w'"
proof -
  have b: "act_begun (AAdvance tid c sl) w = map (\<lambda>x. (tid, x)) (hand_of l)"
    using l by (simp add: hand_of_def)
  have "moved tid w [] [] w'"
    using ex by (cases rule: run_branch_result) (simp_all add: moved_set_run hand_of_def)
  then show ?thesis unfolding b by (intro moved_conserves [OF l(1)]) simp_all
qed

lemma run_after_conserves:
  assumes l: "sw_run w tid = Some l" "l_pc l = LAfter b" and ex: "run_step tid c sl l w = Inr w'"
  shows "conserves w (act_added (AAdvance tid c sl) w) [] [] w'"
proof -
  have h: "hand_of l = []" using l(2) by (simp add: hand_of_def)
  have "moved tid w [] (act_added (AAdvance tid c sl) w) w'"
  proof (cases b)
    case BFiber
    with l ex obtain a f where a: "ft_fiber (l_ft l) = Some a" "fw_objs (sw_fw w) a = Some f"
      and w': "w' = set_run tid (l\<lparr>l_pc := LTop, l_ft := FiberAndThread_reset\<rparr>)
        (if f_state f = READY then schedule (FcFiber (Some a)) (-1) w
         else if f_state f \<noteq> TERM' \<and> f_state f \<noteq> EXCEPT then set_state a HOLD w else w)"
      by (auto simp: run_step_def run_after_fiber_def fiber_state_def outcome_simps Let_def)
    from BFiber l a show ?thesis unfolding w'
      by (intro moved_set_run) (simp_all add: back_ready_def ft_full_def hand_of_def)
  next
    case BCb
    with l ex obtain a f where a: "l_cb_fiber l = Some a" "fw_objs (sw_fw w) a = Some f"
      by (auto simp: run_step_def run_after_cb_def fiber_state_def outcome_simps)
    note ex = ex [unfolded run_step_def l(2) BCb, simplified, unfolded run_after_cb_def fiber_state_def a, simplified]
    show ?thesis
    proof (cases "f_state f = READY")
      case True
      with ex have w': "w' = set_run tid (l\<lparr>l_pc := LTop, l_cb_fiber := None\<rparr>) (schedule (FcFiber (Some a)) (-1) w)"
        by (simp add: a)
      from BCb l a True show ?thesis unfolding w'
        by (intro moved_set_run) (simp_all add: back_ready_def ft_full_def hand_of_def)
    next
      case False
      with ex obtain l' v where "w' = set_run tid l' v" "hand_of l' = []" "sw_run v = sw_run w" "sw_sched v = sw_sched w"
        by (auto simp: a outcome_simps split: if_splits)
      with BCb l a False show ?thesis by (auto simp: back_ready_def intro!: moved_set_run)
    qed
  next
    case BIdle
    with l ex show ?thesis
      by (auto simp: run_step_def run_after_idle_def outcome_simps hand_of_def intro!: moved_set_run split: if_splits)
  qed
  from moved_conserves [OF l(1) this, of "[]"] h show ?thesis by simp
qed

lemma advance_conserves:
  assumes "sched_do (AAdvance tid c sl) w = Inr w'"
  shows "conserves w (act_added (AAdvance tid c sl) w) (act_taken (AAdvance tid c sl) w)
    (act_begun (AAdvance tid c sl) w) w'"
proof -
  obtain l where l: "sw_run w tid = Some l" and ex: "run_step tid c sl l w = Inr w'"
    using assms by (auto simp: step_thread_def outcome_simps)
  show ?thesis
  proof (cases "l_pc l")
    case LTop
    with ex l run_pick_conserves [OF l LTop, of w' c sl] show ?thesis by (simp add: run_step_def)
  next
    case LTickle
    with ex have "w' = run_tickle tid l w" by (simp add: run_step_def)
    then have "conserves w [] [] [] w'"
      by (intro conserves_step [OF l, where l' = "l\<lparr>l_pc := LBranch\<rparr>"])
        (simp_all add: run_tickle_def hand_of_def LTickle)
    with LTickle l show ?thesis by simp
  next
    case LBranch
    with ex l run_branch_conserves [OF l LBranch, of c w' sl] show ?thesis by (simp add: run_step_def)
  next
    case (LIn b)
    with ex obtain fw where "w' = set_run tid (l\<lparr>l_pc := LBack b\<rparr>) (w\<lparr>sw_fw := fw\<rparr>)"
      by (auto simp: run_step_def run_in_def outcome_simps)
    then have "conserves w [] [] [] w'"
      by (intro conserves_step [OF l, where l' = "l\<lparr>l_pc := LBack b\<rparr>"]) (simp_all add: hand_of_def LIn)
    with LIn l show ?thesis by simp
  next
    case (LBack b)
    with ex have "w' = run_back tid b l w" by (simp add: run_step_def)
    then have "conserves w [] [] [] w'"
      by (intro conserves_step [OF l, where l' = "l\<lparr>l_pc := LAfter b\<rparr>"])
        (simp_all add: run_back_def hand_of_def LBack)
    with LBack l show ?thesis by simp
  next
    case (LAfter b)
    with l run_after_conserves [OF l LAfter ex] show ?thesis by (cases b) simp_all
  next
    case LDone
    with ex l have "w' = w" by (simp add: run_step_def)
    with LDone l show ?thesis using conserves_quiet [of w w "[]"] by simp
  qed
qed

lemma act_conserves:
  assumes "sched_do e w = Inr w'"
  shows "conserves w (act_added e w) (act_taken e w) (act_begun e w) w'"
proof (cases e)
  case (AEnter tid a i)
  with assms have "sw_run w tid = None" and "run_enter tid a i w = Inr w'" by (auto split: if_splits)
  with run_enter_result [OF this(2)] AEnter show ?thesis by (auto simp: conserves_def in_hand_def)
next
  case (AAdvance tid c sl)
  with assms advance_conserves show ?thesis by blast
next
  case (ALeave tid)
  with assms obtain l where "sw_run w tid = Some l" "l_pc l = LDone" "w' = w\<lparr>sw_run := (sw_run w)(tid := None)\<rparr>"
    by (auto split: option.splits if_splits)
  with ALeave show ?thesis by (auto simp: conserves_def in_hand_def hand_of_def)
next
  case (AStop tid)
  with assms obtain n where "stop_begin tid w = Inr (n, w')" by (auto simp: outcome_simps)
  from stop_begin_counters [OF this] AStop show ?thesis by (simp add: conserves_quiet)
next
  case (AStart ids)
  with assms show ?thesis
    by (auto simp: Scheduler_start_def Let_def outcome_simps split: if_splits intro!: conserves_quiet)
qed (use assms in \<open>auto simp: stop_join_def outcome_simps intro!: conserves_quiet\<close>)

section \<open>Runs\<close>

definition tasks_inv :: "'cb hps_FiberAndThread list \<Rightarrow> 'cb sched_world \<times> 'cb task_log \<Rightarrow> bool" where
  "tasks_inv q0 s \<longleftrightarrow> (case s of (w, g) \<Rightarrow>
     mset q0 + mset (tl_added g) = mset (m_fibers (sw_sched w)) + mset (map snd (tl_taken g)) \<and>
     (\<forall>u. by_thread u (tl_taken g) = by_thread u (tl_begun g) @ in_hand u w) \<and> list_all may_run (tl_taken g) \<and>
     (\<forall>k. cbs_for k q0 @ cbs_for k (tl_added g) =
          cbs_for k (map snd (tl_taken g)) @ cbs_for k (m_fibers (sw_sched w))))"

lemma tasks_inv_act:
  assumes inv: "tasks_inv q0 (w, g)" and ex: "sched_do e w = Inr w'"
  shows "tasks_inv q0 (w', note_act e w g)"
proof -
  note c = act_conserves [OF ex, unfolded conserves_def]
  have q: "mset q0 + mset (tl_added g) = mset (m_fibers (sw_sched w)) + mset (map snd (tl_taken g))"
    and h: "by_thread u (tl_taken g) = by_thread u (tl_begun g) @ in_hand u w"
    and p: "list_all may_run (tl_taken g)"
    and k: "cbs_for k q0 @ cbs_for k (tl_added g) =
      cbs_for k (map snd (tl_taken g)) @ cbs_for k (m_fibers (sw_sched w))" for u k
    using inv by (auto simp: tasks_inv_def)
  have "mset q0 + (mset (tl_added g) + mset (act_added e w)) =
      mset (m_fibers (sw_sched w')) + (mset (map snd (tl_taken g)) + mset (map snd (act_taken e w)))"
  proof -
    have "mset q0 + (mset (tl_added g) + mset (act_added e w)) =
        mset (map snd (tl_taken g)) + (mset (m_fibers (sw_sched w)) + mset (act_added e w))"
      using q by (metis add.assoc add.commute)
    also have "\<dots> = mset (map snd (tl_taken g)) + (mset (m_fibers (sw_sched w')) + mset (map snd (act_taken e w)))"
      using c by metis
    finally show ?thesis by (simp add: ac_simps)
  qed
  moreover have "by_thread u (tl_taken g) @ by_thread u (act_taken e w) =
      (by_thread u (tl_begun g) @ by_thread u (act_begun e w)) @ in_hand u w'" for u
    using h [of u] c by simp
  moreover have "cbs_for k q0 @ cbs_for k (tl_added g) @ cbs_for k (act_added e w) =
      cbs_for k (map snd (tl_taken g)) @ cbs_for k (map snd (act_taken e w)) @ cbs_for k (m_fibers (sw_sched w'))" for k
    using k [of k] c by (metis append.assoc)
  ultimately show ?thesis using p c by (simp add: tasks_inv_def note_act_def)
qed

lemma task_run_inv: "task_run es (w, g) = Inr s \<Longrightarrow> tasks_inv q0 (w, g) \<Longrightarrow> tasks_inv q0 s"
proof (induction es arbitrary: w g)
  case Nil
  then show ?case by simp
next
  case (Cons e es)
  then obtain w1 where "sched_do e w = Inr w1" and "task_run es (w1, note_act e w g) = Inr s"
    by (auto simp: outcome_simps)
  with Cons.IH tasks_inv_act [OF Cons.prems(2)] show ?case by blast
qed

section \<open>Property\<close>



text \<open>
  C10: Callbacks start in the order they were scheduled. In every such run, for each thread the
  callbacks scheduled for it, and those scheduled for any thread, are taken in exactly the
  order in which they were scheduled, by whichever workers; the rest waits in that order.
\<close>

theorem callbacks_taken_in_order:
  assumes "task_run es (w0, log_empty) = Inr (w, g)" and "m_fibers (sw_sched w0) = []" and "sw_run w0 = Map.empty"
  shows "cbs_for k (tl_added g) = cbs_for k (map snd (tl_taken g)) @ cbs_for k (m_fibers (sw_sched w))"
proof -
  have "tasks_inv [] (w0, log_empty)"
    using assms(2,3) by (simp add: tasks_inv_def log_empty_def in_hand_def)
  from task_run_inv [OF assms(1) this] show ?thesis by (simp add: tasks_inv_def)
qed

theorem callbacks_taken_in_order_witness:
  "case task_run [ASchedule (FcCb (Some (FnUser 5))) (-1), ARange [FcCb (Some (FnUser 6)), FcCb None],
       AEnter 8 2 4, AAdvance 8 9 SHold]
     (\<lparr>sw_sched = Scheduler_fields [], sw_fw = fiber_world_init, sw_t_scheduler = (\<lambda>_. False),
       sw_hook = (\<lambda>_. False), sw_tickles = 0, sw_stack_size = 4096, sw_run = Map.empty\<rparr> :: nat sched_world,
      log_empty) of
     Inl _ \<Rightarrow> False
   | Inr (w, g) \<Rightarrow> length (tl_taken g) = 1 \<and> length (cbs_for (-1) (tl_added g)) = 2 \<and>
       cbs_for (-1) (tl_added g) = cbs_for (-1) (map snd (tl_taken g)) @ cbs_for (-1) (m_fibers (sw_sched w))"
proof -
  let ?v = "\<lparr>sw_sched = Scheduler_fields [], sw_fw = fiber_world_init, sw_t_scheduler = (\<lambda>_. False),
       sw_hook = (\<lambda>_. False), sw_tickles = 0, sw_stack_size = 4096, sw_run = Map.empty\<rparr> :: nat sched_world"
  let ?es = "[ASchedule (FcCb (Some (FnUser 5))) (-1), ARange [FcCb (Some (FnUser 6)), FcCb None],
       AEnter 8 2 4, AAdvance 8 9 SHold] :: nat sched_act list"
  have v: "m_fibers (sw_sched ?v) = []" "sw_run ?v = Map.empty" by (simp_all add: Scheduler_fields_def)
  obtain w g where r: "task_run ?es (?v, log_empty) = Inr (w, g)" "length (tl_taken g) = 1"
      "length (cbs_for (-1) (tl_added g)) = 2"
    by (simp add: run_enter_def GetThis_def Fiber_main_new_def Let_def Scheduler_fields_def fiber_world_init_def
        log_empty_def note_act_def step_thread_def run_step_def run_pick_def ft_full_def)
  from callbacks_taken_in_order [OF r(1) v, of "-1"] r show ?thesis by simp
qed

end
