(* ===== verification/Hps_YieldWindow.thy ===== *)
theory Hps_YieldWindow
  imports Hps_SchedulerClaims
begin

text \<open>
  A yield in two steps (hps_sf/fiber.cpp): \<open>YieldToReady\<close> and \<open>YieldToHold\<close> first change the
  state of the fiber, which other workers read under the queue's lock but which no lock
  protects, and then switch out. Between the two the fiber looks as if it could be taken,
  while its context is not saved yet.
\<close>

section \<open>The two steps\<close>

text \<open>\<open>cur -> m_state = st\<close>; the result is \<open>cur\<close>.\<close>

definition yield_mark :: "State \<Rightarrow> int \<Rightarrow> nat \<Rightarrow> 'cb fiber_world \<Rightarrow> (nat \<times> 'cb fiber_world) outcome" where
  "yield_mark st tid a w =
     obind (GetThis tid a w) (\<lambda>(cur, w1). Inr (cur, upd_fiber cur (\<lambda>f. f\<lparr>f_state := st\<rparr>) w1))"

text \<open>\<open>cur -> swapOut()\<close>\<close>

definition yield_leave :: "int \<Rightarrow> nat \<Rightarrow> 'cb fiber_world \<Rightarrow> 'cb fiber_world outcome" where
  "yield_leave tid cur w = swapOut tid cur InCode w"

lemma YieldTo_cut: "YieldTo st tid a w = obind (yield_mark st tid a w) (\<lambda>(cur, w1). yield_leave tid cur w1)"
  by (cases "GetThis tid a w") (auto simp: YieldTo_def yield_mark_def yield_leave_def)

section \<open>The parties\<close>

text \<open>
  Thread \<open>tid\<close> is inside fiber \<open>a\<close>, its scheduler's context saved in the fiber at \<open>mt\<close>; thread
  \<open>u\<close> is at the top of its loop, with main fiber \<open>mu\<close>.
\<close>

definition inside_fiber :: "int \<Rightarrow> nat \<Rightarrow> 'cb fn hps_Fiber \<Rightarrow> nat \<Rightarrow> 'cb sched_world \<Rightarrow> bool" where
  "inside_fiber tid a f mt w \<longleftrightarrow>
     t_fiber (fw_tls (sw_fw w) tid) = Some a \<and> fw_objs (sw_fw w) a = Some f \<and> f_state f = EXEC \<and>
     f_ctx f = Running \<and> GetMainFiber tid (sw_fw w) = Some mt \<and> mt \<noteq> a \<and>
     map_option f_ctx (fw_objs (sw_fw w) mt) = Some InCode"

definition at_top :: "int \<Rightarrow> 'cb run_local \<Rightarrow> nat \<Rightarrow> 'cb sched_world \<Rightarrow> bool" where
  "at_top u l mu w \<longleftrightarrow>
     sw_run w u = Some l \<and> l_pc l = LTop \<and> GetMainFiber u (sw_fw w) = Some mu \<and> fw_objs (sw_fw w) mu \<noteq> None"

section \<open>Lemmas\<close>

lemma mark_result:
  assumes "inside_fiber tid a f mt w"
  shows "yield_mark st tid x (sw_fw w) = Inr (a, upd_fiber a (\<lambda>f. f\<lparr>f_state := st\<rparr>) (sw_fw w))"
  using assms by (simp add: inside_fiber_def yield_mark_def GetThis_def)

lemma leave_result:
  assumes "inside_fiber tid a f mt w"
  obtains fw2 mf where "yield_leave tid a (upd_fiber a (\<lambda>f. f\<lparr>f_state := st\<rparr>) (sw_fw w)) = Inr fw2"
    and "fw_objs fw2 = (fw_objs (sw_fw w))(a \<mapsto> f\<lparr>f_state := st, f_ctx := InCode\<rparr>, mt \<mapsto> mf)"
    and "\<And>u. GetMainFiber u fw2 = GetMainFiber u (sw_fw w)"
proof -
  let ?w = "SetThis tid (Some mt) (upd_fiber a (\<lambda>f. f\<lparr>f_state := st\<rparr>) (sw_fw w))"
  obtain mf where mf: "fw_objs (sw_fw w) mt = Some mf" "f_ctx mf = InCode"
    using assms by (auto simp: inside_fiber_def)
  let ?fw2 = "(upd_fiber mt (\<lambda>f. f\<lparr>f_ctx := Running\<rparr>) (upd_fiber a (\<lambda>f. f\<lparr>f_ctx := InCode\<rparr>) ?w))
    \<lparr>fw_running := (fw_running ?w)(tid := Some mt)\<rparr>"
  show ?thesis
  proof (rule that [of ?fw2 "mf\<lparr>f_ctx := Running\<rparr>"])
    show "yield_leave tid a (upd_fiber a (\<lambda>f. f\<lparr>f_state := st\<rparr>) (sw_fw w)) = Inr ?fw2"
      using assms mf by (simp add: inside_fiber_def yield_leave_def swapOut_def swapcontext_def Let_def)
    show "fw_objs ?fw2 = (fw_objs (sw_fw w))(a \<mapsto> f\<lparr>f_state := st, f_ctx := InCode\<rparr>, mt \<mapsto> mf\<lparr>f_ctx := Running\<rparr>)"
      using assms mf by (auto simp: inside_fiber_def fun_eq_iff)
  qed (simp add: GetMainFiber_def upd_fiber_def SetThis_def upd_tls_def)
qed

text \<open>Switching to a context that is not saved.\<close>

lemma unsaved_fiber_branch:
  assumes ab: "at_branch tid it q t l w l2 w2" and a: "ft_fiber it = Some a"
    and "GetMainFiber tid (sw_fw w) = Some mn" "mn \<noteq> a" "fw_objs (sw_fw w) mn \<noteq> None"
    and "fw_objs (sw_fw w) a = Some f" "f_state f \<noteq> EXEC" "f_ctx f = Running"
  shows "from_branch tid c sl l2 w2 = Inl (Undefined ''swapcontext: context is not saved'')"
proof -
  have "swapIn tid a (sw_fw w) = Inl (Undefined ''swapcontext: context is not saved'')"
    using assms(3-8) by (auto simp: swapIn_def swapcontext_def Let_def)
  with assms show ?thesis
    by (simp add: at_branch_def from_branch_def run_branch_def run_fiber_branch_def fiber_state_def
        fiber_guard_def Let_def)
qed

section \<open>Property\<close>

text \<open>
  C16: The window of a yield. Fiber \<open>a\<close> is inside a worker and already in the queue (something
  scheduled it before it yielded). While it executes, another worker leaves the entry in the
  queue. Once the yield has set the fiber's state, the same worker takes the entry and
  continues a context that is not saved; had the yielding thread switched out first, the
  worker would have run the fiber.
\<close>

theorem yield_opens_window:
  assumes "inside_fiber tid a f mt w" and "at_top u l mu w" and "mu \<noteq> a" and "mu \<noteq> mt"
    and "m_fibers (sw_sched w) = [it]" and "ft_fiber it = Some a" and "ft_thread it = -1 \<or> ft_thread it = u"
    and "st = HOLD \<or> st = READY"
  shows "pick (fw_objs (sw_fw w)) u (m_fibers (sw_sched w)) = Inr (None, False, [it]) \<and>
    (\<exists>fw1. yield_mark st tid x (sw_fw w) = Inr (a, fw1) \<and>
       run_iteration u c sl (w\<lparr>sw_fw := fw1\<rparr>) = Inl (Undefined ''swapcontext: context is not saved'') \<and>
       (\<exists>fw2. yield_leave tid a fw1 = Inr fw2 \<and> is_ok (run_iteration u c sl (w\<lparr>sw_fw := fw2\<rparr>))))"
proof -
  note i = assms(1) [unfolded inside_fiber_def] and t = assms(2) [unfolded at_top_def]
  define fw1 where "fw1 = upd_fiber a (\<lambda>f. f\<lparr>f_state := st\<rparr>) (sw_fw w)"
  obtain fw2 mf where l2: "yield_leave tid a fw1 = Inr fw2"
    and o2: "fw_objs fw2 = (fw_objs (sw_fw w))(a \<mapsto> f\<lparr>f_state := st, f_ctx := InCode\<rparr>, mt \<mapsto> mf)"
    and m2: "GetMainFiber u fw2 = GetMainFiber u (sw_fw w)"
    unfolding fw1_def by (rule leave_result [OF assms(1)]) blast
  have st: "st \<noteq> EXEC" using assms(8) by auto
  have taken: "queue_ok objs [it]" "ahead objs u [it] = [it]" if "objs a = Some g" "f_state g = st" for objs g
    using that assms(6,7) st by (auto simp: queue_ok_def ft_full_def ahead_def eligible_def foreign_def busy_def)
  have "pick (fw_objs (sw_fw w)) u [it] = Inr (None, False, [it])" using i assms(6,7) by auto
  moreover have "run_iteration u c sl (w\<lparr>sw_fw := fw1\<rparr>) = Inl (Undefined ''swapcontext: context is not saved'')"
  proof -
    have a1: "fw_objs fw1 a = Some (f\<lparr>f_state := st\<rparr>)" using i by (simp add: fw1_def)
    obtain q t l2 w2 where "run_iteration u c sl (w\<lparr>sw_fw := fw1\<rparr>) = from_branch u c sl l2 w2"
      and ab: "at_branch u it q t l (w\<lparr>sw_fw := fw1\<rparr>) l2 w2"
      using first_two_steps [of "w\<lparr>sw_fw := fw1\<rparr>" u l it "[]" c sl] t taken [of "fw_objs fw1", OF a1] assms(5) by auto
    with unsaved_fiber_branch [OF ab assms(6)] a1 i t assms(3) st show ?thesis by (simp add: fw1_def)
  qed
  moreover have "is_ok (run_iteration u c sl (w\<lparr>sw_fw := fw2\<rparr>))"
  proof -
    have a2: "fw_objs fw2 a = Some (f\<lparr>f_state := st, f_ctx := InCode\<rparr>)" using i by (simp add: o2)
    obtain q t l2 w2 where r: "run_iteration u c sl (w\<lparr>sw_fw := fw2\<rparr>) = from_branch u c sl l2 w2"
      and ab: "at_branch u it q t l (w\<lparr>sw_fw := fw2\<rparr>) l2 w2"
      using first_two_steps [of "w\<lparr>sw_fw := fw2\<rparr>" u l it "[]" c sl] t taken [of "fw_objs fw2", OF a2] assms(5) by auto
    obtain g where "fw_objs (sw_fw w) mu = Some g" using t by blast
    then have "can_switch u mu g a (f\<lparr>f_state := st, f_ctx := InCode\<rparr>) (sw_fw (w\<lparr>sw_fw := fw2\<rparr>))"
      using a2 t m2 assms(3,4) st by (simp add: can_switch_def o2)
    from fiber_branch [OF ab assms(6) this, of c sl] r show ?thesis by auto
  qed
  ultimately show ?thesis using mark_result [OF assms(1)] l2 assms(5) by (auto simp: fw1_def)
qed

text \<open>Worker 7 inside the fiber at 2, which a timer scheduled just before it yields.\<close>

definition window_world :: "nat sched_world" where
  "window_world = (let w = demo_workers (held_fiber\<lparr>f_state := EXEC, f_ctx := Running\<rparr>) [fiber_entry 2 (-1)] in
     w\<lparr>sw_fw := upd_fiber 1 (\<lambda>f. f\<lparr>f_ctx := InCode\<rparr>) (SetThis 7 (Some 2) (sw_fw w))\<rparr>)"

theorem yield_opens_window_witness:
  "\<exists>fw1. yield_mark HOLD 7 9 (sw_fw window_world) = Inr (2, fw1) \<and>
     run_iteration 8 6 SHold (window_world\<lparr>sw_fw := fw1\<rparr>) = Inl (Undefined ''swapcontext: context is not saved'')"
proof -
  have "inside_fiber 7 2 (held_fiber\<lparr>f_state := EXEC, f_ctx := Running\<rparr>) 1 window_world"
    by (simp add: inside_fiber_def window_world_def Let_def)
  moreover have "at_top 8 (top_local 5) 4 window_world"
    by (simp add: at_top_def window_world_def Let_def)
  moreover have "m_fibers (sw_sched window_world) = [fiber_entry 2 (-1)]" by (simp add: window_world_def Let_def)
  ultimately show ?thesis using yield_opens_window [of 7 2 _ 1 window_world 8 "top_local 5" 4 "fiber_entry 2 (-1)" HOLD 9 6 SHold] by auto
qed

end
