(* ===== verification/Hps_ThreadLife.thy ===== *)
theory Hps_ThreadLife
  imports Hps_Thread
begin

text \<open>
  The life of an \<open>hps_Thread\<close> object (hps_sf/thread.cpp): \<open>run\<close> on the new thread works on the
  object through a pointer, the object belongs to the thread that made it, which may join and
  destroy it once the constructor has returned.
\<close>

section \<open>The object, its owner and the new thread\<close>

text \<open>
  \<open>lf_handle\<close> is \<open>m_thread\<close> with the pthread calls made for it, as for \<open>join\<close> and the destructor;
  \<open>pthread_create\<close> gives a handle that is not 0, here 1.
\<close>

record thread_life =
  lf_sys :: thread_sys
  lf_alive :: bool
  lf_handle :: "nat \<times> pthread_call list"

definition life_new :: "nat \<Rightarrow> string \<Rightarrow> thread_life" where
  "life_new count name = \<lparr>lf_sys = Thread_new count name, lf_alive = True, lf_handle = (0, [])\<rparr>"

text \<open>The statements of \<open>run\<close> that use the object; after \<open>notify\<close> it is not used any more.\<close>

definition touches :: "run_pc \<Rightarrow> bool" where
  "touches pc \<longleftrightarrow> pc \<in> {RName, RId, RSetname, RSwap, RNotify}"

datatype life_act = ByCtor | ByRun | OwnerJoins | OwnerDeletes

text \<open>None: the act is not possible now, it waits or the object is gone. An error: a dangling pointer is used.\<close>

definition owner_has :: "thread_life \<Rightarrow> bool" where
  "owner_has s \<longleftrightarrow> th_ctor (lf_sys s) = CReturned \<and> lf_alive s"

fun life_do :: "int \<Rightarrow> life_act \<Rightarrow> thread_life \<Rightarrow> thread_life outcome option" where
  "life_do tid ByCtor s =
     map_option (\<lambda>t. Inr (s\<lparr>lf_sys := t,
         lf_handle := (if th_ctor (lf_sys s) = CCreate then (1, []) else lf_handle s)\<rparr>))
       (Thread_ctor_step (lf_sys s))"
| "life_do tid ByRun s =
     (if touches (th_run (lf_sys s)) \<and> \<not> lf_alive s then Some (Inl (Undefined ''thread is destroyed''))
      else map_option (\<lambda>t. Inr (s\<lparr>lf_sys := t\<rparr>)) (Thread_run_step tid (lf_sys s)))"
| "life_do tid OwnerJoins s =
     (if \<not> owner_has s \<or> fst (lf_handle s) \<noteq> 0 \<and> th_run (lf_sys s) \<noteq> RDone then None
      else Some (obind (Thread_join 0 (lf_handle s)) (\<lambda>h. Inr (s\<lparr>lf_handle := h\<rparr>))))"
| "life_do tid OwnerDeletes s =
     (if \<not> owner_has s then None
      else Some (Inr (s\<lparr>lf_handle := Thread_delete (lf_handle s), lf_alive := False\<rparr>)))"

fun life_run :: "int \<Rightarrow> life_act list \<Rightarrow> thread_life \<Rightarrow> thread_life outcome option" where
  "life_run tid [] s = Some (Inr s)"
| "life_run tid (e # es) s =
     (case life_do tid e s of
        None \<Rightarrow> None
      | Some (Inl x) \<Rightarrow> Some (Inl x)
      | Some (Inr t) \<Rightarrow> life_run tid es t)"

text \<open>The owner joins before it destroys.\<close>

definition joins_first :: "life_act list \<Rightarrow> bool" where
  "joins_first es \<longleftrightarrow> OwnerDeletes \<in> set es \<longrightarrow> OwnerJoins \<in> set (takeWhile (\<lambda>e. e \<noteq> OwnerDeletes) es)"

section \<open>The invariant\<close>

definition joined :: "thread_life \<Rightarrow> bool" where
  "joined s \<longleftrightarrow> lf_handle s = (0, [PJoin 1])"

definition life_inv :: "nat \<Rightarrow> int \<Rightarrow> thread_life \<Rightarrow> bool" where
  "life_inv count tid s \<longleftrightarrow> thread_inv count tid (lf_sys s) \<and>
     lf_handle s \<in> (if th_ctor (lf_sys s) = CCreate then {(0, [])}
                    else if lf_alive s then {(1, []), (0, [PJoin 1])}
                    else {(1, [PDetach 1]), (0, [PJoin 1])}) \<and>
     (joined s \<longrightarrow> th_run (lf_sys s) = RDone \<and> th_ctor (lf_sys s) = CReturned) \<and>
     (\<not> lf_alive s \<longrightarrow> th_run (lf_sys s) \<in> {RCall, RDone} \<and> th_ctor (lf_sys s) = CReturned)"

lemma life_new_inv: "life_inv count tid (life_new count name)"
  by (simp add: life_inv_def life_new_def joined_def thread_inv_def Thread_new_def past_id_def)

lemma ctor_step_pc: "Thread_ctor_step s = Some t \<Longrightarrow> th_ctor s \<noteq> CReturned \<and> th_ctor t \<noteq> CCreate"
  by (auto simp: Thread_ctor_step_def split: ctor_pc.splits option.splits)

lemma run_step_pc:
  "Thread_run_step tid s = Some t \<Longrightarrow>
     th_ctor t = th_ctor s \<and> th_run s \<noteq> RDone \<and> (th_run s = RCall \<longrightarrow> th_run t = RDone)"
  by (auto simp: Thread_run_step_def split: run_pc.splits)

lemma life_ctor_inv:
  assumes "life_inv count tid s" and "life_do tid ByCtor s = Some (Inr t)"
  shows "life_inv count tid t"
proof -
  obtain u where u: "Thread_ctor_step (lf_sys s) = Some u" and t: "t = s\<lparr>lf_sys := u, lf_handle := (if th_ctor (lf_sys s) = CCreate then (1, []) else lf_handle s)\<rparr>"
    using assms(2) by auto
  from assms(1) ctor_step_pc [OF u] thread_ctor_step_inv [OF _ u, of count tid] show ?thesis
    by (auto simp: t life_inv_def joined_def split: if_splits)
qed

lemma life_run_step_inv:
  assumes "life_inv count tid s" and "life_do tid ByRun s = Some (Inr t)"
  shows "life_inv count tid t"
proof -
  obtain u where u: "Thread_run_step tid (lf_sys s) = Some u" and t: "t = s\<lparr>lf_sys := u\<rparr>"
    using assms(2) by (auto split: if_splits)
  from assms(1) run_step_pc [OF u] thread_run_step_inv [OF _ u, of count] show ?thesis
    by (auto simp: t life_inv_def joined_def split: if_splits)
qed

lemma life_join_inv:
  assumes "life_inv count tid s" and "life_do tid OwnerJoins s = Some (Inr t)"
  shows "life_inv count tid t" and "joined t"
  using assms
  by (auto simp: life_inv_def joined_def owner_has_def Thread_join_def split: if_splits prod.splits)

text \<open>Destroying the object is harmless once the thread is past \<open>notify\<close>.\<close>

lemma life_delete_inv:
  assumes "life_inv count tid s" and "life_do tid OwnerDeletes s = Some (Inr t)" and "count = 0 \<or> joined s"
  shows "life_inv count tid t"
proof -
  have o: "th_ctor (lf_sys s) = CReturned" "lf_alive s"
    and t: "t = s\<lparr>lf_handle := Thread_delete (lf_handle s), lf_alive := False\<rparr>"
    using assms(2) by (auto simp: owner_has_def split: if_splits)
  have i: "thread_inv count tid (lf_sys s)" and h: "lf_handle s = (1, []) \<or> joined s"
    and j: "joined s \<Longrightarrow> th_run (lf_sys s) = RDone"
    using assms(1) o by (auto simp: life_inv_def joined_def)
  have "th_run (lf_sys s) \<in> {RCall, RDone}"
  proof (cases "joined s")
    case False
    with assms(3) i o show ?thesis by (auto simp: thread_inv_def split: if_splits)
  qed (simp add: j)
  moreover have "Thread_delete (lf_handle s) = (if joined s then (0, [PJoin 1]) else (1, [PDetach 1]))"
    using h by (auto simp: Thread_delete_def joined_def)
  ultimately show ?thesis using i j o by (simp add: t life_inv_def joined_def)
qed

lemma no_dangling_use:
  assumes "life_inv count tid s" shows "life_do tid e s \<noteq> Some (Inl x)"
  using assms
  by (cases e) (auto simp: life_inv_def touches_def Thread_join_def split: if_splits prod.splits)

lemma joined_kept: "joined s \<Longrightarrow> life_inv count tid s \<Longrightarrow> life_do tid e s = Some (Inr t) \<Longrightarrow> joined t"
  by (cases e) (auto simp: joined_def owner_has_def life_inv_def Thread_join_def Thread_delete_def
      dest: ctor_step_pc split: if_splits prod.splits)

lemma life_run_safe:
  "life_run tid es s = Some r \<Longrightarrow> life_inv count tid s \<Longrightarrow> count = 0 \<or> joined s \<or> joins_first es \<Longrightarrow>
   \<exists>t. r = Inr t \<and> life_inv count tid t"
proof (induction es arbitrary: s)
  case Nil
  then show ?case by auto
next
  case (Cons e es)
  then obtain t where t: "life_do tid e s = Some (Inr t)" "life_run tid es t = Some r"
    using no_dangling_use by (auto split: option.splits sum.splits)
  have d: "count = 0 \<or> joined s" if "e = OwnerDeletes" using Cons.prems(3) that by (auto simp: joins_first_def)
  have "life_inv count tid t"
    using Cons.prems(2) t(1) d by (cases e) (auto simp del: life_do.simps
        intro: life_ctor_inv life_run_step_inv life_join_inv(1) life_delete_inv)
  moreover have "count = 0 \<or> joined t \<or> joins_first es"
  proof (cases "count = 0 \<or> joined s")
    case True
    with joined_kept Cons.prems(2) t(1) show ?thesis by blast
  next
    case False
    with Cons.prems(3) d have "joins_first (e # es)" "e \<noteq> OwnerDeletes" by auto
    with life_join_inv(2) [OF Cons.prems(2)] t(1) show ?thesis
      by (cases "e = OwnerJoins") (auto simp del: life_do.simps simp: joins_first_def)
  qed
  ultimately show ?case using Cons.IH t(2) by blast
qed

section \<open>Properties\<close>



text \<open>
  The semaphore starts at 1, so the constructor does not wait. An owner that destroys the
  object without joining it, which the destructor provides for by detaching the thread, can
  do so before the new thread has read its name from it: the thread uses a destroyed object.
\<close>

theorem detached_thread_uses_destroyed_object:
  "life_run tid [ByCtor, ByCtor, OwnerDeletes, ByRun, ByRun] (life_new Semaphore_default name) =
     Some (Inl (Undefined ''thread is destroyed''))"
  by (simp add: life_new_def Thread_new_def Thread_ctor_step_def Semaphore_wait_def Semaphore_default_def
      Thread_run_step_def touches_def owner_has_def Thread_delete_def)

end
