(* ===== verification/Hps_StartUp.thy ===== *)
theory Hps_StartUp
  imports Hps_FiberStack Hps_LogConfig Hps_Hook
begin

text \<open>
  The start of a program (hps_sf/singleton.h and the initialisers of the library's variables
  with static storage): each translation unit initialises its own in order, the units come in
  an order the language leaves open. The singletons are created by whoever comes first.
\<close>

section \<open>Singletons\<close>

text \<open>
  \<open>hps_Singleton::GetInstance\<close>: the local static \<open>v\<close> is constructed by the first call, and stays
  unconstructed if the constructor throws. The argument is \<open>v\<close> before the call, the result \<open>v\<close>
  after it, which the pointer points to.
\<close>

definition Singleton_GetInstance :: "'a outcome \<Rightarrow> 'a option \<Rightarrow> 'a outcome" where
  "Singleton_GetInstance new_T v = (case v of Some x \<Rightarrow> Inr x | None \<Rightarrow> new_T)"

text \<open>
  \<open>hps_SingletonPtr::GetInstance\<close>: the static is a shared pointer, here the object with its use
  count; the call returns a copy of it.
\<close>

definition SingletonPtr_GetInstance :: "'a outcome \<Rightarrow> ('a \<times> nat) option \<Rightarrow> ('a \<times> nat) outcome" where
  "SingletonPtr_GetInstance new_T v =
     obind (case v of Some x \<Rightarrow> Inr x | None \<Rightarrow> obind new_T (\<lambda>x. Inr (x, 1))) (\<lambda>(x, n). Inr (x, n + 1))"

section \<open>The program's variables\<close>

text \<open>The translation units of the library, in the order of its build file.\<close>

datatype unit_name = Log | Util | Config | Thread | Fiber | Scheduler | IOManager | Timer | Hook

definition LIB_SRC :: "unit_name list" where
  "LIB_SRC = [Log, Util, Config, Thread, Fiber, Scheduler, IOManager, Timer, Hook]"

text \<open>
  The manager's singleton, the registry, each unit's \<open>g_logger\<close>, \<open>g_log_defines\<close>,
  \<open>g_fiber_stack_size\<close>, and the pointers to the hooked functions. A null pointer is None.
\<close>

record 'c program =
  pr_logs :: "log_state option"
  pr_config :: "(hps_LogDefine list cfg_value, 'c) hps_Config"
  pr_g_logger :: "unit_name \<Rightarrow> nat option"
  pr_g_log_defines :: "string option"
  pr_g_fiber_stack_size :: "string option"
  pr_hook :: hook_state

text \<open>Before any initialiser: everything is zero.\<close>

definition program_zero :: "'c program" where
  "program_zero =
     \<lparr>pr_logs = None, pr_config = Config_empty, pr_g_logger = (\<lambda>_. None), pr_g_log_defines = None,
      pr_g_fiber_stack_size = None, pr_hook = \<lparr>is_inited = False, sleep_f = False, usleep_f = False\<rparr>\<rparr>"

section \<open>The initialisers\<close>

text \<open>\<open>HPS_LOG_ROOT()\<close> and \<open>HPS_LOG_NAME(name)\<close>, through the singleton.\<close>

definition HPS_LOG_ROOT :: "'c program \<Rightarrow> ('c program \<times> nat) outcome" where
  "HPS_LOG_ROOT p =
     obind (Singleton_GetInstance LoggerManager_new (pr_logs p)) (\<lambda>s. Inr (p\<lparr>pr_logs := Some s\<rparr>, ls_root s))"

definition HPS_LOG_NAME :: "string \<Rightarrow> 'c program \<Rightarrow> ('c program \<times> nat) outcome" where
  "HPS_LOG_NAME name p =
     obind (Singleton_GetInstance LoggerManager_new (pr_logs p)) (\<lambda>s.
       case getLogger name s of (s', l) \<Rightarrow> Inr (p\<lparr>pr_logs := Some s'\<rparr>, l))"

definition init_g_logger :: "unit_name \<Rightarrow> 'c program \<Rightarrow> 'c program outcome" where
  "init_g_logger u p =
     obind (HPS_LOG_NAME ''system'' p) (\<lambda>(p', l). Inr (p'\<lparr>pr_g_logger := (pr_g_logger p')(u := Some l)\<rparr>))"

definition defines_type :: string where
  "defines_type = ''std::set<hps_LogDefine>''"

definition init_g_log_defines :: "'c program \<Rightarrow> 'c program outcome" where
  "init_g_log_defines p =
     obind (Lookup_or_create ''logs'' defines_type (Other []) ''logs config'' (pr_config p)) (\<lambda>(c, v).
       Inr (p\<lparr>pr_config := c, pr_g_log_defines := v\<rparr>))"

text \<open>\<open>hps_LogIniter\<close>: adds the listener \<open>cb\<close> to the variable.\<close>

definition LogIniter :: "'c \<Rightarrow> 'c program \<Rightarrow> 'c program outcome" where
  "LogIniter cb p =
     obind (deref (pr_g_log_defines p) ''g_log_defines'') (\<lambda>n.
     obind (deref (cf_datas (pr_config p) n) ''g_log_defines'') (\<lambda>x.
       Inr (p\<lparr>pr_config := fst (addListener cb (cv_type x) (pr_config p))\<rparr>)))"

definition init_g_fiber_stack_size :: "'c program \<Rightarrow> 'c program outcome" where
  "init_g_fiber_stack_size p =
     obind (register_stack_size (pr_config p)) (\<lambda>(c, v). Inr (p\<lparr>pr_config := c, pr_g_fiber_stack_size := v\<rparr>))"

definition HookIniter :: "bool \<Rightarrow> 'c program \<Rightarrow> 'c program" where
  "HookIniter found p = p\<lparr>pr_hook := hook_init found (pr_hook p)\<rparr>"

text \<open>A translation unit: its variables from top to bottom.\<close>

fun init_unit :: "'c \<Rightarrow> bool \<Rightarrow> unit_name \<Rightarrow> 'c program \<Rightarrow> 'c program outcome" where
  "init_unit cb found Log p = obind (init_g_log_defines p) (LogIniter cb)"
| "init_unit cb found Util p = init_g_logger Util p"
| "init_unit cb found Config p = Inr p"
| "init_unit cb found Thread p = init_g_logger Thread p"
| "init_unit cb found Fiber p = obind (init_g_logger Fiber p) init_g_fiber_stack_size"
| "init_unit cb found Scheduler p = init_g_logger Scheduler p"
| "init_unit cb found IOManager p = init_g_logger IOManager p"
| "init_unit cb found Timer p = Inr p"
| "init_unit cb found Hook p = Inr (HookIniter found p)"

definition start_up :: "'c \<Rightarrow> bool \<Rightarrow> unit_name list \<Rightarrow> 'c program outcome" where
  "start_up cb found us = ofold (init_unit cb found) us program_zero"

section \<open>What the initialisers leave\<close>

text \<open>The state after the units of a set, in whatever order.\<close>

definition logging_units :: "unit_name set" where
  "logging_units = {Util, Thread, Fiber, Scheduler, IOManager}"

definition logs_started :: log_state where
  "logs_started = fst (getLogger ''system'' manager_state)"

definition logs_after :: "unit_name set \<Rightarrow> log_state option" where
  "logs_after S = (if S \<inter> logging_units = {} then None else Some logs_started)"

definition config_after :: "unit_name set \<Rightarrow> (hps_LogDefine list cfg_value, 'c) hps_Config" where
  "config_after S =
     \<lparr>cf_datas = (if Log \<in> S then [''logs'' \<mapsto> ConfigVar_new ''logs'' defines_type (Other []) ''logs config''] else Map.empty)
        ++ (if Fiber \<in> S
            then [stack_size_name \<mapsto> ConfigVar_new stack_size_name ''uint32_t'' (U32 (1024 * 1024)) ''fiber stack size'']
            else Map.empty),
      cf_fun_id = (if Log \<in> S then (\<lambda>_. 0)(defines_type := 1) else (\<lambda>_. 0)), cf_calls = []\<rparr>"

definition state_after :: "bool \<Rightarrow> unit_name set \<Rightarrow> 'c program" where
  "state_after found S =
     \<lparr>pr_logs = logs_after S, pr_config = config_after S,
      pr_g_logger = (\<lambda>u. if u \<in> S \<inter> logging_units then Some 1 else None),
      pr_g_log_defines = (if Log \<in> S then Some ''logs'' else None),
      pr_g_fiber_stack_size = (if Fiber \<in> S then Some stack_size_name else None),
      pr_hook = \<lparr>is_inited = False, sleep_f = Hook \<in> S \<and> found, usleep_f = Hook \<in> S \<and> found\<rparr>\<rparr>"

lemma state_after_none: "state_after found {} = program_zero"
  by (simp add: state_after_def program_zero_def Config_empty_def logs_after_def config_after_def)

lemma logging_units_simps [simp]:
  "Log \<notin> logging_units" "Config \<notin> logging_units" "Timer \<notin> logging_units" "Hook \<notin> logging_units"
  "Fiber \<in> logging_units" "Util \<in> logging_units" "Thread \<in> logging_units" "Scheduler \<in> logging_units"
  "IOManager \<in> logging_units"
  by (simp_all add: logging_units_def)

lemma logs_after_insert [simp]:
  "logs_after (insert u S) = (if u \<in> logging_units then Some logs_started else logs_after S)"
  by (simp add: logs_after_def)

lemma config_after_insert [simp]: "u \<noteq> Log \<Longrightarrow> u \<noteq> Fiber \<Longrightarrow> config_after (insert u S) = config_after S"
  by (simp add: config_after_def)

lemma names_differ: "stack_size_name \<noteq> ''logs''" "''logs'' \<noteq> stack_size_name" "valid_name ''logs''" "valid_name stack_size_name"
  by (simp_all add: stack_size_name_def valid_name_def name_chars_def)

lemma system_logger:
  "getLogger ''system'' manager_state = (logs_started, 1)" "getLogger ''system'' logs_started = (logs_started, 1)"
  by (simp_all add: logs_started_def getLogger_def manager_state_def Logger_new_def upd_logger_def)

lemma HPS_LOG_NAME_after:
  assumes "pr_logs p = logs_after S"
  shows "HPS_LOG_NAME ''system'' p = Inr (p\<lparr>pr_logs := Some logs_started\<rparr>, 1)"
  using assms
  by (simp add: HPS_LOG_NAME_def Singleton_GetInstance_def logs_after_def manager_start system_logger)

lemma init_g_logger_after:
  assumes "pr_logs p = logs_after S"
  shows "init_g_logger u p = Inr (p\<lparr>pr_logs := Some logs_started, pr_g_logger := (pr_g_logger p)(u := Some 1)\<rparr>)"
  by (simp add: init_g_logger_def HPS_LOG_NAME_after [OF assms])

text \<open>The two units that register a variable, on the registry alone.\<close>

lemma log_registers:
  assumes "Log \<notin> S"
  shows "\<exists>c x. Lookup_or_create ''logs'' defines_type (Other []) ''logs config'' (config_after S) = Inr (c, Some ''logs'')
    \<and> cf_datas c ''logs'' = Some x \<and> fst (addListener cb (cv_type x) c) = config_after (insert Log S)"
  using assms
  by (simp add: Lookup_or_create_def config_after_def names_differ addListener_def ConfigVar_new_def map_add_def
      fun_eq_iff)

lemma fiber_registers:
  assumes "Fiber \<notin> S"
  shows "register_stack_size (config_after S) = Inr (config_after (insert Fiber S), Some stack_size_name)"
  using assms
  by (auto simp: register_stack_size_def Lookup_or_create_def config_after_def names_differ map_add_def fun_eq_iff)

lemma init_unit_after:
  fixes cb :: 'c
  assumes "u \<notin> S"
  shows "init_unit cb found u (state_after found S) = Inr (state_after found (insert u S))"
proof (cases u)
  case Log
  with assms log_registers [of S cb] show ?thesis
    by (auto simp: init_g_log_defines_def LogIniter_def state_after_def)
next
  case Fiber
  have l: "pr_logs (state_after found S :: 'c program) = logs_after S" by (simp add: state_after_def)
  have r: "register_stack_size (pr_config (state_after found S :: 'c program)) = Inr (config_after (insert Fiber S), Some stack_size_name)"
    using Fiber assms by (simp add: state_after_def fiber_registers)
  have "init_unit cb found u (state_after found S) =
      Inr ((state_after found S :: 'c program)\<lparr>pr_logs := Some logs_started,
        pr_g_logger := (pr_g_logger (state_after found S :: 'c program))(Fiber := Some 1),
        pr_config := config_after (insert Fiber S), pr_g_fiber_stack_size := Some stack_size_name\<rparr>)"
    by (simp add: Fiber init_g_logger_after [OF l] init_g_fiber_stack_size_def r)
  with Fiber show ?thesis by (auto simp: state_after_def fun_eq_iff)
qed (use assms in \<open>auto simp: init_g_logger_after [where S = S] state_after_def HookIniter_def hook_init_def fun_eq_iff\<close>)

lemma start_up_after:
  "distinct us \<Longrightarrow> S \<inter> set us = {} \<Longrightarrow>
   ofold (init_unit cb found) us (state_after found S) = Inr (state_after found (S \<union> set us))"
proof (induction us arbitrary: S)
  case Nil
  then show ?case by simp
next
  case (Cons u us)
  then show ?case using Cons.IH [of "insert u S"] by (simp add: init_unit_after)
qed

lemma start_up_result:
  assumes "distinct us" and "set us = set LIB_SRC"
  shows "start_up cb found us = Inr (state_after found (set LIB_SRC))"
  using start_up_after [OF assms(1), of "{}" cb found] assms(2) by (simp add: start_up_def state_after_none)

section \<open>After the start\<close>

text \<open>
  The running program: the operations on the registry, with every call of a listener they make
  applied to the loggers. The listener is the one of \<open>hps_LogIniter\<close>; the arguments up to
  \<open>threadName\<close> are those of its log message.
\<close>

definition notify_logs ::
  "(string \<Rightarrow> u64 \<Rightarrow> string) \<Rightarrow> nat \<Rightarrow> string \<Rightarrow> int \<Rightarrow> u32 \<Rightarrow> u32 \<Rightarrow> u64 \<Rightarrow> string \<Rightarrow>
   'c \<times> hps_LogDefine list cfg_value \<times> hps_LogDefine list cfg_value \<Rightarrow> 'c program \<Rightarrow> 'c program outcome" where
  "notify_logs strftime k file line fiberId threadId time threadName call p =
     (case snd call of
        (Other old_value, Other new_value) \<Rightarrow>
          obind (HPS_LOG_ROOT p) (\<lambda>(p', r).
          obind (deref (pr_logs p') ''hps_LoggerMgr'') (\<lambda>s.
          obind (on_logs_changed strftime k file line fiberId threadId time threadName old_value new_value s) (\<lambda>s'.
            Inr (p'\<lparr>pr_logs := Some s'\<rparr>))))
      | _ \<Rightarrow> Inl (Undefined ''not a set of definitions''))"

definition program_do ::
  "('c \<times> hps_LogDefine list cfg_value \<times> hps_LogDefine list cfg_value \<Rightarrow> 'c program \<Rightarrow> 'c program outcome) \<Rightarrow>
   'n yaml \<Rightarrow> (string \<Rightarrow> string \<Rightarrow> hps_LogDefine list cfg_value outcome) \<Rightarrow>
   (hps_LogDefine list cfg_value, 'c, 'n) config_op \<Rightarrow> 'c program \<Rightarrow> 'c program outcome" where
  "program_do notify Y from_str op p =
     obind (deref (config_exec Y from_str op (pr_config p)) ''config'') (\<lambda>c.
       ofold notify (drop (length (cf_calls (pr_config p))) (cf_calls c)) (p\<lparr>pr_config := c\<rparr>))"

lemma config_after_inv: "config_inv (config_after S)"
  by (auto simp: config_inv_def config_after_def ConfigVar_new_def names_differ map_add_def tolower_def
      stack_size_name_def valid_name_def name_chars_def)

lemma program_do_quiet:
  assumes "config_inv (pr_config p)" and "program_do notify Y from_str op p = Inr p'"
  shows "config_inv (pr_config p')" and "pr_logs p' = pr_logs p"
proof -
  obtain c where c: "config_exec Y from_str op (pr_config p) = Some c"
    and p': "ofold notify (drop (length (cf_calls (pr_config p))) (cf_calls c)) (p\<lparr>pr_config := c\<rparr>) = Inr p'"
    using assms(2) by (auto simp: program_do_def outcome_simps)
  have i: "config_inv c" using config_exec_inv [OF assms(1) c] .
  then have "p' = p\<lparr>pr_config := c\<rparr>" using p' by (simp add: config_inv_def)
  with i show "config_inv (pr_config p')" and "pr_logs p' = pr_logs p" by simp_all
qed

lemma program_run_quiet:
  "ofold (program_do notify Y from_str) ops p = Inr p' \<Longrightarrow> config_inv (pr_config p) \<Longrightarrow> pr_logs p' = pr_logs p"
proof (induction ops arbitrary: p)
  case Nil
  then show ?case by simp
next
  case (Cons op ops)
  then obtain p1 where "program_do notify Y from_str op p = Inr p1" and "ofold (program_do notify Y from_str) ops p1 = Inr p'"
    by (auto simp: outcome_simps)
  with Cons program_do_quiet show ?case by metis
qed

section \<open>Properties\<close>

text \<open>
  C9: The order of the initialisers does not matter. For every order of the translation units the
  start succeeds and ends in the same state: there are exactly the loggers root and system and
  every unit's \<open>g_logger\<close> is the one system logger, whose root is the root logger; the registry
  has exactly \<open>logs\<close> and \<open>fiber.stack_size\<close>, and a fiber without a size gets one MiB of stack;
  the hooked functions are what \<open>dlsym\<close> found.
\<close>

theorem start_up_in_any_order:
  assumes "distinct us" and "set us = set LIB_SRC"
  shows "case start_up cb found us of
      Inl e \<Rightarrow> False
    | Inr p \<Rightarrow> start_up cb found LIB_SRC = Inr p \<and>
        map_option ls_names (pr_logs p) = Some [''root'' \<mapsto> 0, ''system'' \<mapsto> 1] \<and>
        map_option (\<lambda>s. map lg_root (ls_logger s)) (pr_logs p) = Some [None, Some 0] \<and>
        map (pr_g_logger p) [Util, Thread, Fiber, Scheduler, IOManager] = replicate 5 (Some 1) \<and>
        dom (cf_datas (pr_config p)) = {''logs'', ''fiber.stack_size''} \<and>
        pr_g_log_defines p = Some ''logs'' \<and> pr_g_fiber_stack_size p = Some ''fiber.stack_size'' \<and>
        configured_stack_size (pr_config p) = Inr (1024 * 1024) \<and>
        pr_hook p = \<lparr>is_inited = False, sleep_f = found, usleep_f = found\<rparr>"
proof -
  have "distinct LIB_SRC" by (simp add: LIB_SRC_def)
  then have l: "start_up cb found LIB_SRC = Inr (state_after found (set LIB_SRC))" by (rule start_up_result) simp
  have "map_option ls_names (logs_after (set LIB_SRC)) = Some [''root'' \<mapsto> 0, ''system'' \<mapsto> 1]"
    and "map_option (\<lambda>s. map lg_root (ls_logger s)) (logs_after (set LIB_SRC)) = Some [None, Some 0]"
    by (simp_all add: logs_after_def LIB_SRC_def logs_started_def getLogger_def manager_state_def Logger_new_def
        upd_logger_def)
  moreover have "dom (cf_datas (config_after (set LIB_SRC))) = {''logs'', ''fiber.stack_size''}"
    by (auto simp: config_after_def LIB_SRC_def stack_size_name_def)
  moreover have "configured_stack_size (config_after (set LIB_SRC)) = Inr (1024 * 1024)"
    by (simp add: configured_stack_size_def Lookup_def config_after_def LIB_SRC_def ConfigVar_new_def getValue_def)
  ultimately show ?thesis
    by (simp add: start_up_result [OF assms] l, simp add: state_after_def LIB_SRC_def stack_size_name_def numeral_eq_Suc)
qed

theorem start_up_in_any_order_witness:
  "case start_up () True [Hook, Timer, IOManager, Scheduler, Fiber, Thread, Config, Util, Log] of
     Inl e \<Rightarrow> False
   | Inr p \<Rightarrow> start_up () True LIB_SRC = Inr p \<and> pr_g_logger p Fiber = Some 1"
proof -
  let ?us = "[Hook, Timer, IOManager, Scheduler, Fiber, Thread, Config, Util, Log]"
  have "distinct ?us" "set ?us = set LIB_SRC" by (auto simp: LIB_SRC_def)
  from start_up_in_any_order [OF this, of "()" True] show ?thesis
    by (auto simp: numeral_eq_Suc split: sum.splits)
qed

text \<open>
  C40: A configuration file never configures the loggers. After the start, whatever is looked up,
  set, listened to or loaded from files, also under the name \<open>logs\<close>, the loggers and appenders
  stay as the start left them: the listener that would apply a new value is never called.
\<close>

theorem logs_configuration_never_applied:
  assumes "distinct us" and "set us = set LIB_SRC" and "start_up cb found us = Inr p"
    and "ofold (program_do (notify_logs strftime k file line fiberId threadId time threadName) Y from_str) ops p = Inr p'"
  shows "pr_logs p' = Some (fst (getLogger ''system'' manager_state)) \<and> pr_logs p' = pr_logs p"
proof -
  have p: "p = state_after found (set LIB_SRC)" using start_up_result [OF assms(1,2), of cb found] assms(3) by simp
  have "config_inv (pr_config p)" by (simp add: p state_after_def config_after_inv)
  from program_run_quiet [OF assms(4) this] show ?thesis
    by (simp add: p state_after_def logs_after_def LIB_SRC_def logs_started_def)
qed

text \<open>A file that gives the variable \<open>logs\<close> a new value.\<close>

definition db_define :: hps_LogDefine where
  "db_define = \<lparr>ld_name = ''db'', ld_level = ERROR, ld_formatter = [], ld_appenders = []\<rparr>"

definition logs_from :: "string \<Rightarrow> string \<Rightarrow> hps_LogDefine list cfg_value outcome" where
  "logs_from ty t = (if ty = defines_type then Inr (Other [db_define]) else Inl (Thrown ''bad_lexical_cast''))"

theorem logs_configuration_never_applied_witness:
  "\<exists>p p'. start_up () True LIB_SRC = Inr p \<and>
     ofold (program_do (notify_logs (\<lambda>_ _. []) 0 [] 1 0 7 0 []) sample_yaml logs_from)
       [CLoad 3 (Node [(''logs'', Leaf ''- name: db'')])] p = Inr p' \<and>
     map_option cv_val (cf_datas (pr_config p) ''logs'') = Some (Other []) \<and>
     map_option cv_val (cf_datas (pr_config p') ''logs'') = Some (Other [db_define]) \<and> pr_logs p' = pr_logs p"
proof -
  let ?p = "state_after True (set LIB_SRC) :: unit program"
  let ?do = "program_do (notify_logs (\<lambda>_ _. []) 0 [] 1 0 7 0 []) sample_yaml logs_from"
  let ?ops = "[CLoad 3 (Node [(''logs'', Leaf ''- name: db'')])]"
  have d: "distinct LIB_SRC" by (simp add: LIB_SRC_def)
  have s: "start_up () True LIB_SRC = Inr ?p" by (rule start_up_result [OF d refl])
  obtain p' where r: "ofold ?do ?ops ?p = Inr p'"
    and v: "map_option cv_val (cf_datas (pr_config p') ''logs'') = Some (Other [db_define])"
    by (simp add: program_do_def LoadFromYaml_def sample_yaml_def valid_name_def name_chars_def sub_name_def
        load_node_def LookupBase_def state_after_def config_after_def LIB_SRC_def names_differ ConfigVar_new_def
        fromString_def logs_from_def setValue_def tolower_def map_add_def Let_def numeral_eq_Suc)
  have "map_option cv_val (cf_datas (pr_config ?p) ''logs'') = Some (Other [])"
    by (simp add: state_after_def config_after_def LIB_SRC_def names_differ ConfigVar_new_def map_add_def)
  with logs_configuration_never_applied [OF d refl s r] s r v show ?thesis by blast
qed

end
