(* ===== verification/Spec2Isabelle.thy ===== *)
theory Spec2Isabelle
  imports Hps_TimerClaims Hps_Mutex Hps_Thread Hps_FiberClaims Hps_FiberStack Hps_SchedulerClaims
    Hps_IOManagerClaims Hps_SleepWake Hps_EventTurn Hps_Hook Hps_LoggerClaims Hps_LogMacros
    Hps_FileAppender
    Hps_LogConfigClaims Hps_ConfigClaims Hps_LexicalCast Hps_Util Hps_LockClaims Hps_CutClaims
    Hps_TaskFlow Hps_YieldWindow Hps_ThreadLife Hps_StartUp
begin

text \<open>
  hps_sf, a C++ server framework on coroutines: fibers over ucontext, an M:N scheduler, an
  epoll-based IO manager with timers, hooked sleeping, a log system and a configuration system.

  The program's parts and how they interact.

  \<^item> Locks (mutex.h) and threads (thread.h, thread.cpp) are used by everything else. A thread's
    constructor waits on a semaphore for the new thread.
  \<^item> Fibers (fiber.h, fiber.cpp): objects with a state, a callback and a context; every thread has
    a current fiber, a main fiber and, under a scheduler, a scheduler fiber to switch back to.
  \<^item> The scheduler (scheduler.h, scheduler.cpp): a queue of fibers and callbacks, workers that run
    a loop of picking a task, switching into it and deciding what becomes of it.
  \<^item> Timers (timer.h, timer.cpp): a set of timers ordered by deadline, polled for due callbacks.
  \<^item> The IO manager (iomanager.h, iomanager.cpp) is a scheduler and a timer manager: its idle loop
    polls epoll and the timers and schedules what became ready.
  \<^item> The hook (hook.h, hook.cpp) turns sleep into a timer that schedules the calling fiber.
  \<^item> The log system (log.h, log.cpp): loggers with appenders, patterns compiled to format items,
    a description of the loggers as YAML, and a configuration variable with definitions of
    loggers whose listener applies a change to them.
  \<^item> The configuration system (config.h, config.cpp): typed variables by name, loaded from YAML,
    with conversions of containers from and to YAML text.
  \<^item> Utilities (util.h, util.cpp): clock readings, the back trace, ids.

  The theories.

  \<^item> Hps_Prelude: integer types, the type of results (a value or a way the program fails:
    failed assertion, null pointer, index out of range, undefined behaviour, exception), loops
    that stop at a failure, and the locale invariant_system (a start, a step, a property every
    step keeps), interpreted on every component with concurrent or repeated operations.
  \<^item> Hps_StdSet: std::set by its contract, undefined where the contract is broken.
  \<^item> Hps_Timer, Hps_TimerProps, Hps_TimerClaims: hps_Timer and hps_TimerManager; the model, the
    lemmas per operation, the properties. Addresses from the allocator and clock readings are
    arguments.
  \<^item> Hps_Mutex: every lock type and the scoped locks. Hps_Thread: the start-up handshake.
    Hps_ThreadLife: the thread object between its owner, who joins or destroys it, and the new
    thread, which reads it: when no destroyed object is used.
  \<^item> Hps_Fiber, Hps_FiberProps, Hps_FiberClaims: fibers on a heap by address, thread-local
    pointers per thread, a switch as a change of who is running; what a fiber's code does until
    it switches out is a slice, an argument.
  \<^item> Hps_Scheduler (the model), Hps_SchedulerProps (one iteration of a worker),
    Hps_SchedulerRuns (any interleaving of any number of workers; run is cut at the points
    where threads interfere), Hps_SchedulerClaims. Hps_TaskFlow: the same runs as sequences of
    acts, with the record of the entries scheduled, taken and started: no task is lost or run
    twice, callbacks are taken in order. Hps_YieldWindow: a yield cut between the change of the
    fiber's state and the switch, and what another worker does in between.
  \<^item> Hps_IOManager, Hps_IOManagerProps, Hps_IOManagerClaims: contexts per descriptor;
    epoll_ctl is a parameter with its documented effect as a hypothesis, what epoll_wait reports
    is an argument. Hps_Hook: sleep and usleep.
  \<^item> Hps_IdleLoop: the scheduler's worker loop, the idle fiber of the IO manager and the timers
    together, with the virtual calls of the scheduler going to the IO manager: an idle turn
    (with the loop around an interrupted epoll_wait) queues the due callbacks, the iterations
    that follow run them. Also the destructor. Hps_SleepWake: a callback that acts on the IO
    manager, and the whole way of a sleeping fiber from the due timer to its next slice.
  \<^item> Hps_ManagerRuns: every interleaving of the manager's workers (the iterations of the
    scheduler, the turns of the idle loop), its event and timer operations and the code around it,
    from the constructor on; when the idle loop ends. Hps_EventTurn: one idle turn in which
    timers are due and descriptors ready, and the iterations that run what it queued.
  \<^item> Hps_FiberStack: the registry of variables and the fibers in one world, with the memory of
    the stacks: who owns which block, and which size a loaded configuration gives it.
  \<^item> Hps_LockOrder: threads that take and release shared and exclusive locks and touch data; a
    discipline (locks in the order of a rank, data under its lock) and what it gives: progress, a
    bound on the steps, no races. Hps_LockTraces (loggers, configuration), Hps_IOLockTraces
    (timers, fibers, scheduler, IO manager): per function the locks it takes and the data it
    touches. Hps_LockClaims: they follow the discipline, so the library has no deadlock; the
    data outside it has races. Hps_CutOps: threads whose operations give up their lock between
    a look and the work, and when every run is one of whole operations; Hps_CutClaims: the timer
    calls and the calls on a variable are such operations, reset is not.
  \<^item> Hps_LogFormatter, Hps_LogFormatterClaims: levels, events, items and the pattern parser
    with its index arithmetic. Hps_Logger, Hps_LoggerClaims: appenders, loggers, the manager.
    Hps_LogMacros: the methods for one level and the printf macro.
  \<^item> Hps_FileAppender: the stream of a file appender by the C++ standard's description of
    std::ofstream, its reopening once per second, what reaches the file.
  \<^item> Hps_Config, Hps_ConfigClaims: variables, registry and loading.
  \<^item> Hps_Yaml: what the conversions rely on of yaml-cpp, as a record of its operations and the
    predicate documented_yaml of their documented laws; a concrete document type satisfies it.
    Hps_LexicalCast: the generic conversion and the container conversions over any such operations.
  \<^item> Hps_LogConfig (the model), Hps_LogConfigProps (reading and writing of definitions),
    Hps_LogListener (the effect of the listener on a logger), Hps_LogConfigClaims: the
    definitions of loggers, their text, the listener and the description of the loggers.
  \<^item> Hps_StartUp: the singletons and the initialisers of the variables with static storage, unit
    by unit in any order; then the registry and the loggers of the running program together.
  \<^item> Hps_Util: clock readings with their 64-bit arithmetic, the back trace, the fiber id.

  Fuel. Recursion over a log pattern is by a measure (positions only grow). A log call recurses
  along roots: fuel two is enough in every reachable state, which is proved. The traversal of a
  YAML tree has fuel for the depth: any number above a rank of the tree is enough, which is
  proved. The parser of the concrete YAML type, used by witnesses only, has fuel for the depth
  of the printed document, which is enough by its round trip.

  The two views of locking. In the models of the components an operation is atomic where the code
  holds one lock throughout, and cut where it gives the lock up (the steps of a worker, addEvent
  between its two look-ups); listExpiredCb and setValue, which look under one lock and work under
  another, are atomic in their components and cut in Hps_CutClaims, where the two are proved
  to have the same runs. The traces of Hps_LockTraces record which data an operation touches
  under which lock. They take the branches of a function as arguments, so that they cover
  every path of it, and do not repeat what it computes.

  Not modelled: system calls behind their documented effect (pthread, ucontext, epoll,
  gettimeofday, files), boost::lexical_cast and the inside of yaml-cpp (parameters), a failing
  malloc, weak memory (a race is stated as two conflicting accesses enabled at once), the text of
  console messages, events whose context belongs to another scheduler, reference counts of
  shared pointers, the destruction of static variables at exit, constructors and destructors of
  the lock classes (one pthread call each), build files and tests.
\<close>

end
